(* ===== verification/Js_Prelude.thy ===== *)
theory Js_Prelude
  imports Main "HOL-Library.Char_ord" "HOL-Library.List_Lexorder" "HOL-Library.Multiset"
begin

section \<open>JavaScript strings, lists and insertion-ordered sets\<close>

text \<open>
  The part of the JavaScript standard library that the modelled sources use on strings
  and arrays.  A JavaScript string is a sequence of 16-bit code units; here it is a
  \<^typ>\<open>string\<close>, whose characters are the code units below 256.  On that range every
  operation below is exact: \<open>trim\<close> strips the white space of the range (tab to carriage
  return, the space and the no-break space), \<open>to_lower\<close> maps ASCII and Latin-1 letters,
  lengths and slices count code units.

  An ES6 \<open>Set\<close> iterates in insertion order, so it is a list without repetitions
  (\<open>set_add\<close>, \<open>js_set\<close>).  \<open>Array.prototype.sort\<close> is stable, so it is the stable insertion
  sort \<open>sort_by\<close> for the relation "the comparator does not return a positive number".

  The collection \<open>js_defs\<close> holds the definitions that evaluate closed terms; the lemmas
  marked \<open>[simp]\<close> are the laws the component proofs use.
\<close>

named_theorems js_defs \<open>definitions of the string library, for evaluation\<close>

subsection \<open>White space and trimming\<close>

definition is_space :: "char \<Rightarrow> bool" where
  [js_defs]: "is_space c \<longleftrightarrow> c = CHR '' '' \<or> c = CHR 0x09 \<or> c = CHR 0x0A \<or> c = CHR 0x0B \<or>
     c = CHR 0x0C \<or> c = CHR 0x0D \<or> c = CHR 0xA0"

definition trim :: "string \<Rightarrow> string" where
  [js_defs]: "trim s = rev (dropWhile is_space (rev (dropWhile is_space s)))"

definition trimmed :: "string \<Rightarrow> bool" where
  [js_defs]: "trimmed s \<longleftrightarrow> s = [] \<or> \<not> is_space (hd s) \<and> \<not> is_space (last s)"

lemma dropWhile_hd: "dropWhile P xs = [] \<or> \<not> P (hd (dropWhile P xs))"
  by (induction xs) auto

lemma dropWhile_id: "xs = [] \<or> \<not> P (hd xs) \<Longrightarrow> dropWhile P xs = xs"
  by (cases xs) auto

lemma trim_id: "trimmed s \<Longrightarrow> trim s = s"
  unfolding trimmed_def trim_def
  by (cases "s = []") (simp_all add: dropWhile_id hd_rev)

lemma trim_trimmed [simp]: "trimmed (trim s)"
proof -
  define t where "t = dropWhile is_space s"
  have ht: "t = [] \<or> \<not> is_space (hd t)"
    unfolding t_def by (rule dropWhile_hd)
  define u where "u = dropWhile is_space (rev t)"
  have hu: "u = [] \<or> \<not> is_space (hd u)"
    unfolding u_def by (rule dropWhile_hd)
  obtain w where w: "rev t = w @ u"
    unfolding u_def by (metis takeWhile_dropWhile_id)
  have "rev u = [] \<or> hd (rev u) = hd t"
  proof (cases "u = []")
    case False
    from w have "t = rev u @ rev w"
      by (metis rev_append rev_rev_ident)
    with False show ?thesis by simp
  qed simp
  moreover have "u = [] \<or> t \<noteq> []"
    using w by auto
  ultimately have "rev u = [] \<or> \<not> is_space (hd (rev u)) \<and> \<not> is_space (last (rev u))"
    using ht hu by (auto simp: last_rev)
  then show ?thesis
    unfolding trimmed_def trim_def t_def u_def by simp
qed

lemma trim_trim [simp]: "trim (trim s) = trim s"
  by (simp add: trim_id)

lemma trim_Nil [simp]: "trim [] = []"
  by (simp add: trim_def)

lemma trim_eq_Nil: "trim s = [] \<longleftrightarrow> (\<forall>c \<in> set s. is_space c)"
proof
  assume "trim s = []"
  then have "\<forall>c \<in> set (dropWhile is_space s). is_space c"
    unfolding trim_def by (metis dropWhile_eq_Nil_conv rev_is_Nil_conv set_rev)
  then have "dropWhile is_space s = []"
    by (metis dropWhile_hd list.set_sel(1))
  then show "\<forall>c \<in> set s. is_space c" by simp
next
  assume *: "\<forall>c \<in> set s. is_space c"
  then have "dropWhile is_space s = []"
    by (simp add: dropWhile_eq_Nil_conv)
  then show "trim s = []"
    unfolding trim_def by (metis dropWhile.simps(1) rev.simps(1))
qed

lemma set_trim_subset: "set (trim s) \<subseteq> set s"
  by (auto simp: trim_def dest!: set_dropWhileD)

lemma length_trim_le: "length (trim s) \<le> length s"
proof -
  have "length (trim s) \<le> length (dropWhile is_space s)"
    unfolding trim_def by (metis length_dropWhile_le length_rev)
  also have "\<dots> \<le> length s" by (rule length_dropWhile_le)
  finally show ?thesis .
qed

lemma trimmed_Nil [simp]: "trimmed []"
  by (simp add: trimmed_def)

lemma trim_cases: "(trim s = [] \<Longrightarrow> P) \<Longrightarrow> (trim s \<noteq> [] \<Longrightarrow> trimmed (trim s) \<Longrightarrow> P) \<Longrightarrow> P"
  by (cases "trim s = []") auto

lemma no_space_trimmed: "\<forall>c \<in> set s. \<not> is_space c \<Longrightarrow> trimmed s"
  by (cases "s = []") (auto simp: trimmed_def)

lemma trim_no_space: "\<forall>c \<in> set s. \<not> is_space c \<Longrightarrow> trim s = s"
  by (simp add: no_space_trimmed trim_id)

lemma trimmed_append:
  "a \<noteq> [] \<Longrightarrow> b \<noteq> [] \<Longrightarrow> \<not> is_space (hd a) \<Longrightarrow> \<not> is_space (last b) \<Longrightarrow> trimmed (a @ b)"
  by (simp add: trimmed_def)

subsection \<open>Splitting and joining\<close>

fun splitc :: "char \<Rightarrow> string \<Rightarrow> string list" where
  "splitc d [] = [[]]"
| "splitc d (c # cs) =
     (if c = d then [] # splitc d cs
      else case splitc d cs of [] \<Rightarrow> [[c]] | p # ps \<Rightarrow> (c # p) # ps)"

fun join :: "string \<Rightarrow> string list \<Rightarrow> string" where
  "join sep [] = []"
| "join sep [x] = x"
| "join sep (x # y # ys) = x @ sep @ join sep (y # ys)"

lemma splitc_not_Nil [simp]: "splitc d s \<noteq> []"
  by (induction s) (auto split: list.splits)

lemma splitc_free: "p \<in> set (splitc d s) \<Longrightarrow> d \<notin> set p"
proof (induction s arbitrary: p)
  case (Cons c cs)
  then show ?case
    by (cases "splitc d cs") (auto split: if_splits)
qed simp

lemma splitc_chars: "p \<in> set (splitc d s) \<Longrightarrow> c \<in> set p \<Longrightarrow> c \<in> set s"
proof (induction s arbitrary: p)
  case (Cons a cs)
  then show ?case
    by (cases "splitc d cs") (fastforce split: if_splits)+
qed simp

lemma splitc_no_sep: "d \<notin> set s \<Longrightarrow> splitc d s = [s]"
  by (induction s) auto

lemma splitc_append: "d \<notin> set x \<Longrightarrow> splitc d (x @ d # s) = x # splitc d s"
  by (induction x) auto

lemma splitc_append_sep: "splitc d (s @ d # t) = splitc d s @ splitc d t"
proof (induction s)
  case (Cons c s)
  then show ?case by (cases "splitc d s") auto
qed simp

lemma join_Cons: "xs \<noteq> [] \<Longrightarrow> join sep (x # xs) = x @ sep @ join sep xs"
  by (cases xs) auto

lemma join_splitc [simp]: "join [d] (splitc d s) = s"
proof (induction s)
  case (Cons c cs)
  show ?case
  proof (cases "c = d")
    case True
    then show ?thesis using Cons by (simp add: join_Cons)
  next
    case False
    then obtain p ps where "splitc d cs = p # ps"
      by (metis list.exhaust splitc_not_Nil)
    with False Cons show ?thesis by (cases ps) auto
  qed
qed simp

lemma splitc_join:
  "xs \<noteq> [] \<Longrightarrow> \<forall>x \<in> set xs. d \<notin> set x \<Longrightarrow> splitc d (join [d] xs) = xs"
proof (induction xs)
  case (Cons x xs)
  then show ?case
    by (cases "xs = []") (simp_all add: splitc_no_sep join_Cons splitc_append)
qed simp

lemma set_join: "set (join sep xs) \<subseteq> \<Union> (set ` set xs) \<union> set sep"
  by (induction sep xs rule: join.induct) auto

lemma join_mem: "c \<in> set (join sep xs) \<Longrightarrow> c \<in> set sep \<or> (\<exists>x \<in> set xs. c \<in> set x)"
  by (induction sep xs rule: join.induct) auto

lemma join_ends:
  "xs \<noteq> [] \<Longrightarrow> \<forall>x \<in> set xs. x \<noteq> [] \<Longrightarrow>
    join sep xs \<noteq> [] \<and> hd (join sep xs) = hd (hd xs) \<and> last (join sep xs) = last (last xs)"
  by (induction sep xs rule: join.induct) auto

lemma trimmed_join:
  "xs \<noteq> [] \<Longrightarrow> \<forall>x \<in> set xs. x \<noteq> [] \<and> trimmed x \<Longrightarrow> trimmed (join sep xs)"
  using join_ends [of xs sep] by (auto simp: trimmed_def)

lemma join_eq_Nil: "join sep xs = [] \<Longrightarrow> \<forall>x \<in> set xs. x = []"
  by (induction sep xs rule: join.induct) auto

subsection \<open>Searching and slicing\<close>

definition starts_with :: "string \<Rightarrow> string \<Rightarrow> bool" where
  [js_defs]: "starts_with p s \<longleftrightarrow> take (length p) s = p"

definition ends_with :: "string \<Rightarrow> string \<Rightarrow> bool" where
  [js_defs]: "ends_with p s \<longleftrightarrow> length p \<le> length s \<and> drop (length s - length p) s = p"

primrec index_of :: "string \<Rightarrow> string \<Rightarrow> nat option" where
  "index_of p [] = (if p = [] then Some 0 else None)"
| "index_of p (c # cs) =
     (if starts_with p (c # cs) then Some 0 else map_option Suc (index_of p cs))"

definition index_from :: "string \<Rightarrow> nat \<Rightarrow> string \<Rightarrow> nat option" where
  [js_defs]: "index_from p i s = map_option (\<lambda>j. i + j) (index_of p (drop i s))"

definition includes_str :: "string \<Rightarrow> string \<Rightarrow> bool" where
  [js_defs]: "includes_str p s \<longleftrightarrow> index_of p s \<noteq> None"

definition slice :: "nat \<Rightarrow> nat \<Rightarrow> string \<Rightarrow> string" where
  [js_defs]: "slice i j s = take (j - i) (drop i s)"

definition slice_end :: "nat \<Rightarrow> string \<Rightarrow> string" where
  [js_defs]: "slice_end n s = drop (length s - n) s"

lemma starts_with_iff: "starts_with p s \<longleftrightarrow> (\<exists>t. s = p @ t)"
  unfolding starts_with_def by (metis append_eq_conv_conj append_take_drop_id)

lemma starts_with_append [simp]: "starts_with p (p @ t)"
  by (auto simp: starts_with_iff)

lemma starts_with_Nil [simp]: "starts_with [] s"
  by (simp add: starts_with_def)

lemma starts_with_mono: "starts_with p s \<Longrightarrow> starts_with p (s @ t)"
  by (auto simp: starts_with_iff)

lemma starts_with_extend: "length p \<le> length s \<Longrightarrow> starts_with p (s @ t) \<longleftrightarrow> starts_with p s"
  by (simp add: starts_with_def)

lemma starts_with_single: "starts_with [d] s \<longleftrightarrow> s \<noteq> [] \<and> hd s = d"
  by (cases s) (auto simp: starts_with_def)

lemma index_of_Some:
  "index_of p s = Some i \<Longrightarrow> \<exists>a b. s = a @ p @ b \<and> length a = i"
proof (induction s arbitrary: i)
  case (Cons c cs)
  show ?case
  proof (cases "starts_with p (c # cs)")
    case True
    with Cons.prems have "i = 0" by simp
    with True show ?thesis by (auto simp: starts_with_iff)
  next
    case False
    with Cons.prems obtain j where "index_of p cs = Some j" and i: "i = Suc j" by auto
    with Cons.IH obtain a b where "cs = a @ p @ b" and "length a = j" by blast
    with i have "c # cs = (c # a) @ p @ b \<and> length (c # a) = i" by simp
    then show ?thesis by blast
  qed
qed (auto split: if_splits)

lemma index_of_None: "index_of p s = None \<longleftrightarrow> \<not> (\<exists>a b. s = a @ p @ b)"
proof
  assume "index_of p s = None"
  then show "\<not> (\<exists>a b. s = a @ p @ b)"
  proof (induction s)
    case (Cons c cs)
    from Cons.prems have nsw: "\<not> starts_with p (c # cs)" and "index_of p cs = None"
      by (auto split: if_splits)
    from this(2) have IH: "\<not> (\<exists>a b. cs = a @ p @ b)" by (rule Cons.IH)
    show ?case
    proof
      assume "\<exists>a b. c # cs = a @ p @ b"
      then obtain a b where ab: "c # cs = a @ p @ b" by blast
      show False
      proof (cases a)
        case Nil
        with ab nsw show False by (auto simp: starts_with_iff)
      next
        case (Cons x a')
        with ab IH show False by auto
      qed
    qed
  qed (auto split: if_splits)
next
  assume "\<not> (\<exists>a b. s = a @ p @ b)"
  then show "index_of p s = None"
    using index_of_Some by (metis option.exhaust)
qed

lemma includes_iff: "includes_str p s \<longleftrightarrow> (\<exists>a b. s = a @ p @ b)"
  by (simp add: includes_str_def index_of_None)

lemma includes_single: "includes_str [c] s \<longleftrightarrow> c \<in> set s"
  by (auto simp: includes_iff in_set_conv_decomp)

lemma index_of_first:
  "index_of p s = Some i \<Longrightarrow> j < i \<Longrightarrow> \<not> starts_with p (drop j s)"
proof (induction s arbitrary: i j)
  case (Cons c cs)
  then show ?case by (cases j) (auto split: if_splits)
qed (auto split: if_splits)

lemma index_of_bound: "index_of p s = Some i \<Longrightarrow> i + length p \<le> length s"
  by (auto dest!: index_of_Some)

subsection \<open>Letter case\<close>

definition lower_char :: "char \<Rightarrow> char" where
  [js_defs]: "lower_char c =
     (let n = (of_char c :: nat) in
      if (65 \<le> n \<and> n \<le> 90) \<or> (192 \<le> n \<and> n \<le> 214) \<or> (216 \<le> n \<and> n \<le> 222)
      then char_of (n + 32) else c)"

definition to_lower :: "string \<Rightarrow> string" where
  [js_defs]: "to_lower s = map lower_char s"

lemma lower_char_idem [simp]: "lower_char (lower_char c) = lower_char c"
proof -
  have "of_char (char_of (of_char c + 32 :: nat)) = (of_char c + 32 :: nat)"
    if "(of_char c :: nat) \<le> 222"
    using that by (simp add: take_bit_eq_mod)
  then show ?thesis by (auto simp: lower_char_def Let_def)
qed

lemma to_lower_idem [simp]: "to_lower (to_lower s) = to_lower s"
  by (simp add: to_lower_def)

lemma to_lower_eq_Nil [simp]: "to_lower s = [] \<longleftrightarrow> s = []"
  by (simp add: to_lower_def)

lemma length_to_lower [simp]: "length (to_lower s) = length s"
  by (simp add: to_lower_def)

subsection \<open>Decimal digits\<close>

definition is_digit :: "char \<Rightarrow> bool" where
  [js_defs]: "is_digit c \<longleftrightarrow> 48 \<le> (of_char c :: nat) \<and> (of_char c :: nat) \<le> 57"

definition digit_val :: "char \<Rightarrow> nat" where
  [js_defs]: "digit_val c = of_char c - 48"

definition digit_chr :: "nat \<Rightarrow> char" where
  [js_defs]: "digit_chr n = char_of (48 + n)"

fun nat_str :: "nat \<Rightarrow> string" where
  "nat_str n = (if n < 10 then [digit_chr n] else nat_str (n div 10) @ [digit_chr (n mod 10)])"

declare nat_str.simps [simp del]

definition int_str :: "int \<Rightarrow> string" where
  [js_defs]: "int_str i = (if i < 0 then ''-'' @ nat_str (nat (- i)) else nat_str (nat i))"

definition parse_nat :: "string \<Rightarrow> nat" where
  [js_defs]: "parse_nat s = foldl (\<lambda>a c. 10 * a + digit_val c) 0 s"

lemma of_digit_chr: "n < 10 \<Longrightarrow> of_char (digit_chr n) = (48 + n :: nat)"
  by (simp add: digit_chr_def take_bit_eq_mod)

lemma is_digit_chr [simp]: "n < 10 \<Longrightarrow> is_digit (digit_chr n)"
  by (simp add: is_digit_def of_digit_chr)

lemma digit_val_chr [simp]: "n < 10 \<Longrightarrow> digit_val (digit_chr n) = n"
  by (simp add: digit_val_def of_digit_chr)

lemma parse_nat_snoc: "parse_nat (s @ [c]) = 10 * parse_nat s + digit_val c"
  by (simp add: parse_nat_def)

lemma parse_nat_str [simp]: "parse_nat (nat_str n) = n"
proof (induction n rule: nat_str.induct)
  case (1 n)
  show ?case
  proof (cases "n < 10")
    case True
    then show ?thesis by (simp add: nat_str.simps [of n] parse_nat_def)
  next
    case False
    with 1 show ?thesis by (simp add: nat_str.simps [of n] parse_nat_snoc)
  qed
qed

lemma nat_str_digits: "c \<in> set (nat_str n) \<Longrightarrow> is_digit c"
proof (induction n rule: nat_str.induct)
  case (1 n)
  show ?case
  proof (cases "n < 10")
    case True
    with "1.prems" show ?thesis by (simp add: nat_str.simps [of n])
  next
    case False
    with 1 show ?thesis by (auto simp: nat_str.simps [of n])
  qed
qed

lemma nat_str_not_Nil [simp]: "nat_str n \<noteq> []"
  by (subst nat_str.simps) simp

lemma nat_str_inj [simp]: "nat_str m = nat_str n \<longleftrightarrow> m = n"
  by (metis parse_nat_str)

lemma is_digit_not_space: "is_digit c \<Longrightarrow> \<not> is_space c"
  by (auto simp: is_digit_def is_space_def)

lemma trim_nat_str [simp]: "trim (nat_str n) = nat_str n"
  using nat_str_digits is_digit_not_space by (blast intro: trim_no_space)

subsection \<open>Insertion-ordered sets\<close>

definition set_add :: "'a list \<Rightarrow> 'a \<Rightarrow> 'a list" where
  [js_defs]: "set_add s x = (if x \<in> set s then s else s @ [x])"

definition js_set :: "'a list \<Rightarrow> 'a list" where
  [js_defs]: "js_set xs = foldl set_add [] xs"

lemma set_set_add [simp]: "set (set_add s x) = insert x (set s)"
  by (auto simp: set_add_def)

lemma distinct_set_add [simp]: "distinct (set_add s x) \<longleftrightarrow> distinct s"
  by (auto simp: set_add_def)

lemma set_foldl_set_add: "set (foldl set_add s xs) = set s \<union> set xs"
  by (induction xs arbitrary: s) auto

lemma distinct_foldl_set_add: "distinct (foldl set_add s xs) \<longleftrightarrow> distinct s"
  by (induction xs arbitrary: s) auto

lemma set_js_set [simp]: "set (js_set xs) = set xs"
  by (simp add: js_set_def set_foldl_set_add)

lemma distinct_js_set [simp]: "distinct (js_set xs)"
  by (simp add: js_set_def distinct_foldl_set_add)

lemma foldl_set_add_distinct:
  "distinct (s @ xs) \<Longrightarrow> foldl set_add s xs = s @ xs"
  by (induction xs arbitrary: s) (auto simp: set_add_def)

lemma js_set_distinct: "distinct xs \<Longrightarrow> js_set xs = xs"
  by (simp add: js_set_def foldl_set_add_distinct)

lemma js_set_idem [simp]: "js_set (js_set xs) = js_set xs"
  by (simp add: js_set_distinct)

lemma js_set_eq_Nil [simp]: "js_set xs = [] \<longleftrightarrow> xs = []"
  by (metis set_empty set_js_set)

lemma length_js_set: "length (js_set xs) = card (set xs)"
  by (metis distinct_card distinct_js_set set_js_set)

lemma js_set_append_absorb: "set ys \<subseteq> set xs \<Longrightarrow> js_set (xs @ ys) = js_set xs"
proof -
  have "foldl set_add s ys = s" if "set ys \<subseteq> set s" for s :: "'a list"
    using that by (induction ys) (auto simp: set_add_def)
  moreover assume "set ys \<subseteq> set xs"
  ultimately show ?thesis
    by (metis foldl_append js_set_def set_js_set)
qed

subsection \<open>Stable sorting\<close>

fun insert_by :: "('a \<Rightarrow> 'a \<Rightarrow> bool) \<Rightarrow> 'a \<Rightarrow> 'a list \<Rightarrow> 'a list" where
  "insert_by le x [] = [x]"
| "insert_by le x (y # ys) = (if le x y then x # y # ys else y # insert_by le x ys)"

definition sort_by :: "('a \<Rightarrow> 'a \<Rightarrow> bool) \<Rightarrow> 'a list \<Rightarrow> 'a list" where
  [js_defs]: "sort_by le xs = foldr (insert_by le) xs []"

lemma mset_insert_by [simp]: "mset (insert_by le x ys) = add_mset x (mset ys)"
  by (induction ys) auto

lemma mset_sort_by [simp]: "mset (sort_by le xs) = mset xs"
  unfolding sort_by_def by (induction xs) auto

lemma set_sort_by [simp]: "set (sort_by le xs) = set xs"
  by (metis mset_sort_by set_mset_mset)

lemma length_sort_by [simp]: "length (sort_by le xs) = length xs"
  by (metis mset_sort_by size_mset)

lemma distinct_sort_by [simp]: "distinct (sort_by le xs) \<longleftrightarrow> distinct xs"
  by (metis mset_sort_by mset_eq_imp_distinct_iff)

lemma set_insert_by [simp]: "set (insert_by le x ys) = insert x (set ys)"
  by (induction ys) auto

lemma sorted_insert_by:
  assumes "\<And>a b. le a b \<or> le b a" and "\<And>a b c. le a b \<Longrightarrow> le b c \<Longrightarrow> le a c"
  shows "sorted_wrt le ys \<Longrightarrow> sorted_wrt le (insert_by le x ys)"
proof (induction ys)
  case (Cons y ys)
  then show ?case using assms by (auto; blast)
qed simp

lemma sorted_sort_by:
  assumes "\<And>a b. le a b \<or> le b a" and "\<And>a b c. le a b \<Longrightarrow> le b c \<Longrightarrow> le a c"
  shows "sorted_wrt le (sort_by le xs)"
  unfolding sort_by_def
  by (induction xs) (simp_all add: sorted_insert_by assms)

lemma sort_by_sorted: "sorted_wrt le xs \<Longrightarrow> sort_by le xs = xs"
  unfolding sort_by_def
proof (induction xs)
  case (Cons x xs)
  then show ?case by (cases xs) auto
qed simp

subsection \<open>Cutting at a separator\<close>

lemma cut_first_unique:
  "d \<notin> set u \<Longrightarrow> d \<notin> set u' \<Longrightarrow> u @ d # t = u' @ d # t' \<longleftrightarrow> u = u' \<and> t = t'"
proof (induction u arbitrary: u')
  case Nil
  then show ?case by (cases u') auto
next
  case (Cons x u)
  then show ?case by (cases u') auto
qed

lemma cut_last_unique:
  assumes "d \<notin> set n" "d \<notin> set n'"
  shows "u @ d # n = u' @ d # n' \<longleftrightarrow> u = u' \<and> n = n'"
proof -
  have "u @ d # n = u' @ d # n' \<longleftrightarrow> rev n @ d # rev u = rev n' @ d # rev u'"
    by (metis append.assoc append_Cons append_Nil rev.simps(2) rev_append rev_rev_ident)
  also have "\<dots> \<longleftrightarrow> rev n = rev n' \<and> rev u = rev u'"
    using assms by (intro cut_first_unique) simp_all
  finally show ?thesis by auto
qed

subsection \<open>Contracts of normalising functions\<close>

text \<open>A normaliser that keeps a meaning, lands in a set of normal forms and has one normal form
  per meaning: it is idempotent and decides equality of meanings.\<close>

locale canonical_form =
  fixes norm :: "'a \<Rightarrow> 'a" and valid :: "'a \<Rightarrow> bool" and normal :: "'a \<Rightarrow> bool"
    and meaning :: "'a \<Rightarrow> 'b"
  assumes norm_normal: "valid x \<Longrightarrow> normal (norm x)"
    and norm_meaning: "valid x \<Longrightarrow> meaning (norm x) = meaning x"
    and normal_valid: "normal x \<Longrightarrow> valid x"
    and normal_unique: "normal x \<Longrightarrow> normal y \<Longrightarrow> meaning x = meaning y \<Longrightarrow> x = y"
begin

lemma norm_fixed: "normal x \<Longrightarrow> norm x = x"
  by (meson norm_meaning norm_normal normal_unique normal_valid)

lemma norm_idem: "valid x \<Longrightarrow> norm (norm x) = norm x"
  by (simp add: norm_fixed norm_normal)

lemma norm_eq_iff: "valid x \<Longrightarrow> valid y \<Longrightarrow> norm x = norm y \<longleftrightarrow> meaning x = meaning y"
  by (metis norm_meaning norm_normal normal_unique)

end

text \<open>A normaliser known only to be idempotent: its results are its fixed points.\<close>

locale normalizer =
  fixes norm :: "'a \<Rightarrow> 'a"
  assumes idem: "norm (norm x) = norm x"
begin

lemma range_fixed: "(\<exists>y. x = norm y) \<longleftrightarrow> norm x = x"
  by (metis idem)

end

interpretation trim_nf: normalizer trim
  by unfold_locales simp

interpretation lower_nf: normalizer to_lower
  by unfold_locales simp

interpretation set_nf: normalizer js_set
  by unfold_locales simp

text \<open>A map that never exceeds its limit and returns what was put last: the interface of the caches.\<close>

locale bounded_map =
  fixes put_in :: "'k \<Rightarrow> 'v \<Rightarrow> ('k \<times> 'v) list \<Rightarrow> ('k \<times> 'v) list" and limit :: nat
  assumes size_bound: "length m \<le> limit \<Longrightarrow> length (put_in k v m) \<le> limit"
    and keys_distinct: "distinct (map fst m) \<Longrightarrow> distinct (map fst (put_in k v m))"
    and get_set: "map_of (put_in k v m) k = Some v"
    and get_other: "k' \<noteq> k \<Longrightarrow> map_of (put_in k v m) k' = Some u \<Longrightarrow> map_of m k' = Some u"
begin

lemma sets_bound: "length (fold (\<lambda>(k, v). put_in k v) kvs []) \<le> limit"
proof -
  have "length m \<le> limit \<Longrightarrow> length (fold (\<lambda>(k, v). put_in k v) kvs m) \<le> limit" for m
    by (induction kvs arbitrary: m) (auto simp: size_bound)
  then show ?thesis by simp
qed

lemma values_from: "map_of (put_in k v m) k' = Some u \<Longrightarrow> u = v \<and> k' = k \<or> map_of m k' = Some u"
  using get_set get_other by (metis option.inject)

end

end
