(* ===== verification/Js_Value.thy ===== *)
theory Js_Value
  imports Js_Prelude Complex_Main
begin

section \<open>JavaScript values, numbers and objects\<close>

text \<open>
  Values the sources type as \<open>unknown\<close>: the result of \<open>JSON.parse\<close>, form state, query
  parameters.  A finite number is the exact rational its shortest decimal representation
  denotes (the representation \<open>Number.prototype.toString\<close> prints); rounding of double
  arithmetic is not modelled, \<open>NaN\<close> and the infinities are.  The two zeros are one value.

  An object is the list of its own enumerable properties in the order
  \<open>Object.entries\<close> enumerates them: array-index keys first, ascending, then the other
  keys in insertion order.  \<open>obj_set\<close> is the assignment \<open>o[k] = v\<close>.
\<close>

subsection \<open>Numbers\<close>

datatype jsnum = NaN | PosInf | NegInf | Fin rat

fun num_less :: "jsnum \<Rightarrow> jsnum \<Rightarrow> bool" where
  "num_less NaN _ = False"
| "num_less _ NaN = False"
| "num_less (Fin a) (Fin b) = (a < b)"
| "num_less NegInf b = (b \<noteq> NegInf)"
| "num_less a PosInf = (a \<noteq> PosInf)"
| "num_less PosInf _ = False"
| "num_less (Fin _) NegInf = False"

definition num_le :: "jsnum \<Rightarrow> jsnum \<Rightarrow> bool" where
  [js_defs]: "num_le a b \<longleftrightarrow> num_less a b \<or> (a = b \<and> a \<noteq> NaN)"

definition num_is_finite :: "jsnum \<Rightarrow> bool" where
  [js_defs]: "num_is_finite n \<longleftrightarrow> (case n of Fin _ \<Rightarrow> True | _ \<Rightarrow> False)"

definition num_is_integer :: "jsnum \<Rightarrow> bool" where
  [js_defs]: "num_is_integer n \<longleftrightarrow> (case n of Fin r \<Rightarrow> snd (quotient_of r) = 1 | _ \<Rightarrow> False)"

definition num_is_safe_integer :: "jsnum \<Rightarrow> bool" where
  [js_defs]: "num_is_safe_integer n \<longleftrightarrow>
     (case n of Fin r \<Rightarrow> snd (quotient_of r) = 1 \<and> \<bar>r\<bar> \<le> 9007199254740991 | _ \<Rightarrow> False)"

definition num_int :: "jsnum \<Rightarrow> int" where
  [js_defs]: "num_int n = (case n of Fin r \<Rightarrow> \<lfloor>r\<rfloor> | _ \<Rightarrow> 0)"

definition num_truthy :: "jsnum \<Rightarrow> bool" where
  [js_defs]: "num_truthy n \<longleftrightarrow> n \<noteq> NaN \<and> n \<noteq> Fin 0"

text \<open>The digits of a positive number: the least power of ten that clears its denominator
  (every double has one below 1100), then the digits of the scaled numerator.\<close>

fun dec_scale :: "nat \<Rightarrow> nat \<Rightarrow> int \<Rightarrow> nat" where
  "dec_scale 0 d q = d"
| "dec_scale (Suc f) d q = (if 10 ^ d mod q = 0 then d else dec_scale f (Suc d) q)"

definition strip_zeros :: "string \<Rightarrow> string" where
  [js_defs]: "strip_zeros s = rev (dropWhile (\<lambda>c. c = CHR ''0'') (rev s))"

definition pos_num_str :: "rat \<Rightarrow> string" where
  [js_defs]: "pos_num_str r =
     (let (p, q) = quotient_of r;
          d = dec_scale 1100 0 q;
          ds = nat_str (nat (p * 10 ^ d div q));
          n = int (length ds) - int d;
          s = strip_zeros ds;
          k = int (length s)
      in if k \<le> n \<and> n \<le> 21 then s @ replicate (nat (n - k)) (CHR ''0'')
         else if 0 < n \<and> n \<le> 21 then take (nat n) s @ ''.'' @ drop (nat n) s
         else if -6 < n \<and> n \<le> 0 then ''0.'' @ replicate (nat (- n)) (CHR ''0'') @ s
         else (let e = n - 1;
                   m = (if k = 1 then s else take 1 s @ ''.'' @ drop 1 s)
               in m @ ''e'' @ (if e < 0 then ''-'' else ''+'') @ nat_str (nat \<bar>e\<bar>)))"

definition num_str :: "jsnum \<Rightarrow> string" where
  [js_defs]: "num_str n = (case n of
       NaN \<Rightarrow> ''NaN'' | PosInf \<Rightarrow> ''Infinity'' | NegInf \<Rightarrow> ''-Infinity''
     | Fin r \<Rightarrow> (if r = 0 then ''0''
                 else if r < 0 then ''-'' @ pos_num_str (- r) else pos_num_str r))"

subsection \<open>Reading numbers\<close>

definition pow10 :: "int \<Rightarrow> rat" where
  [js_defs]: "pow10 e = (if 0 \<le> e then 10 ^ nat e else 1 / 10 ^ nat (- e))"

definition is_exp_mark :: "char \<Rightarrow> bool" where
  [js_defs]: "is_exp_mark c \<longleftrightarrow> c = CHR ''e'' \<or> c = CHR ''E''"

text \<open>An optional exponent part: its value and the rest of the text.\<close>

fun dec_exponent :: "string \<Rightarrow> int \<times> string" where
  "dec_exponent [] = (0, [])"
| "dec_exponent (c # cs) =
     (if \<not> is_exp_mark c then (0, c # cs)
      else let neg = (cs \<noteq> [] \<and> hd cs = CHR ''-'');
               t = (if cs \<noteq> [] \<and> (hd cs = CHR ''-'' \<or> hd cs = CHR ''+'') then tl cs else cs);
               ds = takeWhile is_digit t
           in if ds = [] then (0, c # cs)
              else ((if neg then - int (parse_nat ds) else int (parse_nat ds)), dropWhile is_digit t))"

text \<open>The longest prefix that is an unsigned decimal literal, with the rest.\<close>

definition dec_prefix :: "string \<Rightarrow> (rat \<times> string) option" where
  [js_defs]: "dec_prefix s =
     (let ip = takeWhile is_digit s;
          r1 = dropWhile is_digit s;
          dot = (r1 \<noteq> [] \<and> hd r1 = CHR ''.'');
          fp = (if dot then takeWhile is_digit (tl r1) else []);
          r2 = (if dot then dropWhile is_digit (tl r1) else r1)
      in if ip = [] \<and> fp = [] then None
         else let (e, rest) = dec_exponent r2
              in Some (rat_of_nat (parse_nat (ip @ fp)) * pow10 (e - int (length fp)), rest))"

definition signed_prefix :: "string \<Rightarrow> (jsnum \<times> string) option" where
  [js_defs]: "signed_prefix s =
     (let neg = (s \<noteq> [] \<and> hd s = CHR ''-'');
          t = (if s \<noteq> [] \<and> (hd s = CHR ''-'' \<or> hd s = CHR ''+'') then tl s else s)
      in if starts_with ''Infinity'' t
         then Some (if neg then NegInf else PosInf, drop 8 t)
         else case dec_prefix t of None \<Rightarrow> None
              | Some (v, rest) \<Rightarrow> Some (Fin (if neg then - v else v), rest))"

definition hex_val :: "char \<Rightarrow> nat option" where
  [js_defs]: "hex_val c =
     (let n = (of_char c :: nat) in
      if 48 \<le> n \<and> n \<le> 57 then Some (n - 48)
      else if 97 \<le> n \<and> n \<le> 102 then Some (n - 87)
      else if 65 \<le> n \<and> n \<le> 70 then Some (n - 55) else None)"

fun radix_digits :: "nat \<Rightarrow> nat \<Rightarrow> string \<Rightarrow> nat option" where
  "radix_digits b a [] = Some a"
| "radix_digits b a (c # cs) =
     (case hex_val c of None \<Rightarrow> None
      | Some v \<Rightarrow> if v < b then radix_digits b (a * b + v) cs else None)"

definition radix_of :: "string \<Rightarrow> nat option" where
  [js_defs]: "radix_of s =
     (if length s > 2 \<and> hd s = CHR ''0'' then
        (let c = s ! 1 in
         if c = CHR ''x'' \<or> c = CHR ''X'' then Some 16
         else if c = CHR ''o'' \<or> c = CHR ''O'' then Some 8
         else if c = CHR ''b'' \<or> c = CHR ''B'' then Some 2 else None)
      else None)"

definition str_to_num :: "string \<Rightarrow> jsnum" where
  [js_defs]: "str_to_num s0 =
     (let s = trim s0 in
      if s = [] then Fin 0
      else case radix_of s of
        Some b \<Rightarrow> (case radix_digits b 0 (drop 2 s) of None \<Rightarrow> NaN | Some v \<Rightarrow> Fin (rat_of_nat v))
      | None \<Rightarrow> (case signed_prefix s of
            Some (v, []) \<Rightarrow> v
          | _ \<Rightarrow> NaN))"

definition parse_float :: "string \<Rightarrow> jsnum" where
  [js_defs]: "parse_float s = (case signed_prefix (dropWhile is_space s) of
       None \<Rightarrow> NaN | Some (v, _) \<Rightarrow> v)"

subsection \<open>Values\<close>

datatype jsval =
    JUndef
  | JNull
  | JBool bool
  | JNum jsnum
  | JStr string
  | JArr "jsval list"
  | JObj "(string \<times> jsval) list"

type_synonym 'v jsobj = "(string \<times> 'v) list"

fun truthy :: "jsval \<Rightarrow> bool" where
  "truthy JUndef = False"
| "truthy JNull = False"
| "truthy (JBool b) = b"
| "truthy (JNum n) = num_truthy n"
| "truthy (JStr s) = (s \<noteq> [])"
| "truthy (JArr _) = True"
| "truthy (JObj _) = True"

definition nullish :: "jsval \<Rightarrow> bool" where
  [js_defs]: "nullish v \<longleftrightarrow> v = JUndef \<or> v = JNull"

fun to_str :: "jsval \<Rightarrow> string" where
  "to_str JUndef = ''undefined''"
| "to_str JNull = ''null''"
| "to_str (JBool b) = (if b then ''true'' else ''false'')"
| "to_str (JNum n) = num_str n"
| "to_str (JStr s) = s"
| "to_str (JArr vs) =
     join '','' (map (\<lambda>v. case v of JUndef \<Rightarrow> [] | JNull \<Rightarrow> [] | _ \<Rightarrow> to_str v) vs)"
| "to_str (JObj _) = ''[object Object]''"

fun to_number :: "jsval \<Rightarrow> jsnum" where
  "to_number JUndef = NaN"
| "to_number JNull = Fin 0"
| "to_number (JBool b) = Fin (if b then 1 else 0)"
| "to_number (JNum n) = n"
| "to_number (JStr s) = str_to_num s"
| "to_number (JArr vs) = str_to_num (to_str (JArr vs))"
| "to_number (JObj _) = NaN"

fun is_arr :: "jsval \<Rightarrow> bool" where
  "is_arr (JArr _) = True"
| "is_arr _ = False"

fun is_obj :: "jsval \<Rightarrow> bool" where
  "is_obj (JObj _) = True"
| "is_obj _ = False"

fun is_str :: "jsval \<Rightarrow> bool" where
  "is_str (JStr _) = True"
| "is_str _ = False"

subsection \<open>Objects\<close>

definition index_key :: "string \<Rightarrow> bool" where
  [js_defs]: "index_key k \<longleftrightarrow> k \<noteq> [] \<and> list_all is_digit k \<and>
     (hd k \<noteq> CHR ''0'' \<or> k = ''0'') \<and> parse_nat k < 4294967295"

definition key_before :: "string \<Rightarrow> string \<Rightarrow> bool" where
  [js_defs]: "key_before k k' \<longleftrightarrow> index_key k \<and> (index_key k' \<longrightarrow> parse_nat k < parse_nat k')"

fun obj_set :: "string \<Rightarrow> 'v \<Rightarrow> 'v jsobj \<Rightarrow> 'v jsobj" where
  "obj_set k v [] = [(k, v)]"
| "obj_set k v ((k', v') # ps) =
     (if k = k' then (k, v) # ps
      else if key_before k k' then (k, v) # (k', v') # ps
      else (k', v') # obj_set k v ps)"

definition obj_of :: "(string \<times> 'v) list \<Rightarrow> 'v jsobj" where
  [js_defs]: "obj_of ps = foldl (\<lambda>ob (k, v). obj_set k v ob) [] ps"

definition obj_get :: "jsval jsobj \<Rightarrow> string \<Rightarrow> jsval" where
  [js_defs]: "obj_get ob k = (case map_of ob k of None \<Rightarrow> JUndef | Some v \<Rightarrow> v)"

text \<open>Reading a property of a value that is neither null nor undefined; numbers, booleans
  and strings have none of the properties the sources read.\<close>

fun get_prop :: "jsval \<Rightarrow> string \<Rightarrow> jsval" where
  "get_prop (JObj ob) k = obj_get ob k"
| "get_prop _ k = JUndef"

text \<open>The own enumerable properties, as \<open>Object.entries\<close> lists them for the values it
  accepts; it throws on null and undefined.\<close>

fun enum_from :: "nat \<Rightarrow> 'a list \<Rightarrow> (string \<times> 'a) list" where
  "enum_from i [] = []"
| "enum_from i (x # xs) = (nat_str i, x) # enum_from (Suc i) xs"

fun js_entries :: "jsval \<Rightarrow> (string \<times> jsval) list option" where
  "js_entries JUndef = None"
| "js_entries JNull = None"
| "js_entries (JObj ob) = Some ob"
| "js_entries (JArr vs) = Some (enum_from 0 vs)"
| "js_entries (JStr s) = Some (enum_from 0 (map (\<lambda>c. JStr [c]) s))"
| "js_entries _ = Some []"

lemma map_of_obj_set [simp]: "map_of (obj_set k v ob) = (map_of ob)(k \<mapsto> v)"
  by (induction k v ob rule: obj_set.induct) (auto simp: fun_eq_iff)

lemma keys_obj_set: "set (map fst (obj_set k v ob)) = insert k (set (map fst ob))"
  by (induction k v ob rule: obj_set.induct) auto

lemma vals_obj_set: "snd ` set (obj_set k v ob) \<subseteq> insert v (snd ` set ob)"
  by (induction k v ob rule: obj_set.induct) auto

text \<open>Objects built by assignment keep the enumeration order, hence have no key twice.\<close>

definition wf_obj :: "'v jsobj \<Rightarrow> bool" where
  "wf_obj ob \<longleftrightarrow> distinct (map fst ob) \<and>
     sorted_wrt (\<lambda>a b. \<not> key_before b a) (map fst ob)"

lemma key_before_trans_not: "key_before k a \<Longrightarrow> \<not> key_before b a \<Longrightarrow> k \<noteq> b"
  by (auto simp: key_before_def)

lemma key_before_asym: "key_before a b \<Longrightarrow> \<not> key_before b a"
  by (auto simp: key_before_def)

lemma key_before_mono: "key_before k a \<Longrightarrow> \<not> key_before b a \<Longrightarrow> \<not> key_before b k"
  by (auto simp: key_before_def)

lemma wf_obj_Nil [simp]: "wf_obj []"
  by (simp add: wf_obj_def)

lemma wf_obj_set: "wf_obj ob \<Longrightarrow> wf_obj (obj_set k v ob)"
proof (induction k v ob rule: obj_set.induct)
  case (2 k v k' v' ps)
  have tl: "wf_obj ps" and nb: "\<forall>b \<in> set (map fst ps). \<not> key_before b k'"
    and ni: "k' \<notin> set (map fst ps)"
    using "2.prems" by (auto simp: wf_obj_def)
  show ?case
  proof (cases "k = k'")
    case True
    with "2.prems" show ?thesis by (simp add: wf_obj_def)
  next
    case ne: False
    show ?thesis
    proof (cases "key_before k k'")
      case True
      then have "k \<notin> set (map fst ps)"
        using nb key_before_trans_not by blast
      moreover have "\<forall>b \<in> set (map fst ps). \<not> key_before b k"
        using True nb key_before_mono by blast
      ultimately show ?thesis
        using True ne "2.prems" key_before_asym [OF True] by (auto simp: wf_obj_def)
    next
      case False
      then have "wf_obj (obj_set k v ps)" using "2.IH" ne tl by blast
      moreover have "\<forall>b \<in> set (map fst (obj_set k v ps)). \<not> key_before b k'"
        using nb False by (auto simp: keys_obj_set simp del: set_map)
      moreover have "k' \<notin> set (map fst (obj_set k v ps))"
        using ni ne by (auto simp: keys_obj_set simp del: set_map)
      ultimately show ?thesis using ne False by (auto simp: wf_obj_def)
    qed
  qed
qed (simp add: wf_obj_def)

lemma wf_obj_of: "wf_obj (obj_of ps)"
proof -
  have "wf_obj ob \<Longrightarrow> wf_obj (foldl (\<lambda>ob (k, v). obj_set k v ob) ob ps)" for ob :: "'a jsobj"
    by (induction ps arbitrary: ob) (auto simp: wf_obj_set)
  then show ?thesis by (simp add: obj_of_def)
qed

lemma obj_get_set [simp]: "obj_get (obj_set k v ob) k' = (if k' = k then v else obj_get ob k')"
  by (simp add: obj_get_def)

lemma obj_set_same: "map_of ob k = Some v \<Longrightarrow> wf_obj ob \<Longrightarrow> obj_set k v ob = ob"
proof (induction k v ob rule: obj_set.induct)
  case (2 k v k' v' ps)
  show ?case
  proof (cases "k = k'")
    case True
    with 2 show ?thesis by simp
  next
    case False
    with "2.prems" have m: "map_of ps k = Some v" by simp
    then have "k \<in> set (map fst ps)" by (metis map_of_SomeD image_eqI list.set_map fst_conv)
    with "2.prems"(2) have "\<not> key_before k k'" by (auto simp: wf_obj_def)
    with False 2 m show ?thesis by (auto simp: wf_obj_def)
  qed
qed simp

end
