(* ===== verification/Js_Json.thy ===== *)
theory Js_Json
  imports Js_Value
begin

section \<open>JSON.parse and JSON.stringify\<close>

text \<open>
  \<open>json_parse\<close> is \<open>JSON.parse\<close>: \<open>None\<close> stands for the \<open>SyntaxError\<close> it throws.  It is a
  recursive-descent parser with fuel; \<open>2 * length s + 2\<close> units are enough, since every
  call but the first has consumed a character (\<open>json_roundtrip\<close> exercises that bound on every
  printed text).  A \<open>\u\<close> escape denotes a code unit of the modelled range only up to
  255; beyond it the text has no value in the model.

  \<open>json_stringify\<close> is \<open>JSON.stringify\<close> without indentation on a value other than
  \<open>undefined\<close>: properties holding \<open>undefined\<close> are left out, numbers that are not finite
  print as \<open>null\<close>.  \<open>json_roundtrip\<close> shows that parsing inverts printing on the values the
  sources store, and the locale \<open>codec\<close> is the contract components use.
\<close>

subsection \<open>String literals\<close>

definition json_ws :: "char \<Rightarrow> bool" where
  [js_defs]: "json_ws c \<longleftrightarrow> c = CHR '' '' \<or> c = CHR 0x09 \<or> c = CHR 0x0A \<or> c = CHR 0x0D"

definition skip_ws :: "string \<Rightarrow> string" where
  [js_defs]: "skip_ws s = dropWhile json_ws s"

definition simple_escape :: "char \<Rightarrow> char option" where
  [js_defs]: "simple_escape e =
     (if e = CHR 0x22 then Some (CHR 0x22) else if e = CHR 0x5C then Some (CHR 0x5C)
      else if e = CHR ''/'' then Some (CHR ''/'') else if e = CHR ''b'' then Some (CHR 0x08)
      else if e = CHR ''f'' then Some (CHR 0x0C) else if e = CHR ''n'' then Some (CHR 0x0A)
      else if e = CHR ''r'' then Some (CHR 0x0D) else if e = CHR ''t'' then Some (CHR 0x09)
      else None)"

definition hex4 :: "char \<Rightarrow> char \<Rightarrow> char \<Rightarrow> char \<Rightarrow> nat option" where
  [js_defs]: "hex4 a b c d = radix_digits 16 0 [a, b, c, d]"

fun json_str_rest :: "string \<Rightarrow> (string \<times> string) option" where
  "json_str_rest [] = None"
| "json_str_rest (c # cs) =
     (if c = CHR 0x22 then Some ([], cs)
      else if c = CHR 0x5C then
        (case cs of [] \<Rightarrow> None
         | e # ds \<Rightarrow>
            (if e = CHR ''u'' then
               (case ds of
                  a # b # x # y # rest \<Rightarrow>
                    (case hex4 a b x y of
                       None \<Rightarrow> None
                     | Some n \<Rightarrow> if n < 256
                         then map_option (apfst ((#) (char_of n))) (json_str_rest rest) else None)
                | _ \<Rightarrow> None)
             else case simple_escape e of
                 None \<Rightarrow> None
               | Some x \<Rightarrow> map_option (apfst ((#) x)) (json_str_rest ds)))
      else if (of_char c :: nat) < 32 then None
      else map_option (apfst ((#) c)) (json_str_rest cs))"

definition hex_chr :: "nat \<Rightarrow> char" where
  [js_defs]: "hex_chr n = (if n < 10 then char_of (48 + n) else char_of (87 + n))"

definition json_esc :: "char \<Rightarrow> string" where
  [js_defs]: "json_esc c =
     (if c = CHR 0x22 then [CHR 0x5C, CHR 0x22] else if c = CHR 0x5C then [CHR 0x5C, CHR 0x5C]
      else if c = CHR 0x08 then [CHR 0x5C, CHR ''b''] else if c = CHR 0x0C then [CHR 0x5C, CHR ''f'']
      else if c = CHR 0x0A then [CHR 0x5C, CHR ''n''] else if c = CHR 0x0D then [CHR 0x5C, CHR ''r'']
      else if c = CHR 0x09 then [CHR 0x5C, CHR ''t'']
      else if (of_char c :: nat) < 32
        then [CHR 0x5C, CHR ''u'', CHR ''0'', CHR ''0'',
              hex_chr (of_char c div 16), hex_chr (of_char c mod 16)]
      else [c])"

definition json_quote :: "string \<Rightarrow> string" where
  [js_defs]: "json_quote s = [CHR 0x22] @ concat (map json_esc s) @ [CHR 0x22]"

lemma hex_val_chr: "n < 16 \<Longrightarrow> hex_val (hex_chr n) = Some n"
  by (auto simp: hex_val_def hex_chr_def Let_def take_bit_eq_mod)

lemma hex4_esc:
  assumes "(of_char c :: nat) < 32"
  shows "hex4 (CHR ''0'') (CHR ''0'') (hex_chr (of_char c div 16)) (hex_chr (of_char c mod 16))
    = Some (of_char c)"
proof -
  have z: "hex_val (CHR ''0'') = Some 0" by (simp add: hex_val_def)
  have d: "hex_val (hex_chr (of_char c div 16)) = Some (of_char c div 16)"
    using assms by (intro hex_val_chr) simp
  have m: "hex_val (hex_chr (of_char c mod 16)) = Some (of_char c mod 16)"
    by (intro hex_val_chr) simp
  show ?thesis
    using assms by (simp add: hex4_def z d m div_mult_mod_eq mult.commute)
qed

lemma json_str_rest_esc:
  "json_str_rest (json_esc c @ t) = map_option (apfst ((#) c)) (json_str_rest t)"
proof (cases "c = CHR 0x22 \<or> c = CHR 0x5C \<or> c = CHR 0x08 \<or> c = CHR 0x0C \<or> c = CHR 0x0A \<or>
    c = CHR 0x0D \<or> c = CHR 0x09")
  case True
  then show ?thesis by (auto simp: json_esc_def simple_escape_def)
next
  case False
  show ?thesis
  proof (cases "(of_char c :: nat) < 32")
    case True
    with False show ?thesis
      by (auto simp: json_esc_def hex4_esc)
  next
    case ge: False
    with False show ?thesis by (simp add: json_esc_def)
  qed
qed

lemma json_str_rest_quote:
  "json_str_rest (concat (map json_esc s) @ CHR 0x22 # t) = Some (s, t)"
  by (induction s) (simp_all add: json_str_rest_esc del: json_str_rest.simps(2),
      simp add: json_str_rest.simps)

subsection \<open>Number literals\<close>

definition json_num :: "string \<Rightarrow> (jsval \<times> string) option" where
  [js_defs]: "json_num s =
     (let neg = (s \<noteq> [] \<and> hd s = CHR ''-'');
          t = (if neg then tl s else s);
          ip = takeWhile is_digit t;
          r1 = dropWhile is_digit t;
          dot = (r1 \<noteq> [] \<and> hd r1 = CHR ''.'');
          fp = (if dot then takeWhile is_digit (tl r1) else []);
          r2 = (if dot then dropWhile is_digit (tl r1) else r1);
          (e, rest) = dec_exponent r2;
          v = rat_of_nat (parse_nat (ip @ fp)) * pow10 (e - int (length fp))
      in if ip = [] \<or> (hd ip = CHR ''0'' \<and> length ip > 1) \<or> (dot \<and> fp = []) \<or>
            (rest = r2 \<and> r2 \<noteq> [] \<and> is_exp_mark (hd r2))
         then None else Some (JNum (Fin (if neg then - v else v)), rest))"

subsection \<open>Values\<close>

fun json_val :: "nat \<Rightarrow> string \<Rightarrow> (jsval \<times> string) option"
and json_elems :: "nat \<Rightarrow> string \<Rightarrow> (jsval list \<times> string) option"
and json_members :: "nat \<Rightarrow> string \<Rightarrow> ((string \<times> jsval) list \<times> string) option" where
  "json_val 0 s0 = None"
| "json_val (Suc f) s0 =
     (let s = skip_ws s0 in
      case s of [] \<Rightarrow> None
      | c # cs \<Rightarrow>
         if c = CHR 0x22 then map_option (apfst JStr) (json_str_rest cs)
         else if c = CHR ''['' then
           (let t = skip_ws cs in
            if t \<noteq> [] \<and> hd t = CHR '']'' then Some (JArr [], tl t)
            else map_option (apfst JArr) (json_elems f cs))
         else if c = CHR ''{'' then
           (let t = skip_ws cs in
            if t \<noteq> [] \<and> hd t = CHR ''}'' then Some (JObj [], tl t)
            else map_option (apfst (\<lambda>ps. JObj (obj_of ps))) (json_members f cs))
         else if starts_with ''true'' s then Some (JBool True, drop 4 s)
         else if starts_with ''false'' s then Some (JBool False, drop 5 s)
         else if starts_with ''null'' s then Some (JNull, drop 4 s)
         else json_num s)"
| "json_elems 0 s = None"
| "json_elems (Suc f) s =
     (case json_val f s of
        None \<Rightarrow> None
      | Some (v, r) \<Rightarrow>
         (case skip_ws r of [] \<Rightarrow> None
          | c # cs \<Rightarrow>
             if c = CHR '']'' then Some ([v], cs)
             else if c = CHR '','' then map_option (apfst ((#) v)) (json_elems f cs)
             else None))"
| "json_members 0 s = None"
| "json_members (Suc f) s =
     (case skip_ws s of [] \<Rightarrow> None
      | q # qs \<Rightarrow>
        if q \<noteq> CHR 0x22 then None
        else case json_str_rest qs of
          None \<Rightarrow> None
        | Some (k, r) \<Rightarrow>
           (case skip_ws r of [] \<Rightarrow> None
            | c # cs \<Rightarrow>
              if c \<noteq> CHR '':'' then None
              else case json_val f cs of
                None \<Rightarrow> None
              | Some (v, r') \<Rightarrow>
                 (case skip_ws r' of [] \<Rightarrow> None
                  | d # ds \<Rightarrow>
                     if d = CHR ''}'' then Some ([(k, v)], ds)
                     else if d = CHR '','' then map_option (apfst ((#) (k, v))) (json_members f ds)
                     else None)))"

definition json_parse :: "string \<Rightarrow> jsval option" where
  [js_defs]: "json_parse s =
     (case json_val (2 * length s + 2) s of
        None \<Rightarrow> None
      | Some (v, r) \<Rightarrow> if skip_ws r = [] then Some v else None)"

fun json_stringify :: "jsval \<Rightarrow> string" where
  "json_stringify JUndef = ''null''"
| "json_stringify JNull = ''null''"
| "json_stringify (JBool b) = (if b then ''true'' else ''false'')"
| "json_stringify (JNum n) = (if num_is_finite n then num_str n else ''null'')"
| "json_stringify (JStr s) = json_quote s"
| "json_stringify (JArr vs) = ''['' @ join '','' (map json_stringify vs) @ '']''"
| "json_stringify (JObj ob) =
     ''{'' @ join '','' (map (\<lambda>(k, v). json_quote k @ '':'' @ json_stringify v)
        (filter (\<lambda>(k, v). v \<noteq> JUndef) ob)) @ ''}''"

subsection \<open>Printing and reading back\<close>

text \<open>The values the round trip covers: no \<open>undefined\<close> inside, numbers that are integers below
  \<open>10 ^ 21\<close> (printed without an exponent), objects in enumeration order.\<close>

definition json_int :: "jsnum \<Rightarrow> bool" where
  "json_int n \<longleftrightarrow> (\<exists>i. n = Fin (rat_of_int i) \<and> \<bar>i\<bar> < 10 ^ 21)"

fun json_ok :: "jsval \<Rightarrow> bool" where
  "json_ok JUndef = False"
| "json_ok JNull = True"
| "json_ok (JBool b) = True"
| "json_ok (JNum n) = json_int n"
| "json_ok (JStr s) = True"
| "json_ok (JArr vs) = list_all json_ok vs"
| "json_ok (JObj ob) = (wf_obj ob \<and> list_all (\<lambda>(k, v). json_ok v) ob)"

definition json_delim :: "string \<Rightarrow> bool" where
  "json_delim t \<longleftrightarrow> t = [] \<or> hd t = CHR '','' \<or> hd t = CHR '']'' \<or> hd t = CHR ''}''"

lemma strip_zeros_replicate:
  "strip_zeros s @ replicate (length s - length (strip_zeros s)) (CHR ''0'') = s"
proof -
  let ?z = "\<lambda>c. c = CHR ''0''"
  have "rev s = takeWhile ?z (rev s) @ dropWhile ?z (rev s)" by simp
  then have eq: "s = strip_zeros s @ rev (takeWhile ?z (rev s))"
    unfolding strip_zeros_def by (metis rev_append rev_rev_ident)
  have rep: "xs = replicate (length xs) (CHR ''0'')" if "\<forall>c \<in> set xs. c = CHR ''0''" for xs
    using that by (induction xs) auto
  have "\<forall>c \<in> set (rev (takeWhile ?z (rev s))). c = CHR ''0''"
    by (auto dest: set_takeWhileD)
  then have "rev (takeWhile ?z (rev s))
      = replicate (length (rev (takeWhile ?z (rev s)))) (CHR ''0'')" by (rule rep)
  moreover have "length (rev (takeWhile ?z (rev s))) = length s - length (strip_zeros s)"
    using arg_cong [OF eq, of length] by simp
  ultimately show ?thesis using eq by simp
qed

lemma length_nat_str: "n < 10 ^ Suc k \<Longrightarrow> length (nat_str n) \<le> Suc k"
proof (induction k arbitrary: n)
  case 0
  then show ?case by (simp add: nat_str.simps)
next
  case (Suc k)
  from Suc.prems have "n div 10 < 10 ^ Suc k"
    by (simp add: less_mult_imp_div_less mult.commute)
  with Suc.IH have "length (nat_str (n div 10)) \<le> Suc k" by blast
  then show ?case by (subst nat_str.simps) simp
qed

lemma length_strip_zeros: "length (strip_zeros s) \<le> length s"
  by (metis length_append le_add1 strip_zeros_replicate)

lemma pos_num_str_nat:
  assumes "n < 10 ^ 21"
  shows "pos_num_str (rat_of_nat n) = nat_str n"
proof -
  have q: "quotient_of (rat_of_nat n) = (int n, 1)"
    by (simp add: quotient_of_Fract normalize_def flip: Fract_of_nat_eq)
  have s: "dec_scale 1100 0 1 = 0"
    by (simp add: numeral_eq_Suc)
  have "n < 10 ^ Suc 20" using assms by simp
  then have "length (nat_str n) \<le> 21" using length_nat_str by fastforce
  then show ?thesis
    unfolding pos_num_str_def
    using length_strip_zeros [of "nat_str n"] strip_zeros_replicate [of "nat_str n"]
    by (simp add: q s Let_def nat_diff_distrib flip: of_nat_diff)
qed

lemma digit_chr_0: "digit_chr 0 = CHR ''0''"
  by code_simp

lemma num_str_int:
  assumes "\<bar>i\<bar> < 10 ^ 21"
  shows "num_str (Fin (rat_of_int i)) = int_str i"
proof -
  consider "i = 0" | "i > 0" | "i < 0" by linarith
  then show ?thesis
  proof cases
    case 1
    then show ?thesis by (simp add: num_str_def int_str_def nat_str.simps digit_chr_0)
  next
    case 2
    then have "rat_of_int i = rat_of_nat (nat i)" by simp
    moreover have "nat i < 10 ^ 21" using assms 2 by (simp add: nat_less_iff)
    ultimately have "pos_num_str (rat_of_int i) = nat_str (nat i)"
      by (metis pos_num_str_nat)
    with 2 show ?thesis by (simp add: num_str_def int_str_def)
  next
    case 3
    then have "- rat_of_int i = rat_of_nat (nat (- i))" by simp
    moreover have "nat (- i) < 10 ^ 21" using assms 3 by (simp add: nat_less_iff)
    ultimately have "pos_num_str (- rat_of_int i) = nat_str (nat (- i))"
      by (metis pos_num_str_nat)
    with 3 show ?thesis by (simp add: num_str_def int_str_def)
  qed
qed

lemma hd_nat_str: "0 < n \<Longrightarrow> hd (nat_str n) \<noteq> CHR ''0''"
proof (induction n rule: nat_str.induct)
  case (1 n)
  show ?case
  proof (cases "n < 10")
    case True
    have "digit_chr n \<noteq> CHR ''0''"
    proof
      assume "digit_chr n = CHR ''0''"
      then have "(of_char (digit_chr n) :: nat) = of_char (CHR ''0'')" by simp
      then show False using True "1.prems" by (simp add: of_digit_chr)
    qed
    with True show ?thesis by (simp add: nat_str.simps [of n])
  next
    case False
    with 1 show ?thesis by (simp add: nat_str.simps [of n])
  qed
qed

lemma length_nat_str_gt1: "hd (nat_str n) = CHR ''0'' \<Longrightarrow> length (nat_str n) = 1"
proof -
  assume "hd (nat_str n) = CHR ''0''"
  then have "n = 0" using hd_nat_str by auto
  then show ?thesis by (simp add: nat_str.simps)
qed

lemma takeWhile_digits:
  assumes "\<forall>c \<in> set ds. is_digit c" "t = [] \<or> \<not> is_digit (hd t)"
  shows "takeWhile is_digit (ds @ t) = ds" "dropWhile is_digit (ds @ t) = t"
  using assms by (induction ds) (auto simp: dropWhile_id takeWhile_eq_Nil_iff)

lemma json_delim_facts:
  assumes "json_delim t"
  shows "t = [] \<or> \<not> is_digit (hd t)" "t = [] \<or> hd t \<noteq> CHR ''.''"
    "t = [] \<or> \<not> is_exp_mark (hd t)" "skip_ws t = t"
  using assms by (cases t; auto simp: json_delim_def is_digit_def is_exp_mark_def skip_ws_def json_ws_def)+

lemma json_num_nat:
  assumes "json_delim t"
  shows "json_num (nat_str n @ t) = Some (JNum (Fin (rat_of_nat n)), t)"
    and "json_num (CHR ''-'' # nat_str n @ t) = Some (JNum (Fin (- rat_of_nat n)), t)"
proof -
  have dig: "\<forall>c \<in> set (nat_str n). is_digit c" using nat_str_digits by blast
  have hd0: "is_digit (hd (nat_str n))" using dig by simp
  then have nm: "hd (nat_str n) \<noteq> CHR ''-''" by (auto simp: is_digit_def)
  have ex: "dec_exponent t = (0, t)"
    using json_delim_facts(3) [OF assms] by (cases t) auto
  note f = takeWhile_digits [OF dig json_delim_facts(1) [OF assms]]
  have "\<not> (hd (nat_str n) = CHR ''0'' \<and> length (nat_str n) > 1)"
    using length_nat_str_gt1 by fastforce
  then show "json_num (nat_str n @ t) = Some (JNum (Fin (rat_of_nat n)), t)"
    and "json_num (CHR ''-'' # nat_str n @ t) = Some (JNum (Fin (- rat_of_nat n)), t)"
    using json_delim_facts(2,3) [OF assms] nm dig
    by (auto simp: json_num_def f ex pow10_def Let_def)
qed

lemma json_num_int_str:
  assumes "json_delim t"
  shows "json_num (int_str i @ t) = Some (JNum (Fin (rat_of_int i)), t)"
proof (cases "i < 0")
  case True
  then have "- rat_of_nat (nat (- i)) = rat_of_int i" by simp
  with True show ?thesis using json_num_nat(2) [OF assms, of "nat (- i)"]
    by (simp add: int_str_def)
next
  case False
  then have "rat_of_nat (nat i) = rat_of_int i" by simp
  with False show ?thesis using json_num_nat(1) [OF assms, of "nat i"]
    by (simp add: int_str_def)
qed

lemma int_str_first:
  obtains c cs where "int_str i = c # cs" and "c = CHR ''-'' \<or> is_digit c"
proof (cases "i < 0")
  case True
  then show ?thesis using that by (simp add: int_str_def)
next
  case False
  have "is_digit (hd (nat_str (nat i)))" by (rule nat_str_digits [OF hd_in_set]) simp
  with False that [of "hd (nat_str (nat i))" "tl (nat_str (nat i))"] show ?thesis
    by (simp add: int_str_def)
qed

lemma starts_with_hd: "starts_with (p # ps) (c # cs) \<Longrightarrow> c = p"
  by (auto simp: starts_with_iff)

lemma json_val_int:
  assumes "json_delim t"
  shows "json_val (Suc f) (int_str i @ t) = Some (JNum (Fin (rat_of_int i)), t)"
proof -
  obtain c cs where c: "int_str i = c # cs" "c = CHR ''-'' \<or> is_digit c"
    by (rule int_str_first)
  have "\<not> json_ws c" "c \<noteq> CHR 0x22" "c \<noteq> CHR ''[''" "c \<noteq> CHR ''{''"
    "c \<noteq> CHR ''t''" "c \<noteq> CHR ''f''" "c \<noteq> CHR ''n''"
    using c(2) by (auto simp: json_ws_def is_digit_def)
  then show ?thesis
    using json_num_int_str [OF assms, of i] c(1)
    by (auto simp: skip_ws_def Let_def dest: starts_with_hd)
qed

lemma json_int_str:
  assumes "json_int n"
  obtains i where "n = Fin (rat_of_int i)" and "json_stringify (JNum n) = int_str i"
  using assms by (auto simp: json_int_def num_is_finite_def num_str_int)

lemma json_ok_not_Nil: "json_ok v \<Longrightarrow> 0 < length (json_stringify v)"
proof (cases v)
  case (JNum n)
  assume "json_ok v"
  with JNum obtain i where "json_stringify v = int_str i"
    by (auto elim: json_int_str)
  then show ?thesis by (auto intro: int_str_first [of i])
qed (auto simp: json_quote_def)

text \<open>A comma-separated, closed list of printed items is read back item by item.\<close>

lemma length_join_ge:
  "length (join sep (x # xs)) \<ge> length x" "xs \<noteq> [] \<Longrightarrow>
   length (join sep (x # xs)) = length x + length sep + length (join sep xs)"
  by (cases xs; simp)+

lemma json_elems_print:
  assumes "vs \<noteq> []"
    and "\<And>v f t. v \<in> set vs \<Longrightarrow> json_delim t \<Longrightarrow> length (json_stringify v) < f \<Longrightarrow>
      json_val f (json_stringify v @ t) = Some (v, t)"
    and "length (join '','' (map json_stringify vs)) + 1 < f"
  shows "json_elems f (join '','' (map json_stringify vs) @ CHR '']'' # t) = Some (vs, t)"
  using assms
proof (induction vs arbitrary: f)
  case (Cons v vs)
  then obtain g where f: "f = Suc g" by (cases f) auto
  note len = length_join_ge [where x = "json_stringify v" and xs = "map json_stringify vs" and sep = "'',''"]
  show ?case
  proof (cases "vs = []")
    case True
    have "json_delim (CHR '']'' # t)" by (simp add: json_delim_def)
    with Cons.prems True f show ?thesis
      by (simp add: skip_ws_def json_ws_def)
  next
    case False
    let ?r = "join '','' (map json_stringify vs) @ CHR '']'' # t"
    have "json_delim (CHR '','' # ?r)" by (simp add: json_delim_def)
    then have "json_val g (json_stringify v @ CHR '','' # ?r) = Some (v, CHR '','' # ?r)"
      using Cons.prems(2,3) len(1) f by auto
    moreover have "json_elems g ?r = Some (vs, t)"
      using Cons.prems len(2) f False by (intro Cons.IH) auto
    ultimately show ?thesis
      using f False by (simp add: join_Cons skip_ws_def json_ws_def)
  qed
qed simp

lemma json_members_print:
  assumes "ob \<noteq> []"
    and "\<And>k v f t. (k, v) \<in> set ob \<Longrightarrow> json_delim t \<Longrightarrow> length (json_stringify v) < f \<Longrightarrow>
      json_val f (json_stringify v @ t) = Some (v, t)"
    and "length (join '','' (map (\<lambda>(k, v). json_quote k @ '':'' @ json_stringify v) ob)) + 1 < f"
  shows "json_members f
      (join '','' (map (\<lambda>(k, v). json_quote k @ '':'' @ json_stringify v) ob) @ CHR ''}'' # t)
    = Some (ob, t)"
  using assms
proof (induction ob arbitrary: f)
  case (Cons kv ob)
  obtain k v where kv: "kv = (k, v)" by fastforce
  from Cons.prems obtain g where f: "f = Suc g" by (cases f) auto
  let ?pr = "\<lambda>(k, v). json_quote k @ '':'' @ json_stringify v"
  note len = length_join_ge [where x = "?pr kv" and xs = "map ?pr ob" and sep = "'',''"]
  have str: "json_str_rest (concat (map json_esc k) @ CHR 0x22 # u) = Some (k, u)" for u
    by (rule json_str_rest_quote)
  show ?case
  proof (cases "ob = []")
    case True
    have "json_delim (CHR ''}'' # t)" by (simp add: json_delim_def)
    then have "json_val g (json_stringify v @ CHR ''}'' # t) = Some (v, CHR ''}'' # t)"
      using Cons.prems(2) [of k v _ g] Cons.prems(3) True f kv by auto
    with True f kv show ?thesis
      by (simp add: json_quote_def str skip_ws_def json_ws_def)
  next
    case False
    let ?r = "join '','' (map ?pr ob) @ CHR ''}'' # t"
    have "json_delim (CHR '','' # ?r)" by (simp add: json_delim_def)
    then have "json_val g (json_stringify v @ CHR '','' # ?r) = Some (v, CHR '','' # ?r)"
      using Cons.prems(2) [of k v _ g] Cons.prems(3) len(1) f kv by auto
    moreover have "json_members g ?r = Some (ob, t)"
      using Cons.prems len(2) f False by (intro Cons.IH) auto
    ultimately show ?thesis
      using f kv False by (simp add: join_Cons json_quote_def str skip_ws_def json_ws_def)
  qed
qed simp

lemma obj_set_append:
  "k \<notin> set (map fst ob) \<Longrightarrow> \<forall>a \<in> set (map fst ob). \<not> key_before k a \<Longrightarrow>
    obj_set k v ob = ob @ [(k, v)]"
  by (induction k v ob rule: obj_set.induct) auto

lemma obj_of_wf: "wf_obj ob \<Longrightarrow> obj_of ob = ob"
proof -
  have "wf_obj (acc @ ob) \<Longrightarrow> foldl (\<lambda>ob (k, v). obj_set k v ob) acc ob = acc @ ob"
    for acc :: "'a jsobj"
  proof (induction ob arbitrary: acc)
    case (Cons kv ob)
    obtain k v where kv: "kv = (k, v)" by fastforce
    from Cons.prems kv have "obj_set k v acc = acc @ [(k, v)]"
      by (intro obj_set_append) (auto simp: wf_obj_def sorted_wrt_append)
    moreover have "wf_obj ((acc @ [(k, v)]) @ ob)" using Cons.prems kv by simp
    ultimately show ?case using Cons.IH [of "acc @ [(k, v)]"] kv by simp
  qed simp
  from this [of "[]"] show "wf_obj ob \<Longrightarrow> obj_of ob = ob" by (simp add: obj_of_def)
qed

lemma json_val_open:
  "json_val (Suc f) (CHR ''['' # s) =
     (let t = skip_ws s in if t \<noteq> [] \<and> hd t = CHR '']'' then Some (JArr [], tl t)
      else map_option (apfst JArr) (json_elems f s))"
  "json_val (Suc f) (CHR ''{'' # s) =
     (let t = skip_ws s in if t \<noteq> [] \<and> hd t = CHR ''}'' then Some (JObj [], tl t)
      else map_option (apfst (\<lambda>ps. JObj (obj_of ps))) (json_members f s))"
  by (simp_all add: skip_ws_def json_ws_def Let_def)

lemma json_first:
  assumes "json_ok v"
  obtains c cs where "json_stringify v = c # cs" "\<not> json_ws c" "c \<noteq> CHR '']''"
proof -
  have "\<exists>c cs. json_stringify v = c # cs \<and> \<not> json_ws c \<and> c \<noteq> CHR '']''"
  proof (cases v)
    case (JNum n)
    with assms obtain i where "json_stringify v = int_str i"
      by (auto elim: json_int_str)
    moreover obtain c cs where "int_str i = c # cs" "c = CHR ''-'' \<or> is_digit c"
      by (rule int_str_first)
    ultimately show ?thesis by (auto simp: json_ws_def is_digit_def)
  qed (use assms in \<open>auto simp: json_quote_def json_ws_def\<close>)
  with that show ?thesis by blast
qed

lemma json_val_print:
  "json_ok v \<Longrightarrow> json_delim t \<Longrightarrow> length (json_stringify v) < f \<Longrightarrow>
    json_val f (json_stringify v @ t) = Some (v, t)"
proof (induction v arbitrary: f t rule: json_stringify.induct)
  case (4 n)
  then obtain i where "n = Fin (rat_of_int i)" "json_stringify (JNum n) = int_str i"
    by (auto elim: json_int_str)
  moreover from 4 obtain g where "f = Suc g" by (cases f) auto
  ultimately show ?case using json_val_int [OF "4.prems"(2)] by simp
next
  case (5 s)
  then obtain g where "f = Suc g" by (cases f) auto
  then show ?case
    by (simp add: json_quote_def skip_ws_def json_ws_def json_str_rest_quote)
next
  case (6 vs)
  then obtain g where f: "f = Suc g" by (cases f) auto
  show ?case
  proof (cases "vs = []")
    case True
    then show ?thesis using f by (simp add: json_val_open skip_ws_def json_ws_def)
  next
    case False
    then obtain v vs' where vs: "vs = v # vs'" by (cases vs) auto
    with "6.prems" have "json_ok v" by simp
    then obtain c cs where c: "json_stringify v = c # cs" "\<not> json_ws c" "c \<noteq> CHR '']''"
      by (rule json_first)
    have "json_elems g (join '','' (map json_stringify vs) @ CHR '']'' # t) = Some (vs, t)"
    proof (rule json_elems_print [OF False])
      show "json_val h (json_stringify v @ u) = Some (v, u)"
        if "v \<in> set vs" "json_delim u" "length (json_stringify v) < h" for v h u
        using that "6.prems"(1) by (intro "6.IH") (auto simp: list_all_iff)
      show "length (join '','' (map json_stringify vs)) + 1 < g"
        using "6.prems"(3) f by simp
    qed
    moreover obtain u where u: "join '','' (map json_stringify vs) @ CHR '']'' # t = c # u"
      using c(1) vs by (cases vs') simp_all
    moreover have "skip_ws (c # u) = c # u" using c(2) by (simp add: skip_ws_def)
    ultimately have "json_val (Suc g) (CHR ''['' # c # u) = Some (JArr vs, t)"
      using c(3) unfolding json_val_open Let_def by simp
    with u f show ?thesis by (metis append.assoc append_Cons append_Nil json_stringify.simps(6))
  qed
next
  case (7 ob)
  then obtain g where f: "f = Suc g" by (cases f) auto
  let ?pr = "\<lambda>(k, v). json_quote k @ '':'' @ json_stringify v"
  have flt: "filter (\<lambda>(k, v). v \<noteq> JUndef) ob = ob"
    using "7.prems"(1) by (auto simp: list_all_iff intro!: filter_True)
  show ?case
  proof (cases "ob = []")
    case True
    then show ?thesis using f by (simp add: json_val_open skip_ws_def json_ws_def)
  next
    case False
    then obtain k v ob' where ob: "ob = (k, v) # ob'" by (cases ob) auto
    have "json_members g (join '','' (map ?pr ob) @ CHR ''}'' # t) = Some (ob, t)"
    proof (rule json_members_print [OF False])
      show "json_val h (json_stringify v @ u) = Some (v, u)"
        if "(k, v) \<in> set ob" "json_delim u" "length (json_stringify v) < h" for k v h u
        using that "7.prems"(1) flt by (intro "7.IH" [of "(k, v)"]) (auto simp: list_all_iff)
      show "length (join '','' (map ?pr ob)) + 1 < g"
        using "7.prems"(3) f flt by simp
    qed
    moreover obtain u where u: "join '','' (map ?pr ob) @ CHR ''}'' # t = CHR 0x22 # u"
      using ob by (cases ob') (simp_all add: json_quote_def)
    moreover have "skip_ws (CHR 0x22 # u) = CHR 0x22 # u" by (simp add: skip_ws_def json_ws_def)
    moreover have "obj_of ob = ob" using "7.prems"(1) by (simp add: obj_of_wf)
    ultimately have "json_val (Suc g) (CHR ''{'' # CHR 0x22 # u) = Some (JObj ob, t)"
      unfolding json_val_open Let_def by simp
    with u f flt show ?thesis by (metis append.assoc append_Cons append_Nil json_stringify.simps(7))
  qed
next
  case (3 b)
  then obtain g where "f = Suc g" by (cases f) auto
  then show ?case by (simp add: skip_ws_def json_ws_def starts_with_def)
next
  case 2
  then obtain g where "f = Suc g" by (cases f) auto
  then show ?case by (simp add: skip_ws_def json_ws_def starts_with_def)
qed simp

lemma json_roundtrip: "json_ok v \<Longrightarrow> json_parse (json_stringify v) = Some v"
proof -
  assume ok: "json_ok v"
  have "json_val (2 * length (json_stringify v) + 2) (json_stringify v @ []) = Some (v, [])"
    using ok by (intro json_val_print) (auto simp: json_delim_def)
  then show ?thesis by (simp add: json_parse_def skip_ws_def)
qed

subsection \<open>The contract of an encoder and its decoder\<close>

locale codec =
  fixes enc :: "'a \<Rightarrow> string" and dec :: "string \<Rightarrow> 'a option" and ok :: "'a \<Rightarrow> bool"
  assumes dec_enc: "ok x \<Longrightarrow> dec (enc x) = Some x"
begin

lemma enc_inject: "ok x \<Longrightarrow> ok y \<Longrightarrow> enc x = enc y \<longleftrightarrow> x = y"
  using dec_enc by (metis option.inject)

lemma dec_enc_neq: "ok x \<Longrightarrow> ok y \<Longrightarrow> x \<noteq> y \<Longrightarrow> dec (enc x) \<noteq> dec (enc y)"
  by (simp add: dec_enc)

end

interpretation json: codec json_stringify json_parse json_ok
  by unfold_locales (rule json_roundtrip)

end
