(* ===== verification/Js_Regex.thy ===== *)
theory Js_Regex
  imports Js_Prelude
begin

section \<open>Regular expressions\<close>

text \<open>
  The semantics of the regular expressions the sources write, as the ECMAScript matcher
  defines it: a backtracking search whose alternatives are tried in order.  \<open>rx_run\<close> returns
  the list of all ways to match, in the order the matcher tries them, so the first element is
  the match JavaScript reports.  A state is the text already consumed (reversed, for the
  assertions \<open>^\<close> and \<open>\b\<close>), the text to come and the captured groups, the latest capture of a
  group first.  An iteration of a star that consumes nothing is cut off, as in ECMAScript, so
  the length of the text bounds the iterations.

  \<open>rx_bind_star_munch\<close> is the law the component proofs use: a star over a character class takes
  the longest run whenever what follows cannot start with a character of the class.
\<close>

subsection \<open>Syntax and matcher\<close>

datatype rx =
    Eps
  | Chr "char \<Rightarrow> bool"
  | Cat rx rx
  | Alt rx rx
  | Star rx
  | Grp nat rx
  | Ref nat
  | Bol
  | Eol
  | WordB

type_synonym caps = "(nat \<times> string) list"
type_synonym rxst = "string \<times> string \<times> caps"

definition rx_bind :: "(rxst \<Rightarrow> rxst list) \<Rightarrow> rxst list \<Rightarrow> rxst list" where
  [js_defs]: "rx_bind k xs = concat (map k xs)"

fun rx_star :: "nat \<Rightarrow> (rxst \<Rightarrow> rxst list) \<Rightarrow> rxst \<Rightarrow> rxst list" where
  "rx_star 0 f st = [st]"
| "rx_star (Suc n) f (b, s, c) =
     rx_bind (\<lambda>(b', s', c'). if length s' < length s then rx_star n f (b', s', c') else [])
       (f (b, s, c)) @ [(b, s, c)]"

definition word_char :: "char \<Rightarrow> bool" where
  [js_defs]: "word_char c \<longleftrightarrow>
     (let n = (of_char c :: nat) in
      (48 \<le> n \<and> n \<le> 57) \<or> (65 \<le> n \<and> n \<le> 90) \<or> (97 \<le> n \<and> n \<le> 122) \<or> n = 95)"

definition word_at :: "string \<Rightarrow> bool" where
  [js_defs]: "word_at s \<longleftrightarrow> s \<noteq> [] \<and> word_char (hd s)"

primrec rx_run :: "rx \<Rightarrow> rxst \<Rightarrow> rxst list" where
  "rx_run Eps st = [st]"
| "rx_run (Chr P) st = (case st of (b, s, c) \<Rightarrow>
     (case s of [] \<Rightarrow> [] | x # xs \<Rightarrow> if P x then [(x # b, xs, c)] else []))"
| "rx_run (Cat p q) st = rx_bind (rx_run q) (rx_run p st)"
| "rx_run (Alt p q) st = rx_run p st @ rx_run q st"
| "rx_run (Star r) st = rx_star (length (fst (snd st))) (rx_run r) st"
| "rx_run (Grp i r) st =
     map (\<lambda>(b', s', c'). (b', s', (i, take (length (fst (snd st)) - length s') (fst (snd st))) # c'))
       (rx_run r st)"
| "rx_run (Ref i) st = (case st of (b, s, c) \<Rightarrow>
     (case map_of c i of None \<Rightarrow> [st]
      | Some w \<Rightarrow> if starts_with w s then [(rev w @ b, drop (length w) s, c)] else []))"
| "rx_run Bol st = (if fst st = [] then [st] else [])"
| "rx_run Eol st = (if fst (snd st) = [] then [st] else [])"
| "rx_run WordB st = (if word_at (fst st) \<noteq> word_at (fst (snd st)) then [st] else [])"

definition rx_plus :: "rx \<Rightarrow> rx" where
  [js_defs]: "rx_plus r = Cat r (Star r)"

definition rx_opt :: "rx \<Rightarrow> rx" where
  [js_defs]: "rx_opt r = Alt r Eps"

primrec lit :: "string \<Rightarrow> rx" where
  "lit [] = Eps"
| "lit (c # cs) = Cat (Chr (\<lambda>x. x = c)) (lit cs)"

primrec cats :: "rx list \<Rightarrow> rx" where
  "cats [] = Eps"
| "cats (r # rs) = Cat r (cats rs)"

primrec alts :: "string \<Rightarrow> string list \<Rightarrow> rx" where
  "alts w [] = lit w"
| "alts w (v # vs) = Alt (lit w) (alts v vs)"

subsection \<open>Searching\<close>

text \<open>\<open>rx_search\<close> tries every start position; it returns the start (consumed text and rest) and
  the end state of the first match.  \<open>rx_match\<close> is \<open>String.prototype.match\<close> with a regular
  expression that is not global, reduced to the captures; \<open>rx_test\<close> is \<open>RegExp.prototype.test\<close>.\<close>

fun rx_search :: "rx \<Rightarrow> string \<Rightarrow> string \<Rightarrow> (string \<times> string \<times> rxst) option" where
  "rx_search r b [] =
     (case rx_run r (b, [], []) of [] \<Rightarrow> None | m # _ \<Rightarrow> Some (b, [], m))"
| "rx_search r b (x # xs) =
     (case rx_run r (b, x # xs, []) of
        [] \<Rightarrow> rx_search r (x # b) xs
      | m # _ \<Rightarrow> Some (b, x # xs, m))"

definition rx_match :: "rx \<Rightarrow> string \<Rightarrow> caps option" where
  [js_defs]: "rx_match r s = map_option (\<lambda>(_, _, _, _, c). c) (rx_search r [] s)"

definition rx_test :: "rx \<Rightarrow> string \<Rightarrow> bool" where
  [js_defs]: "rx_test r s \<longleftrightarrow> rx_match r s \<noteq> None"

definition cap :: "nat \<Rightarrow> caps \<Rightarrow> string" where
  [js_defs]: "cap i c = (case map_of c i of None \<Rightarrow> [] | Some w \<Rightarrow> w)"

text \<open>All matches of a global expression, in order (the \<open>exec\<close> loop with \<open>lastIndex\<close>): the search
  resumes where the last match ended, one further after an empty match.\<close>

fun rx_all :: "nat \<Rightarrow> rx \<Rightarrow> string \<Rightarrow> string \<Rightarrow> caps list" where
  "rx_all 0 r b s = []"
| "rx_all (Suc n) r b s =
     (case rx_search r b s of
        None \<Rightarrow> []
      | Some (_, s0, b', s', c) \<Rightarrow>
          if s' = s0 then (case s' of [] \<Rightarrow> [c] | x # xs \<Rightarrow> c # rx_all n r (x # b') xs)
          else c # rx_all n r b' s')"

definition rx_match_all :: "rx \<Rightarrow> string \<Rightarrow> caps list" where
  [js_defs]: "rx_match_all r s = rx_all (Suc (length s)) r [] s"

text \<open>\<open>String.prototype.split\<close> with a regular expression without groups: at every position the
  expression is tried; a match that does not end where the current piece starts closes the
  piece.\<close>

fun rx_split_from :: "nat \<Rightarrow> rx \<Rightarrow> string \<Rightarrow> string \<Rightarrow> string \<Rightarrow> string list" where
  "rx_split_from 0 r b piece s = [rev piece @ s]"
| "rx_split_from (Suc n) r b piece [] = [rev piece]"
| "rx_split_from (Suc n) r b piece (x # xs) =
     (case rx_run r (b, x # xs, []) of
        (b', t, _) # _ \<Rightarrow>
          (if piece = [] \<and> t = x # xs then rx_split_from n r (x # b) (x # piece) xs
           else rev piece # rx_split_from n r b' [] t)
      | [] \<Rightarrow> rx_split_from n r (x # b) (x # piece) xs)"

definition rx_split :: "rx \<Rightarrow> string \<Rightarrow> string list" where
  [js_defs]: "rx_split r s = rx_split_from (2 * length s + 1) r [] [] s"

subsection \<open>Laws of the matcher\<close>

lemma rx_bind_simps [simp]:
  "rx_bind k [] = []" "rx_bind k (x # xs) = k x @ rx_bind k xs"
  "rx_bind k (xs @ ys) = rx_bind k xs @ rx_bind k ys"
  by (simp_all add: rx_bind_def)

lemma rx_bind_assoc: "rx_bind k (rx_bind h xs) = rx_bind (\<lambda>x. rx_bind k (h x)) xs"
  by (induction xs) simp_all

lemma rx_bind_map: "rx_bind k (map g xs) = rx_bind (\<lambda>x. k (g x)) xs"
  by (simp add: rx_bind_def comp_def)

lemma set_rx_bind [simp]: "set (rx_bind k xs) = (\<Union>x \<in> set xs. set (k x))"
  by (simp add: rx_bind_def)

lemma rx_bind_eq_Nil: "rx_bind k xs = [] \<longleftrightarrow> (\<forall>x \<in> set xs. k x = [])"
  by (auto simp: rx_bind_def)

lemma rx_run_lit:
  "rx_run (lit w) (b, s, c) =
    (if starts_with w s then [(rev w @ b, drop (length w) s, c)] else [])"
proof (induction w arbitrary: b s)
  case (Cons a w)
  then show ?case by (cases s) (auto simp: starts_with_def)
qed simp

lemma rx_run_lit_append [simp]: "rx_run (lit w) (b, w @ t, c) = [(rev w @ b, t, c)]"
  by (simp add: rx_run_lit)

text \<open>A star over a class yields every prefix of the longest run, longest first.\<close>

fun class_runs :: "(char \<Rightarrow> bool) \<Rightarrow> rxst \<Rightarrow> rxst list" where
  "class_runs P (b, [], c) = [(b, [], c)]"
| "class_runs P (b, x # xs, c) =
     (if P x then class_runs P (x # b, xs, c) else []) @ [(b, x # xs, c)]"

lemma rx_run_star_class: "rx_run (Star (Chr P)) (b, s, c) = class_runs P (b, s, c)"
proof -
  have "length s \<le> n \<Longrightarrow> rx_star n (rx_run (Chr P)) (b, s, c) = class_runs P (b, s, c)" for n
  proof (induction n arbitrary: b s)
    case 0
    then show ?case by simp
  next
    case (Suc n)
    then show ?case by (cases s) auto
  qed
  then show ?thesis by simp
qed

lemma class_runs_munch:
  assumes "\<And>b x xs c. P x \<Longrightarrow> k (b, x # xs, c) = []"
  shows "rx_bind k (class_runs P (b, s, c)) = k (rev (takeWhile P s) @ b, dropWhile P s, c)"
proof (induction s arbitrary: b)
  case (Cons x xs)
  then show ?case using assms by auto
qed simp

lemma rx_bind_star_munch:
  assumes "\<And>b x xs c. P x \<Longrightarrow> k (b, x # xs, c) = []"
  shows "rx_bind k (rx_run (Star (Chr P)) (b, s, c)) =
    k (rev (takeWhile P s) @ b, dropWhile P s, c)"
  unfolding rx_run_star_class by (rule class_runs_munch) (rule assms)

lemma rx_bind_plus_munch:
  assumes "\<And>b x xs c. P x \<Longrightarrow> k (b, x # xs, c) = []"
  shows "rx_bind k (rx_run (rx_plus (Chr P)) (b, s, c)) =
    (if takeWhile P s = [] then [] else k (rev (takeWhile P s) @ b, dropWhile P s, c))"
proof (cases s)
  case (Cons x xs)
  show ?thesis
  proof (cases "P x")
    case True
    then have "rx_bind k (rx_run (rx_plus (Chr P)) (b, s, c)) =
        rx_bind k (rx_run (Star (Chr P)) (x # b, xs, c))"
      by (simp add: rx_plus_def Cons)
    also have "\<dots> = k (rev (takeWhile P xs) @ x # b, dropWhile P xs, c)"
      by (rule rx_bind_star_munch) (rule assms)
    finally show ?thesis using True by (simp add: Cons)
  next
    case False
    then show ?thesis by (simp add: rx_plus_def Cons)
  qed
qed (simp add: rx_plus_def)

lemma takeWhile_length_diff: "take (length s - length (dropWhile P s)) s = takeWhile P s"
  by (metis append_eq_conv_conj diff_add_inverse2 length_append takeWhile_dropWhile_id)

lemma rx_bind_grp_plus_munch:
  assumes "\<And>b x xs c. P x \<Longrightarrow> k (b, x # xs, c) = []"
  shows "rx_bind k (rx_run (Grp i (rx_plus (Chr P))) (b, s, c)) =
    (if takeWhile P s = [] then []
     else k (rev (takeWhile P s) @ b, dropWhile P s, (i, takeWhile P s) # c))"
proof -
  define k' where "k' = (\<lambda>(b', s', c'). k (b', s', (i, take (length s - length s') s) # c'))"
  have "rx_bind k (rx_run (Grp i (rx_plus (Chr P))) (b, s, c)) =
      rx_bind k' (rx_run (rx_plus (Chr P)) (b, s, c))"
    by (simp add: rx_bind_map k'_def case_prod_unfold comp_def)
  also have "\<dots> = (if takeWhile P s = [] then []
      else k' (rev (takeWhile P s) @ b, dropWhile P s, c))"
    by (rule rx_bind_plus_munch) (simp add: k'_def assms)
  finally show ?thesis by (simp add: k'_def takeWhile_length_diff)
qed

text \<open>An expression anchored at the start matches at the start or not at all.\<close>

lemma rx_search_not_start: "b \<noteq> [] \<Longrightarrow> rx_search (Cat Bol r) b s = None"
  by (induction s arbitrary: b) simp_all

lemma rx_match_anchored:
  "rx_match (Cat Bol r) s =
    (case rx_run r ([], s, []) of [] \<Rightarrow> None | (_, _, c) # _ \<Rightarrow> Some c)"
proof (cases s)
  case Nil
  then show ?thesis by (auto simp: rx_match_def split: list.splits)
next
  case (Cons x xs)
  then show ?thesis
    by (auto simp: rx_match_def rx_search_not_start split: list.splits)
qed

lemma rx_test_anchored: "rx_test (Cat Bol r) s \<longleftrightarrow> rx_run r ([], s, []) \<noteq> []"
  by (auto simp: rx_test_def rx_match_anchored split: list.splits)

text \<open>The two shapes of whole-text tests the sources use: a class repeated, and a fixed number of
  classes.\<close>

primrec rx_classes :: "(char \<Rightarrow> bool) list \<Rightarrow> rx" where
  "rx_classes [] = Cat Eol Eps"
| "rx_classes (P # Ps) = Cat (Chr P) (rx_classes Ps)"

lemma rx_run_classes:
  "rx_run (rx_classes Ps) (b, s, c) = (if list_all2 (\<lambda>P x. P x) Ps s then [(rev s @ b, [], c)] else [])"
proof (induction Ps arbitrary: b s)
  case Nil
  then show ?case by (cases s) auto
next
  case (Cons P Ps)
  then show ?case by (cases s) auto
qed

lemma rx_test_classes: "rx_test (Cat Bol (rx_classes Ps)) s \<longleftrightarrow> list_all2 (\<lambda>P x. P x) Ps s"
  by (simp add: rx_test_anchored rx_run_classes)

lemma rx_test_all_plus:
  "rx_test (cats [Bol, rx_plus (Chr P), Eol]) s \<longleftrightarrow> s \<noteq> [] \<and> list_all P s"
proof -
  have "rx_run (cats [rx_plus (Chr P), Eol]) ([], s, []) =
      (if takeWhile P s = [] then []
       else rx_run (Cat Eol Eps) (rev (takeWhile P s) @ [], dropWhile P s, []))"
    unfolding cats.simps rx_run.simps(3) [of "rx_plus (Chr P)"]
    by (rule rx_bind_plus_munch) simp
  then show ?thesis
    by (cases s) (auto simp: rx_test_anchored list_all_iff takeWhile_eq_Nil_iff dropWhile_eq_Nil_conv)
qed

text \<open>What a successful run consumes is a prefix of the text.\<close>

definition consumes :: "rxst \<Rightarrow> rxst \<Rightarrow> bool" where
  "consumes st st' \<longleftrightarrow> (\<exists>w. fst (snd st) = w @ fst (snd st') \<and> fst st' = rev w @ fst st)"

lemma consumes_refl [simp]: "consumes st st"
  by (simp add: consumes_def)

lemma consumes_trans: "consumes a b \<Longrightarrow> consumes b c \<Longrightarrow> consumes a c"
  unfolding consumes_def by (metis append.assoc rev_append)

lemma rx_star_consumes:
  assumes "\<And>st st'. st' \<in> set (f st) \<Longrightarrow> consumes st st'"
  shows "st' \<in> set (rx_star n f st) \<Longrightarrow> consumes st st'"
proof (induction n arbitrary: st)
  case (Suc n)
  obtain b s c where st: "st = (b, s, c)" by (cases st)
  show ?case
  proof (cases "st' = st")
    case False
    with Suc.prems st obtain x where x: "x \<in> set (f st)" "st' \<in> set (rx_star n f x)"
      by (auto split: if_splits)
    from x(2) have "consumes x st'" by (rule Suc.IH)
    with assms [OF x(1)] show ?thesis by (rule consumes_trans)
  qed simp
qed simp

lemma rx_run_consumes: "st' \<in> set (rx_run r st) \<Longrightarrow> consumes st st'"
proof (induction r arbitrary: st st')
  case (Chr P)
  then show ?case
    by (auto simp: consumes_def split: prod.splits list.splits if_splits)
next
  case (Cat p q)
  then obtain x where "x \<in> set (rx_run p st)" "st' \<in> set (rx_run q x)" by auto
  with Cat.IH show ?case by (meson consumes_trans)
next
  case (Star r)
  then have "st' \<in> set (rx_star (length (fst (snd st))) (rx_run r) st)" by simp
  then show ?case by (rule rx_star_consumes [rotated]) (rule Star.IH)
next
  case (Grp i r)
  then obtain x where "x \<in> set (rx_run r st)" "fst st' = fst x" "fst (snd st') = fst (snd x)"
    by auto
  with Grp.IH show ?case by (simp add: consumes_def)
next
  case (Ref i)
  then show ?case
    by (auto simp: consumes_def starts_with_iff split: prod.splits option.splits if_splits)
qed (auto split: if_splits)

subsection \<open>Matches as decompositions of the text\<close>

text \<open>The set of results of an expression, read as the ways to cut the text.  For an anchored
  expression whose cuts are unique, \<open>rx_match_det\<close> turns the cut into the reported match.\<close>

named_theorems rx_mem

lemma mem_Cat [rx_mem]:
  "x \<in> set (rx_run (Cat p q) st) \<longleftrightarrow> (\<exists>y. y \<in> set (rx_run p st) \<and> x \<in> set (rx_run q y))"
  by auto

lemma mem_Eps [rx_mem]: "x \<in> set (rx_run Eps st) \<longleftrightarrow> x = st"
  by simp

lemma mem_Eol [rx_mem]: "x \<in> set (rx_run Eol (b, s, c)) \<longleftrightarrow> s = [] \<and> x = (b, [], c)"
  by auto

lemma mem_lit [rx_mem]:
  "x \<in> set (rx_run (lit w) (b, s, c)) \<longleftrightarrow> (\<exists>t. s = w @ t \<and> x = (rev w @ b, t, c))"
  by (auto simp: rx_run_lit starts_with_iff)

lemma mem_Chr [rx_mem]:
  "x \<in> set (rx_run (Chr P) (b, s, c)) \<longleftrightarrow> (\<exists>a t. s = a # t \<and> P a \<and> x = (a # b, t, c))"
  by (cases s) auto

lemma mem_alts [rx_mem]:
  "x \<in> set (rx_run (alts w ws) (b, s, c)) \<longleftrightarrow>
    (\<exists>v t. v \<in> set (w # ws) \<and> s = v @ t \<and> x = (rev v @ b, t, c))"
proof (induction ws arbitrary: w)
  case Nil
  then show ?case by (simp add: mem_lit)
next
  case (Cons v vs)
  have "x \<in> set (rx_run (alts w (v # vs)) (b, s, c)) \<longleftrightarrow>
      x \<in> set (rx_run (lit w) (b, s, c)) \<or> x \<in> set (rx_run (alts v vs) (b, s, c))"
    by simp
  then show ?case unfolding Cons.IH mem_lit by auto
qed

lemma class_runs_mem:
  "x \<in> set (class_runs P (b, s, c)) \<longleftrightarrow>
    (\<exists>u t. s = u @ t \<and> (\<forall>a \<in> set u. P a) \<and> x = (rev u @ b, t, c))"
proof (induction s arbitrary: b)
  case (Cons a s)
  show ?case
  proof
    assume "x \<in> set (class_runs P (b, a # s, c))"
    then consider "P a" "x \<in> set (class_runs P (a # b, s, c))" | "x = (b, a # s, c)"
      by (auto split: if_splits)
    then show "\<exists>u t. a # s = u @ t \<and> (\<forall>a \<in> set u. P a) \<and> x = (rev u @ b, t, c)"
    proof cases
      case 1
      then obtain u t where "s = u @ t" "\<forall>a \<in> set u. P a" "x = (rev u @ a # b, t, c)"
        using Cons.IH by blast
      with 1 show ?thesis by - (rule exI [of _ "a # u"], rule exI [of _ t], simp)
    next
      case 2
      then show ?thesis by - (rule exI [of _ "[]"], simp)
    qed
  next
    assume "\<exists>u t. a # s = u @ t \<and> (\<forall>a \<in> set u. P a) \<and> x = (rev u @ b, t, c)"
    then obtain u t where u: "a # s = u @ t" "\<forall>a \<in> set u. P a" "x = (rev u @ b, t, c)" by blast
    show "x \<in> set (class_runs P (b, a # s, c))"
    proof (cases u)
      case Nil
      with u have "x = (b, a # s, c)" by simp
      then show ?thesis by simp
    next
      case (Cons a' u')
      with u have "x \<in> set (class_runs P (a # b, s, c))" "P a" using Cons.IH by auto
      then show ?thesis by simp
    qed
  qed
qed simp

lemma mem_star_class [rx_mem]:
  "x \<in> set (rx_run (Star (Chr P)) (b, s, c)) \<longleftrightarrow>
    (\<exists>u t. s = u @ t \<and> (\<forall>a \<in> set u. P a) \<and> x = (rev u @ b, t, c))"
  unfolding rx_run_star_class by (rule class_runs_mem)

lemma mem_plus_class [rx_mem]:
  "x \<in> set (rx_run (rx_plus (Chr P)) (b, s, c)) \<longleftrightarrow>
    (\<exists>u t. s = u @ t \<and> u \<noteq> [] \<and> (\<forall>a \<in> set u. P a) \<and> x = (rev u @ b, t, c))"
proof
  assume "x \<in> set (rx_run (rx_plus (Chr P)) (b, s, c))"
  then obtain a u t where "s = a # u @ t" "P a" "\<forall>a \<in> set u. P a" "x = (rev u @ a # b, t, c)"
    unfolding rx_plus_def mem_Cat mem_Chr by (auto simp: mem_star_class simp del: rx_run.simps)
  then show "\<exists>u t. s = u @ t \<and> u \<noteq> [] \<and> (\<forall>a \<in> set u. P a) \<and> x = (rev u @ b, t, c)"
    by - (rule exI [of _ "a # u"], rule exI [of _ t], simp)
next
  assume "\<exists>u t. s = u @ t \<and> u \<noteq> [] \<and> (\<forall>a \<in> set u. P a) \<and> x = (rev u @ b, t, c)"
  then obtain w t where w: "s = w @ t" "w \<noteq> []" "\<forall>a \<in> set w. P a" "x = (rev w @ b, t, c)"
    by blast
  from w(2) obtain a u where au: "w = a # u" by (cases w) auto
  then have "s = a # u @ t" "P a" "\<forall>a \<in> set u. P a" "x = (rev u @ a # b, t, c)"
    using w by simp_all
  then show "x \<in> set (rx_run (rx_plus (Chr P)) (b, s, c))"
    unfolding rx_plus_def mem_Cat mem_Chr by (auto simp: mem_star_class simp del: rx_run.simps)
qed

lemma mem_Grp:
  "x \<in> set (rx_run (Grp i r) (b, s, c)) \<longleftrightarrow>
    (\<exists>b' u t c'. (b', t, c') \<in> set (rx_run r (b, s, c)) \<and> s = u @ t \<and> x = (b', t, (i, u) # c'))"
proof -
  have "\<exists>u. s = u @ t \<and> take (length s - length t) s = u"
    if "(b', t, c') \<in> set (rx_run r (b, s, c))" for b' t c'
    using rx_run_consumes [OF that] by (auto simp: consumes_def)
  then have tk: "s = take (length s - length t) s @ t"
    if "(b', t, c') \<in> set (rx_run r (b, s, c))" for b' t c'
    using that by metis
  show ?thesis
  proof
    assume "x \<in> set (rx_run (Grp i r) (b, s, c))"
    then obtain b' t c' where m: "(b', t, c') \<in> set (rx_run r (b, s, c))"
      and x: "x = (b', t, (i, take (length s - length t) s) # c')" by auto
    from m tk [OF m] x
    show "\<exists>b' u t c'. (b', t, c') \<in> set (rx_run r (b, s, c)) \<and> s = u @ t \<and> x = (b', t, (i, u) # c')"
      by blast
  next
    assume "\<exists>b' u t c'. (b', t, c') \<in> set (rx_run r (b, s, c)) \<and> s = u @ t \<and> x = (b', t, (i, u) # c')"
    then show "x \<in> set (rx_run (Grp i r) (b, s, c))" by (force simp: image_iff)
  qed
qed

lemma mem_Grp_plus_class [rx_mem]:
  "x \<in> set (rx_run (Grp i (rx_plus (Chr P))) (b, s, c)) \<longleftrightarrow>
    (\<exists>u t. s = u @ t \<and> u \<noteq> [] \<and> (\<forall>a \<in> set u. P a) \<and> x = (rev u @ b, t, (i, u) # c))"
  unfolding mem_Grp mem_plus_class by auto

lemma mem_Grp_star_class [rx_mem]:
  "x \<in> set (rx_run (Grp i (Star (Chr P))) (b, s, c)) \<longleftrightarrow>
    (\<exists>u t. s = u @ t \<and> (\<forall>a \<in> set u. P a) \<and> x = (rev u @ b, t, (i, u) # c))"
  unfolding mem_Grp mem_star_class by auto

lemma mem_Grp_alts [rx_mem]:
  "x \<in> set (rx_run (Grp i (alts w ws)) (b, s, c)) \<longleftrightarrow>
    (\<exists>v t. v \<in> set (w # ws) \<and> s = v @ t \<and> x = (rev v @ b, t, (i, v) # c))"
  unfolding mem_Grp mem_alts by auto

lemma mem_Ref [rx_mem]:
  "map_of c i = Some w \<Longrightarrow>
    x \<in> set (rx_run (Ref i) (b, s, c)) \<longleftrightarrow> (\<exists>t. s = w @ t \<and> x = (rev w @ b, t, c))"
  by (auto simp: starts_with_iff)

text \<open>The same laws for a sequence, one element at a time: the state after the element is explicit, so
  a back reference finds its group.\<close>

named_theorems rx_cat

lemma cat_Eol [rx_cat]:
  "x \<in> set (rx_run (Cat Eol q) (b, s, c)) \<longleftrightarrow> s = [] \<and> x \<in> set (rx_run q (b, [], c))"
  unfolding mem_Cat mem_Eol by blast

lemma cat_lit [rx_cat]:
  "x \<in> set (rx_run (Cat (lit w) q) (b, s, c)) \<longleftrightarrow>
    (\<exists>t. s = w @ t \<and> x \<in> set (rx_run q (rev w @ b, t, c)))"
  unfolding mem_Cat mem_lit by blast

lemma cat_Chr [rx_cat]:
  "x \<in> set (rx_run (Cat (Chr P) q) (b, s, c)) \<longleftrightarrow>
    (\<exists>a t. s = a # t \<and> P a \<and> x \<in> set (rx_run q (a # b, t, c)))"
  unfolding mem_Cat mem_Chr by blast

lemma cat_star_class [rx_cat]:
  "x \<in> set (rx_run (Cat (Star (Chr P)) q) (b, s, c)) \<longleftrightarrow>
    (\<exists>u t. s = u @ t \<and> (\<forall>a \<in> set u. P a) \<and> x \<in> set (rx_run q (rev u @ b, t, c)))"
  unfolding mem_Cat mem_star_class by blast

lemma cat_Grp_plus_class [rx_cat]:
  "x \<in> set (rx_run (Cat (Grp i (rx_plus (Chr P))) q) (b, s, c)) \<longleftrightarrow>
    (\<exists>u t. s = u @ t \<and> u \<noteq> [] \<and> (\<forall>a \<in> set u. P a) \<and>
      x \<in> set (rx_run q (rev u @ b, t, (i, u) # c)))"
  unfolding mem_Cat mem_Grp_plus_class by blast

lemma cat_Grp_alts [rx_cat]:
  "x \<in> set (rx_run (Cat (Grp i (alts w ws)) q) (b, s, c)) \<longleftrightarrow>
    (\<exists>v t. v \<in> set (w # ws) \<and> s = v @ t \<and> x \<in> set (rx_run q (rev v @ b, t, (i, v) # c)))"
  unfolding mem_Cat mem_Grp_alts by blast

lemma cat_Ref [rx_cat]:
  "map_of c i = Some w \<Longrightarrow>
    x \<in> set (rx_run (Cat (Ref i) q) (b, s, c)) \<longleftrightarrow>
      (\<exists>t. s = w @ t \<and> x \<in> set (rx_run q (rev w @ b, t, c)))"
  unfolding mem_Cat by (subst mem_Ref) auto

lemmas rx_cuts = rx_cat mem_Eps

lemma rx_match_det:
  assumes mem: "\<And>c. (\<exists>b t. (b, t, c) \<in> set (rx_run r ([], s, []))) \<longleftrightarrow> Q c"
    and det: "\<And>c c'. Q c \<Longrightarrow> Q c' \<Longrightarrow> c = c'"
  shows "rx_match (Cat Bol r) s = Some c \<longleftrightarrow> Q c"
proof (cases "rx_run r ([], s, [])")
  case Nil
  then show ?thesis using mem by (simp add: rx_match_anchored)
next
  case (Cons m ms)
  obtain b t c' where m: "m = (b, t, c')" by (cases m)
  then have "Q c'" using mem Cons by (metis list.set_intros(1))
  then show ?thesis using det by (auto simp: rx_match_anchored Cons m)
qed

lemma rx_match_mem:
  "rx_match (Cat Bol r) s = Some c \<Longrightarrow> \<exists>b t. (b, t, c) \<in> set (rx_run r ([], s, []))"
  by (cases "rx_run r ([], s, [])") (auto simp: rx_match_anchored split: prod.splits)

lemma rx_match_none:
  "rx_match (Cat Bol r) s = None \<longleftrightarrow> (\<forall>x. x \<notin> set (rx_run r ([], s, [])))"
  by (cases "rx_run r ([], s, [])") (auto simp: rx_match_anchored split: prod.splits)

text \<open>Iterating a star, and expressions without groups leave the captures alone.\<close>

lemma rx_star_mono: "x \<in> set (rx_star n f st) \<Longrightarrow> n \<le> m \<Longrightarrow> x \<in> set (rx_star m f st)"
proof (induction n f st arbitrary: m rule: rx_star.induct)
  case (1 f st)
  then show ?case by (cases m; cases st) auto
next
  case (2 n f b s c)
  then obtain m' where m: "m = Suc m'" "n \<le> m'" by (cases m) auto
  from "2.prems"(1) consider "x = (b, s, c)"
    | b' s' c' where "(b', s', c') \<in> set (f (b, s, c))" "length s' < length s"
        "x \<in> set (rx_star n f (b', s', c'))"
    by (auto split: if_splits)
  then show ?case
  proof cases
    case 2
    then have "x \<in> set (rx_star m' f (b', s', c'))" using "2.IH" m(2) by blast
    with 2 m show ?thesis by force
  qed (simp add: m)
qed

lemma star_refl: "st \<in> set (rx_run (Star r) st)"
  by (cases st; cases "fst (snd st)") auto

lemma star_step:
  assumes "(b', s', c') \<in> set (rx_run r (b, s, c))" "length s' < length s"
    "x \<in> set (rx_run (Star r) (b', s', c'))"
  shows "x \<in> set (rx_run (Star r) (b, s, c))"
proof -
  obtain n where n: "length s = Suc n" "length s' \<le> n" using assms(2) by (cases "length s") auto
  have "x \<in> set (rx_star n (rx_run r) (b', s', c'))"
    using rx_star_mono [OF _ n(2)] assms(3) by simp
  with assms(1,2) n(1) show ?thesis by force
qed

primrec rx_capless :: "rx \<Rightarrow> bool" where
  "rx_capless Eps = True"
| "rx_capless (Chr P) = True"
| "rx_capless (Cat p q) = (rx_capless p \<and> rx_capless q)"
| "rx_capless (Alt p q) = (rx_capless p \<and> rx_capless q)"
| "rx_capless (Star r) = rx_capless r"
| "rx_capless (Grp i r) = False"
| "rx_capless (Ref i) = True"
| "rx_capless Bol = True"
| "rx_capless Eol = True"
| "rx_capless WordB = True"

lemma rx_star_caps:
  assumes "\<And>st st'. st' \<in> set (f st) \<Longrightarrow> snd (snd st') = snd (snd st)"
  shows "st' \<in> set (rx_star n f st) \<Longrightarrow> snd (snd st') = snd (snd st)"
proof (induction n arbitrary: st)
  case (Suc n)
  obtain b s c where st: "st = (b, s, c)" by (cases st)
  show ?case
  proof (cases "st' = st")
    case False
    with Suc.prems st obtain x where x: "x \<in> set (f st)" "st' \<in> set (rx_star n f x)"
      by (auto split: if_splits)
    from x(2) have "snd (snd st') = snd (snd x)" by (rule Suc.IH)
    with assms [OF x(1)] show ?thesis by simp
  qed simp
qed simp

lemma rx_run_capless:
  "rx_capless r \<Longrightarrow> st' \<in> set (rx_run r st) \<Longrightarrow> snd (snd st') = snd (snd st)"
proof (induction r arbitrary: st st')
  case (Cat p q)
  then obtain x where "x \<in> set (rx_run p st)" "st' \<in> set (rx_run q x)" by auto
  with Cat show ?case by (metis rx_capless.simps(3))
next
  case (Star r)
  then have "st' \<in> set (rx_star (length (fst (snd st))) (rx_run r) st)" by simp
  then show ?case by (rule rx_star_caps [rotated]) (use Star in simp)
qed (auto split: prod.splits list.splits if_splits option.splits)

text \<open>An expression over a class of characters consumes only such characters.\<close>

primrec rx_within :: "(char \<Rightarrow> bool) \<Rightarrow> rx \<Rightarrow> bool" where
  "rx_within Q Eps = True"
| "rx_within Q (Chr P) = (\<forall>x. P x \<longrightarrow> Q x)"
| "rx_within Q (Cat p q) = (rx_within Q p \<and> rx_within Q q)"
| "rx_within Q (Alt p q) = (rx_within Q p \<and> rx_within Q q)"
| "rx_within Q (Star r) = rx_within Q r"
| "rx_within Q (Grp i r) = rx_within Q r"
| "rx_within Q (Ref i) = False"
| "rx_within Q Bol = True"
| "rx_within Q Eol = True"
| "rx_within Q WordB = True"

definition consumes_in :: "(char \<Rightarrow> bool) \<Rightarrow> rxst \<Rightarrow> rxst \<Rightarrow> bool" where
  "consumes_in Q st st' \<longleftrightarrow>
     (\<exists>w. fst (snd st) = w @ fst (snd st') \<and> (\<forall>x \<in> set w. Q x))"

lemma consumes_in_refl [simp]: "consumes_in Q st st"
  by (simp add: consumes_in_def)

lemma consumes_in_trans: "consumes_in Q a b \<Longrightarrow> consumes_in Q b c \<Longrightarrow> consumes_in Q a c"
proof -
  assume "consumes_in Q a b" "consumes_in Q b c"
  then obtain v w where "fst (snd a) = v @ fst (snd b)" "\<forall>x \<in> set v. Q x"
    "fst (snd b) = w @ fst (snd c)" "\<forall>x \<in> set w. Q x" by (auto simp: consumes_in_def)
  then show ?thesis unfolding consumes_in_def by (intro exI [of _ "v @ w"]) auto
qed

lemma rx_star_consumes_in:
  assumes "\<And>st st'. st' \<in> set (f st) \<Longrightarrow> consumes_in Q st st'"
  shows "st' \<in> set (rx_star n f st) \<Longrightarrow> consumes_in Q st st'"
proof (induction n arbitrary: st)
  case (Suc n)
  obtain b s c where st: "st = (b, s, c)" by (cases st)
  show ?case
  proof (cases "st' = st")
    case False
    with Suc.prems st obtain x where x: "x \<in> set (f st)" "st' \<in> set (rx_star n f x)"
      by (auto split: if_splits)
    from x(2) have "consumes_in Q x st'" by (rule Suc.IH)
    with assms [OF x(1)] show ?thesis by (rule consumes_in_trans)
  qed simp
qed simp

lemma rx_run_within: "rx_within Q r \<Longrightarrow> st' \<in> set (rx_run r st) \<Longrightarrow> consumes_in Q st st'"
proof (induction r arbitrary: st st')
  case (Chr P)
  then show ?case
    by (auto simp: consumes_in_def split: prod.splits list.splits if_splits)
next
  case (Cat p q)
  then obtain x where "x \<in> set (rx_run p st)" "st' \<in> set (rx_run q x)" by auto
  with Cat show ?case by (metis consumes_in_trans rx_within.simps(3))
next
  case (Star r)
  then have "st' \<in> set (rx_star (length (fst (snd st))) (rx_run r) st)" by simp
  then show ?case by (rule rx_star_consumes_in [rotated]) (use Star in simp)
next
  case (Grp i r)
  then obtain x where "x \<in> set (rx_run r st)" "fst (snd st') = fst (snd x)" by auto
  with Grp show ?case by (simp add: consumes_in_def)
qed (auto split: if_splits)

lemma rx_test_within:
  assumes "rx_test (cats [Bol, r, Eol]) s" "rx_within Q r"
  shows "\<forall>x \<in> set s. Q x"
proof -
  from assms(1) obtain b c where "(b, [], c) \<in> set (rx_run r ([], s, []))"
    unfolding cats.simps rx_test_anchored by (force simp: rx_bind_eq_Nil split: if_splits)
  from rx_run_within [OF assms(2) this] show ?thesis by (simp add: consumes_in_def)
qed

end
