(* ===== verification/Status_Codes.thy ===== *)
theory Status_Codes
  imports Js_Json Js_Regex
begin

section \<open>HTTP status code rules and the redirect guard\<close>

text \<open>
  \<^item> \<open>web/default/src/lib/http-status-code-rules.ts\<close>: the text "\<open>400,402-404\<close>" of the automatic
    disable and retry settings is parsed into ranges, which are sorted and merged; the merged
    ranges are printed back as the normalised text.  \<open>mergeRanges\<close> is shown to be a canonical
    form of the set of codes a list of ranges covers, so the normalised text is too.
  \<^item> \<open>web/default/src/features/channels/lib/status-code-risk-guard.ts\<close>: which entries of a
    channel's status code mapping are malformed, and which of them redirect the codes 504 and
    524.

  The parser first maps the full-width comma (U+FF0C) to a comma; that code unit is outside the
  range of \<^typ>\<open>char\<close>, so on the strings of the model the step is the identity.  The entries
  \<open>collectInvalidStatusCodeEntries\<close> reports are the texts of key and value joined by an arrow
  (U+2192); here they are the pairs.
\<close>

subsection \<open>Ranges\<close>

record StatusCodeRange =
  r_start :: nat
  r_end :: nat

record ParsedHttpStatusCodeRules =
  pr_ok :: bool
  pr_ranges :: "StatusCodeRange list"
  pr_tokens :: "string list"
  pr_normalized :: string
  pr_invalidTokens :: "string list"

definition isNumber :: "string \<Rightarrow> bool" where
  "isNumber s = rx_test (cats [Bol, rx_plus (Chr is_digit), Eol]) s"

definition isValidCode :: "nat \<Rightarrow> bool" where
  "isValidCode code \<longleftrightarrow> 100 \<le> code \<and> code \<le> 599"

definition parseToken :: "string \<Rightarrow> StatusCodeRange option" where
  "parseToken token =
     (let cleaned = filter (\<lambda>c. \<not> is_space c) (trim token) in
      if cleaned = [] then None
      else if includes_str ''-'' cleaned then
        (let a = splitc (CHR ''-'') cleaned ! 0;
             b = splitc (CHR ''-'') cleaned ! 1
         in if \<not> isNumber a \<or> \<not> isNumber b then None
            else let start = parse_nat a; en = parse_nat b
                 in if \<not> isValidCode start \<or> \<not> isValidCode en \<or> start > en then None
                    else Some \<lparr>r_start = start, r_end = en\<rparr>)
      else if \<not> isNumber cleaned then None
      else let code = parse_nat cleaned
           in if \<not> isValidCode code then None else Some \<lparr>r_start = code, r_end = code\<rparr>)"

definition range_le :: "StatusCodeRange \<Rightarrow> StatusCodeRange \<Rightarrow> bool" where
  "range_le a b \<longleftrightarrow>
     (if r_start a \<noteq> r_start b then int (r_start a) - int (r_start b) \<le> 0
      else int (r_end a) - int (r_end b) \<le> 0)"

definition merge_step :: "StatusCodeRange list \<Rightarrow> StatusCodeRange \<Rightarrow> StatusCodeRange list" where
  "merge_step merged current =
     (if merged = [] \<or> r_start current > r_end (last merged) + 1 then merged @ [current]
      else butlast merged @
        [(last merged)\<lparr>r_end := max (r_end (last merged)) (r_end current)\<rparr>])"

definition mergeRanges :: "StatusCodeRange list \<Rightarrow> StatusCodeRange list" where
  "mergeRanges rs = (if rs = [] then [] else foldl merge_step [] (sort_by range_le rs))"

definition range_token :: "StatusCodeRange \<Rightarrow> string" where
  "range_token r =
     (if r_start r = r_end r then nat_str (r_start r)
      else nat_str (r_start r) @ ''-'' @ nat_str (r_end r))"

definition rule_segments :: "string \<Rightarrow> string list" where
  "rule_segments raw = filter (\<lambda>s. s \<noteq> []) (map trim (splitc (CHR '','') raw))"

definition parseHttpStatusCodeRules :: "jsval \<Rightarrow> ParsedHttpStatusCodeRules" where
  "parseHttpStatusCodeRules input =
     (let raw = trim (to_str (if nullish input then JStr [] else input)) in
      if raw = [] then
        \<lparr>pr_ok = True, pr_ranges = [], pr_tokens = [], pr_normalized = [], pr_invalidTokens = []\<rparr>
      else
        let segments = rule_segments raw;
            invalid = filter (\<lambda>s. parseToken s = None) segments;
            rs = map the (filter (\<lambda>r. r \<noteq> None) (map parseToken segments))
        in if invalid \<noteq> [] then
             \<lparr>pr_ok = False, pr_ranges = [], pr_tokens = [], pr_normalized = raw, pr_invalidTokens = invalid\<rparr>
           else
             let merged = mergeRanges rs;
                 toks = map range_token merged
             in \<lparr>pr_ok = True, pr_ranges = merged, pr_tokens = toks, pr_normalized = join '','' toks,
                 pr_invalidTokens = []\<rparr>)"

subsection \<open>Canonical form\<close>

definition covers :: "StatusCodeRange list \<Rightarrow> nat set" where
  "covers rs = (\<Union>r \<in> set rs. {r_start r..r_end r})"

definition proper :: "StatusCodeRange \<Rightarrow> bool" where
  "proper r \<longleftrightarrow> r_start r \<le> r_end r"

definition separated :: "StatusCodeRange list \<Rightarrow> bool" where
  "separated rs \<longleftrightarrow> (\<forall>r \<in> set rs. proper r) \<and> sorted_wrt (\<lambda>a b. r_end a + 1 < r_start b) rs"

lemma range_le_total: "range_le a b \<or> range_le b a"
  and range_le_trans: "range_le a b \<Longrightarrow> range_le b c \<Longrightarrow> range_le a c"
  and range_le_start: "range_le a b \<Longrightarrow> r_start a \<le> r_start b"
  by (auto simp: range_le_def split: if_splits)

lemma separated_snoc:
  "separated (ms @ [m]) \<longleftrightarrow> separated ms \<and> proper m \<and> (\<forall>a \<in> set ms. r_end a + 1 < r_start m)"
  by (auto simp: separated_def sorted_wrt_append)

lemma covers_append [simp]: "covers (xs @ ys) = covers xs \<union> covers ys"
  and covers_Cons: "covers (x # xs) = {r_start x..r_end x} \<union> covers xs"
  and covers_Nil [simp]: "covers [] = {}"
  by (auto simp: covers_def)

lemma separated_end_less:
  "separated ms \<Longrightarrow> a \<in> set (butlast ms) \<Longrightarrow> ms \<noteq> [] \<Longrightarrow> r_end a + 1 < r_start (last ms)"
  by (metis append_butlast_last_id separated_snoc)

lemma merge_step_separated:
  assumes "separated ms" "proper r" "ms \<noteq> [] \<Longrightarrow> r_start (last ms) \<le> r_start r"
  shows "separated (merge_step ms r) \<and> covers (merge_step ms r) = covers ms \<union> {r_start r..r_end r}
    \<and> merge_step ms r \<noteq> [] \<and> r_start (last (merge_step ms r)) \<le> r_start r"
proof (cases "ms = []")
  case True
  with assms show ?thesis
    by (simp add: merge_step_def separated_def covers_Cons)
next
  case False
  define l where "l = last ms"
  have ms: "ms = butlast ms @ [l]" using False by (simp add: l_def)
  have bl: "\<forall>a \<in> set (butlast ms). r_end a + 1 < r_start l"
    using assms(1) separated_end_less False by (auto simp: l_def)
  have sep: "separated (butlast ms)" and pl: "proper l"
    using assms(1) ms separated_snoc by metis+
  have le: "r_start l \<le> r_start r" using assms(3) False by (simp add: l_def)
  have cov: "covers ms = covers (butlast ms) \<union> {r_start l..r_end l}"
    using ms by (metis covers_append covers_Cons covers_Nil sup_bot_right)
  show ?thesis
  proof (cases "r_start r > r_end l + 1")
    case True
    then have "\<forall>a \<in> set ms. r_end a + 1 < r_start r"
      using bl pl ms by (metis Un_iff dual_order.strict_trans le_less_trans less_SucI Suc_eq_plus1
          empty_iff empty_set insert_iff list.simps(15) proper_def set_append less_add_one)
    with True assms False show ?thesis
      by (simp add: merge_step_def l_def separated_snoc covers_Cons)
  next
    case gap: False
    let ?m = "l\<lparr>r_end := max (r_end l) (r_end r)\<rparr>"
    have "merge_step ms r = butlast ms @ [?m]"
      using gap False by (simp add: merge_step_def l_def)
    moreover have "separated (butlast ms @ [?m])"
      using sep bl pl by (simp add: separated_snoc proper_def max_def)
    moreover have "{r_start l..r_end l} \<union> {r_start r..r_end r} = {r_start ?m..r_end ?m}"
      using gap le pl assms(2) by (auto simp: proper_def max_def)
    ultimately show ?thesis
      using le cov by (simp add: covers_Cons Un_assoc)
  qed
qed

lemma foldl_merge_step:
  assumes "separated ms" "\<forall>r \<in> set rs. proper r" "sorted_wrt range_le rs"
    "ms \<noteq> [] \<Longrightarrow> \<forall>r \<in> set rs. r_start (last ms) \<le> r_start r"
  shows "separated (foldl merge_step ms rs) \<and> covers (foldl merge_step ms rs) = covers ms \<union> covers rs"
  using assms
proof (induction rs arbitrary: ms)
  case (Cons r rs)
  then have st: "separated (merge_step ms r)"
    "covers (merge_step ms r) = covers ms \<union> {r_start r..r_end r}"
    "r_start (last (merge_step ms r)) \<le> r_start r"
    using merge_step_separated [of ms r] by auto
  have "\<forall>x \<in> set rs. r_start r \<le> r_start x"
    using Cons.prems(3) range_le_start by auto
  then have "\<forall>x \<in> set rs. r_start (last (merge_step ms r)) \<le> r_start x"
    using st(3) order_trans by blast
  with Cons.IH [of "merge_step ms r"] Cons.prems st show ?case
    by (simp add: covers_Cons Un_assoc)
qed simp

lemma mergeRanges_separated: "\<forall>r \<in> set rs. proper r \<Longrightarrow> separated (mergeRanges rs)"
  and mergeRanges_covers: "\<forall>r \<in> set rs. proper r \<Longrightarrow> covers (mergeRanges rs) = covers rs"
proof -
  assume *: "\<forall>r \<in> set rs. proper r"
  have s: "sorted_wrt range_le (sort_by range_le rs)"
    by (rule sorted_sort_by) (use range_le_total range_le_trans in blast)+
  have "covers (sort_by range_le rs) = covers rs" by (simp add: covers_def)
  with foldl_merge_step [of "[]" "sort_by range_le rs"] s *
  show "separated (mergeRanges rs)" and "covers (mergeRanges rs) = covers rs"
    by (auto simp: mergeRanges_def separated_def)
qed

lemma separated_Cons:
  "separated (r # rs) \<longleftrightarrow> proper r \<and> separated rs \<and> (\<forall>x \<in> covers rs. r_end r + 1 < x)"
  by (fastforce simp: separated_def covers_def proper_def)

lemma separated_first_gap:
  assumes "separated (r # rs)"
  shows "r_end r + 1 \<notin> covers (r # rs)" "{r_start r..r_end r} \<subseteq> covers (r # rs)"
    "\<forall>x \<in> covers (r # rs). r_start r \<le> x"
  using assms by (auto simp: separated_Cons covers_Cons proper_def)

lemma separated_unique: "separated xs \<Longrightarrow> separated ys \<Longrightarrow> covers xs = covers ys \<Longrightarrow> xs = ys"
proof (induction xs arbitrary: ys)
  case Nil
  then show ?case by (cases ys) (auto simp: separated_Cons covers_Cons proper_def)
next
  case (Cons x xs)
  then obtain y ys' where ys: "ys = y # ys'"
    by (cases ys) (auto simp: separated_Cons covers_Cons proper_def)
  have px: "proper x" and py: "proper y" using Cons.prems ys by (auto simp: separated_Cons)
  have gx: "r_end x + 1 \<notin> covers (x # xs)" "{r_start x..r_end x} \<subseteq> covers (x # xs)"
    "\<forall>z \<in> covers (x # xs). r_start x \<le> z"
    using separated_first_gap Cons.prems(1) by blast+
  have gy: "r_end y + 1 \<notin> covers (x # xs)" "{r_start y..r_end y} \<subseteq> covers (x # xs)"
    "\<forall>z \<in> covers (x # xs). r_start y \<le> z"
    using separated_first_gap [of y ys'] Cons.prems ys by auto
  have "r_start x \<in> covers (x # xs)" "r_start y \<in> covers (x # xs)"
    using gx(2) gy(2) px py by (auto simp: proper_def)
  with gx(3) gy(3) have st: "r_start x = r_start y" by force
  have "r_end x = r_end y"
  proof (rule linorder_cases [of "r_end x" "r_end y"])
    assume "r_end x < r_end y"
    then have "r_end x + 1 \<in> {r_start y..r_end y}" using px st by (auto simp: proper_def)
    with gy(2) gx(1) show ?thesis by blast
  next
    assume "r_end y < r_end x"
    then have "r_end y + 1 \<in> {r_start x..r_end x}" using py st by (auto simp: proper_def)
    with gx(2) gy(1) show ?thesis by blast
  qed
  with st have xy: "x = y" by simp
  have "covers zs = covers (z # zs) - {r_start z..r_end z}" if "separated (z # zs)" for z zs
    using that by (fastforce simp: separated_Cons covers_Cons)
  then have "covers xs = covers ys'" using Cons.prems ys xy by metis
  with Cons.IH Cons.prems ys xy show ?case by (auto simp: separated_Cons)
qed

interpretation ranges_cf: canonical_form mergeRanges "\<lambda>rs. \<forall>r \<in> set rs. proper r" separated covers
  by unfold_locales
    (auto simp: mergeRanges_separated mergeRanges_covers separated_unique, auto simp: separated_def)

subsection \<open>The parser\<close>

lemma isNumber_iff: "isNumber s \<longleftrightarrow> s \<noteq> [] \<and> list_all is_digit s"
  unfolding isNumber_def by (rule rx_test_all_plus)

lemma isNumber_nat_str [simp]: "isNumber (nat_str n)"
  by (auto simp: isNumber_iff list_all_iff nat_str_digits)

lemma dash_not_digit: "\<not> is_digit (CHR ''-'')" and comma_not_digit: "\<not> is_digit (CHR '','')"
  by (simp_all add: is_digit_def)

lemma nat_str_no_dash [simp]: "CHR ''-'' \<notin> set (nat_str n)"
  and nat_str_no_comma [simp]: "CHR '','' \<notin> set (nat_str n)"
  using nat_str_digits dash_not_digit comma_not_digit by blast+

definition valid_range :: "StatusCodeRange \<Rightarrow> bool" where
  "valid_range r \<longleftrightarrow> isValidCode (r_start r) \<and> isValidCode (r_end r) \<and> proper r"

lemma parseToken_valid: "parseToken t = Some r \<Longrightarrow> valid_range r"
  by (auto simp: parseToken_def valid_range_def proper_def Let_def split: if_splits)

lemma range_token_chars: "c \<in> set (range_token r) \<Longrightarrow> is_digit c \<or> c = CHR ''-''"
  by (auto simp: range_token_def nat_str_digits split: if_splits)

lemma range_token_no_space: "c \<in> set (range_token r) \<Longrightarrow> \<not> is_space c"
  using range_token_chars is_digit_not_space by (auto simp: is_space_def)

lemma range_token_facts [simp]:
  "range_token r \<noteq> []" "CHR '','' \<notin> set (range_token r)" "trim (range_token r) = range_token r"
  "filter (\<lambda>c. \<not> is_space c) (range_token r) = range_token r"
  using range_token_chars [of "CHR '',''" r] range_token_no_space [of _ r] comma_not_digit
  by (simp add: range_token_def, blast, blast intro: trim_no_space, simp)

lemma parseToken_range_token [simp]:
  assumes "valid_range r" shows "parseToken (range_token r) = Some r"
proof (cases "r_start r = r_end r")
  case True
  then have t: "range_token r = nat_str (r_start r)" by (simp add: range_token_def)
  have "filter (\<lambda>c. \<not> is_space c) (nat_str (r_start r)) = nat_str (r_start r)"
    using range_token_facts(4) [of r] t by simp
  with True assms show ?thesis
    unfolding parseToken_def t by (simp add: includes_single valid_range_def Let_def)
next
  case False
  then have t: "range_token r = nat_str (r_start r) @ CHR ''-'' # nat_str (r_end r)"
    by (simp add: range_token_def)
  have f: "filter (\<lambda>c. \<not> is_space c) (trim (range_token r)) = range_token r" by simp
  have s: "splitc (CHR ''-'') (range_token r) = [nat_str (r_start r), nat_str (r_end r)]"
    unfolding t by (simp add: splitc_append splitc_no_sep)
  have "includes_str ''-'' (range_token r)" by (simp add: t includes_single)
  with assms show ?thesis
    by (simp add: parseToken_def f s valid_range_def proper_def)
qed

lemma rule_segments_join:
  assumes "ts \<noteq> []" "\<forall>t \<in> set ts. t \<noteq> [] \<and> CHR '','' \<notin> set t \<and> trim t = t"
  shows "rule_segments (join '','' ts) = ts"
proof -
  have "splitc (CHR '','') (join '','' ts) = ts" using assms by (simp add: splitc_join)
  moreover have "map trim ts = ts" using assms(2) by (simp add: map_idI)
  moreover have "filter (\<lambda>s. s \<noteq> []) ts = ts" using assms(2) by (simp add: filter_id_conv)
  ultimately show ?thesis by (simp add: rule_segments_def)
qed

lemma trim_join_tokens:
  "\<forall>t \<in> set ts. \<forall>c \<in> set t. \<not> is_space c \<Longrightarrow> trim (join '','' ts) = join '','' ts"
proof (rule trim_no_space, rule ballI)
  fix c
  assume ns: "\<forall>t \<in> set ts. \<forall>c \<in> set t. \<not> is_space c" and "c \<in> set (join '','' ts)"
  from join_mem [OF this(2)] consider t where "t \<in> set ts" "c \<in> set t" | "c = CHR '',''" by auto
  then show "\<not> is_space c" using ns by cases (simp_all add: is_space_def)
qed

text \<open>The source text of a rule and the segments the parser reads.\<close>

definition rules_text :: "jsval \<Rightarrow> string" where
  "rules_text input = trim (to_str (if nullish input then JStr [] else input))"

definition rule_ranges :: "jsval \<Rightarrow> StatusCodeRange list" where
  "rule_ranges input =
     map the (filter (\<lambda>r. r \<noteq> None) (map parseToken (rule_segments (rules_text input))))"

lemma rule_segments_Nil [simp]: "rule_segments [] = []"
  by (simp add: rule_segments_def)

lemma mergeRanges_Nil [simp]: "mergeRanges [] = []"
  by (simp add: mergeRanges_def)

lemma parse_rules_unfold:
  "parseHttpStatusCodeRules input =
     (let invalid = filter (\<lambda>s. parseToken s = None) (rule_segments (rules_text input))
      in if invalid \<noteq> [] then
           \<lparr>pr_ok = False, pr_ranges = [], pr_tokens = [], pr_normalized = rules_text input,
            pr_invalidTokens = invalid\<rparr>
         else
           \<lparr>pr_ok = True, pr_ranges = mergeRanges (rule_ranges input),
            pr_tokens = map range_token (mergeRanges (rule_ranges input)),
            pr_normalized = join '','' (map range_token (mergeRanges (rule_ranges input))),
            pr_invalidTokens = []\<rparr>)"
  unfolding parseHttpStatusCodeRules_def rules_text_def [symmetric] Let_def rule_ranges_def
  by simp

lemma rule_ranges_valid: "r \<in> set (rule_ranges input) \<Longrightarrow> valid_range r"
  by (auto simp: rule_ranges_def dest: parseToken_valid)

lemma valid_range_proper: "valid_range r \<Longrightarrow> proper r"
  by (simp add: valid_range_def)

lemma rule_ranges_proper: "\<forall>r \<in> set (rule_ranges input). proper r"
  using rule_ranges_valid valid_range_proper by blast

lemma mergeRanges_valid:
  assumes "\<forall>r \<in> set rs. valid_range r" "r \<in> set (mergeRanges rs)"
  shows "valid_range r"
proof -
  have p: "\<forall>r \<in> set rs. proper r" using assms(1) valid_range_proper by blast
  have pr: "proper r"
    using mergeRanges_separated [OF p] assms(2) by (auto simp: separated_def)
  have in_cov: "{r_start r..r_end r} \<subseteq> covers (mergeRanges rs)"
    using assms(2) unfolding covers_def by (rule UN_upper)
  have "r_start r \<in> covers (mergeRanges rs)" "r_end r \<in> covers (mergeRanges rs)"
    by (rule subsetD [OF in_cov], use pr in \<open>simp add: proper_def\<close>)+
  then have "r_start r \<in> covers rs" "r_end r \<in> covers rs" by (simp_all add: mergeRanges_covers p)
  moreover have "isValidCode c" if "c \<in> covers rs" for c
  proof -
    from that obtain q where "q \<in> set rs" "r_start q \<le> c" "c \<le> r_end q"
      by (auto simp: covers_def)
    with assms(1) show ?thesis by (auto simp: valid_range_def isValidCode_def)
  qed
  ultimately show ?thesis using pr by (simp add: valid_range_def)
qed

text \<open>C5: Merging the ranges of a rule is a canonical form: the merged ranges are ascending,
  disjoint and not adjacent, cover exactly the codes the given ranges cover, and are the only
  such list of ranges.\<close>

theorem mergeRanges_canonical:
  assumes "\<forall>r \<in> set rs. proper r"
  shows "separated (mergeRanges rs) \<and> covers (mergeRanges rs) = covers rs \<and>
    (\<forall>rs'. separated rs' \<and> covers rs' = covers rs \<longrightarrow> rs' = mergeRanges rs)"
  using assms ranges_cf.norm_normal ranges_cf.norm_meaning ranges_cf.normal_unique by metis

theorem mergeRanges_canonical_witness:
  "separated (mergeRanges [\<lparr>r_start = 500, r_end = 503\<rparr>, \<lparr>r_start = 400, r_end = 499\<rparr>]) \<and>
   mergeRanges [\<lparr>r_start = 500, r_end = 503\<rparr>, \<lparr>r_start = 400, r_end = 499\<rparr>] =
     [\<lparr>r_start = 400, r_end = 503\<rparr>]"
proof -
  have "\<forall>r \<in> set [\<lparr>r_start = 500, r_end = 503\<rparr>, \<lparr>r_start = 400, r_end = 499\<rparr>]. proper r"
    by (simp add: proper_def)
  then show ?thesis
    using mergeRanges_canonical
      [of "[\<lparr>r_start = 500, r_end = 503\<rparr>, \<lparr>r_start = 400, r_end = 499\<rparr>]"]
    by (simp add: mergeRanges_def sort_by_def range_le_def merge_step_def)
qed

lemma parse_rules_normalized:
  assumes "\<forall>r \<in> set rs. valid_range r" "separated rs"
  shows "parseHttpStatusCodeRules (JStr (join '','' (map range_token rs))) =
    \<lparr>pr_ok = True, pr_ranges = rs, pr_tokens = map range_token rs,
     pr_normalized = join '','' (map range_token rs), pr_invalidTokens = []\<rparr>"
proof -
  have t: "rules_text (JStr (join '','' (map range_token rs))) = join '','' (map range_token rs)"
    using range_token_no_space by (auto simp: rules_text_def nullish_def intro!: trim_join_tokens)
  have seg: "rule_segments (join '','' (map range_token rs)) = map range_token rs"
    by (cases "rs = []") (simp_all add: rule_segments_join)
  have "map (parseToken \<circ> range_token) rs = map Some rs" using assms(1) by simp
  then have "rule_ranges (JStr (join '','' (map range_token rs))) = rs"
    using assms(1) by (simp add: rule_ranges_def t seg filter_map comp_def map_idI)
  then show ?thesis
    using assms by (simp add: parse_rules_unfold t seg ranges_cf.norm_fixed Let_def filter_empty_conv)
qed

lemma parse_rules_ok_eq:
  assumes "pr_ok (parseHttpStatusCodeRules v)"
  shows "pr_normalized (parseHttpStatusCodeRules v) =
      join '','' (map range_token (mergeRanges (rule_ranges v)))"
    "parseHttpStatusCodeRules v =
      parseHttpStatusCodeRules (JStr (pr_normalized (parseHttpStatusCodeRules v)))"
    "pr_ranges (parseHttpStatusCodeRules v) = mergeRanges (rule_ranges v)"
  using assms parse_rules_normalized [of "mergeRanges (rule_ranges v)"]
    mergeRanges_valid [of "rule_ranges v"] rule_ranges_valid [of _ v]
    mergeRanges_separated [OF rule_ranges_proper [of v]]
  by (auto simp: parse_rules_unfold [of v] Let_def split: if_splits)

text \<open>C34: Normalising a rule is stable: parsing the normalised text of an accepted rule gives the
  same ranges, tokens and normalised text.\<close>

theorem parse_rules_fixpoint:
  assumes "pr_ok (parseHttpStatusCodeRules v)"
  shows "parseHttpStatusCodeRules (JStr (pr_normalized (parseHttpStatusCodeRules v))) =
    parseHttpStatusCodeRules v"
  using parse_rules_ok_eq(2) [OF assms] by simp

theorem parse_rules_fixpoint_witness:
  "parseHttpStatusCodeRules (JStr (pr_normalized (parseHttpStatusCodeRules (JStr ''500, 401-402,403''))))
    = parseHttpStatusCodeRules (JStr ''500, 401-402,403'') \<and>
   pr_normalized (parseHttpStatusCodeRules (JStr ''500, 401-402,403'')) = ''401-403,500''"
proof -
  have "pr_ok (parseHttpStatusCodeRules (JStr ''500, 401-402,403''))" by code_simp
  moreover have "pr_normalized (parseHttpStatusCodeRules (JStr ''500, 401-402,403'')) = ''401-403,500''"
    by code_simp
  ultimately show ?thesis using parse_rules_fixpoint by metis
qed

text \<open>C35: Two accepted rules have the same normalised text exactly when they select the same
  status codes, however they are written.\<close>

theorem parse_rules_same_codes:
  assumes "pr_ok (parseHttpStatusCodeRules v)" "pr_ok (parseHttpStatusCodeRules w)"
  shows "pr_normalized (parseHttpStatusCodeRules v) = pr_normalized (parseHttpStatusCodeRules w) \<longleftrightarrow>
    covers (rule_ranges v) = covers (rule_ranges w)"
proof
  assume "pr_normalized (parseHttpStatusCodeRules v) = pr_normalized (parseHttpStatusCodeRules w)"
  then have "parseHttpStatusCodeRules v = parseHttpStatusCodeRules w"
    using parse_rules_ok_eq(2) [OF assms(1)] parse_rules_ok_eq(2) [OF assms(2)] by simp
  then have "mergeRanges (rule_ranges v) = mergeRanges (rule_ranges w)"
    using parse_rules_ok_eq(3) assms by metis
  then show "covers (rule_ranges v) = covers (rule_ranges w)"
    using ranges_cf.norm_eq_iff rule_ranges_proper by blast
next
  assume "covers (rule_ranges v) = covers (rule_ranges w)"
  then have "mergeRanges (rule_ranges v) = mergeRanges (rule_ranges w)"
    using ranges_cf.norm_eq_iff rule_ranges_proper by blast
  then show "pr_normalized (parseHttpStatusCodeRules v) = pr_normalized (parseHttpStatusCodeRules w)"
    using parse_rules_ok_eq(1) assms by metis
qed

theorem parse_rules_same_codes_witness:
  "pr_normalized (parseHttpStatusCodeRules (JStr ''401,400'')) =
     pr_normalized (parseHttpStatusCodeRules (JStr ''400 - 401'')) \<longleftrightarrow>
   covers (rule_ranges (JStr ''401,400'')) = covers (rule_ranges (JStr ''400 - 401''))"
proof -
  have "pr_ok (parseHttpStatusCodeRules (JStr ''401,400''))"
    "pr_ok (parseHttpStatusCodeRules (JStr ''400 - 401''))" by code_simp+
  then show ?thesis by (rule parse_rules_same_codes)
qed

text \<open>Whatever the input, the ranges returned are separated and stay within the codes 100 to
  599, a rule is rejected exactly when some token is reported, and a rejected rule yields no
  ranges.\<close>

lemma parse_rules_safe:
  "separated (pr_ranges (parseHttpStatusCodeRules v)) \<and>
   covers (pr_ranges (parseHttpStatusCodeRules v)) \<subseteq> {100..599} \<and>
   (pr_ok (parseHttpStatusCodeRules v) \<longleftrightarrow> pr_invalidTokens (parseHttpStatusCodeRules v) = []) \<and>
   (pr_ok (parseHttpStatusCodeRules v) \<or> pr_ranges (parseHttpStatusCodeRules v) = [])"
proof -
  have "{r_start r..r_end r} \<subseteq> {100..599}" if "r \<in> set (mergeRanges (rule_ranges v))" for r
    using mergeRanges_valid [OF _ that] rule_ranges_valid [of _ v]
    by (simp add: valid_range_def isValidCode_def)
  then have "covers (mergeRanges (rule_ranges v)) \<subseteq> {100..599}"
    unfolding covers_def by blast
  then show ?thesis
    using mergeRanges_separated [OF rule_ranges_proper [of v]]
    by (simp add: parse_rules_unfold Let_def separated_def)
qed

text \<open>A token with more than one dash is read up to its second dash: the parser destructures the
  first two parts of the split.\<close>

lemma parseToken_ignores_rest: "parseToken ''100-200-abc'' = parseToken ''100-200''"
  by code_simp

subsection \<open>The redirect guard\<close>

definition NON_REDIRECTABLE_STATUS_CODES :: "nat list" where
  "NON_REDIRECTABLE_STATUS_CODES = js_set [504, 524]"

definition status_code_rx :: rx where
  "status_code_rx =
     Cat Bol (rx_classes [(\<lambda>c. CHR ''1'' \<le> c \<and> c \<le> CHR ''5''), is_digit, is_digit])"

definition parseStatusCodeKey :: "string \<Rightarrow> nat option" where
  "parseStatusCodeKey rawKey =
     (let normalized = trim rawKey in
      if \<not> rx_test status_code_rx normalized then None else Some (parse_nat normalized))"

definition parseStatusCodeMappingTarget :: "jsval \<Rightarrow> nat option" where
  "parseStatusCodeMappingTarget rawValue = (case rawValue of
       JNum n \<Rightarrow>
         (if num_is_integer n then
            (if num_le (Fin 100) n \<and> num_le n (Fin 599) then Some (nat (num_int n)) else None)
          else None)
     | JStr s \<Rightarrow>
         (let normalized = trim s in
          if \<not> rx_test status_code_rx normalized then None
          else let code = parse_nat normalized
               in if 100 \<le> code \<and> code \<le> 599 then Some code else None)
     | _ \<Rightarrow> None)"

text \<open>The common start of the collectors: blank text, text that is not JSON and JSON that is not
  a plain object have no entries.\<close>

definition mapping_entries :: "string \<Rightarrow> (string \<times> jsval) list" where
  "mapping_entries str =
     (if trim str = [] then []
      else case json_parse str of
        None \<Rightarrow> []
      | Some parsed \<Rightarrow>
          (if \<not> truthy parsed \<or> \<not> (is_obj parsed \<or> is_arr parsed) \<or> is_arr parsed then []
           else (case parsed of JObj ob \<Rightarrow> ob | _ \<Rightarrow> [])))"

definition collectInvalidStatusCodeEntries :: "string \<Rightarrow> (string \<times> string) list" where
  "collectInvalidStatusCodeEntries str =
     concat (map (\<lambda>(rawKey, rawValue).
        if parseStatusCodeKey rawKey = None \<or> parseStatusCodeMappingTarget rawValue = None
        then [(rawKey, to_str rawValue)] else []) (mapping_entries str))"

definition risky_mapping :: "string \<times> jsval \<Rightarrow> string list" where
  "risky_mapping = (\<lambda>(rawFrom, rawTo).
     case (parseStatusCodeKey rawFrom, parseStatusCodeMappingTarget rawTo) of
       (Some fromCode, Some toCode) \<Rightarrow>
         (if fromCode \<notin> set NON_REDIRECTABLE_STATUS_CODES then []
          else if fromCode = toCode then []
          else [nat_str fromCode @ '' -> '' @ nat_str toCode])
     | _ \<Rightarrow> [])"

definition collectDisallowedStatusCodeRedirects :: "string \<Rightarrow> string list" where
  "collectDisallowedStatusCodeRedirects str =
     sort_by (\<le>) (js_set (concat (map risky_mapping (mapping_entries str))))"

definition collectNewDisallowedStatusCodeRedirects :: "string \<Rightarrow> string \<Rightarrow> string list" where
  "collectNewDisallowedStatusCodeRedirects originalStr currentStr =
     (let currentRisky = collectDisallowedStatusCodeRedirects currentStr in
      if currentRisky = [] then []
      else let originalRiskySet = js_set (collectDisallowedStatusCodeRedirects originalStr)
           in filter (\<lambda>m. m \<notin> set originalRiskySet) currentRisky)"

lemma status_code_rx_iff:
  "rx_test status_code_rx s \<longleftrightarrow>
    (\<exists>a b c. s = [a, b, c] \<and> CHR ''1'' \<le> a \<and> a \<le> CHR ''5'' \<and> is_digit b \<and> is_digit c)"
  unfolding status_code_rx_def rx_test_classes by (auto simp: list_all2_Cons1)

lemma status_code_value:
  assumes "rx_test status_code_rx s" shows "parse_nat s \<in> {100..599}"
proof -
  obtain a b c where s: "s = [a, b, c]" "CHR ''1'' \<le> a" "a \<le> CHR ''5''" "is_digit b" "is_digit c"
    using assms status_code_rx_iff by blast
  have "1 \<le> digit_val a" "digit_val a \<le> 5" "digit_val b \<le> 9" "digit_val c \<le> 9"
    using s(2-5) by (auto simp: digit_val_def is_digit_def less_eq_char_def)
  then show ?thesis by (simp add: s parse_nat_def)
qed

lemma status_key_range: "parseStatusCodeKey k = Some c \<Longrightarrow> c \<in> {100..599}"
  using status_code_value by (auto simp: parseStatusCodeKey_def Let_def split: if_splits)

lemma status_target_range: "parseStatusCodeMappingTarget v = Some c \<Longrightarrow> c \<in> {100..599}"
proof (cases v)
  case (JNum n)
  assume "parseStatusCodeMappingTarget v = Some c"
  then show ?thesis
    by (cases n) (auto simp: JNum parseStatusCodeMappingTarget_def num_le_def num_int_def floor_le_iff
        le_nat_iff le_floor_iff nat_le_iff split: if_splits)
qed (auto simp: parseStatusCodeMappingTarget_def Let_def split: if_splits)

lemma risky_mapping_mem:
  "m \<in> set (risky_mapping (k, v)) \<longleftrightarrow>
    (\<exists>from to. parseStatusCodeKey k = Some from \<and> parseStatusCodeMappingTarget v = Some to \<and>
       (from = 504 \<or> from = 524) \<and> from \<noteq> to \<and> 100 \<le> to \<and> to \<le> 599 \<and>
       m = nat_str from @ '' -> '' @ nat_str to)"
proof (cases "parseStatusCodeKey k = None \<or> parseStatusCodeMappingTarget v = None")
  case True
  then show ?thesis by (auto simp: risky_mapping_def split: option.splits)
next
  case False
  then obtain a b where ab: "parseStatusCodeKey k = Some a" "parseStatusCodeMappingTarget v = Some b"
    by auto
  then show ?thesis
    using status_target_range [OF ab(2)]
    by (auto simp: risky_mapping_def NON_REDIRECTABLE_STATUS_CODES_def)
qed

text \<open>The guard reports exactly the redirects of 504 and 524: a text is reported when and
  only when some entry of the mapping sends 504 or 524 to another valid code and the text is
  that redirect, and the report is sorted without repetitions.\<close>

lemma disallowed_redirects_exact:
  "sorted (collectDisallowedStatusCodeRedirects str) \<and>
   distinct (collectDisallowedStatusCodeRedirects str) \<and>
   (m \<in> set (collectDisallowedStatusCodeRedirects str) \<longleftrightarrow>
     (\<exists>k v from to. (k, v) \<in> set (mapping_entries str) \<and> parseStatusCodeKey k = Some from \<and>
        parseStatusCodeMappingTarget v = Some to \<and> (from = 504 \<or> from = 524) \<and> from \<noteq> to \<and>
        100 \<le> to \<and> to \<le> 599 \<and> m = nat_str from @ '' -> '' @ nat_str to))"
proof -
  have "sorted_wrt (\<le>) (collectDisallowedStatusCodeRedirects str)"
    unfolding collectDisallowedStatusCodeRedirects_def by (rule sorted_sort_by) auto
  then show ?thesis
    by (simp add: collectDisallowedStatusCodeRedirects_def Bex_def split_paired_Ex risky_mapping_mem)
qed

text \<open>Saving a channel warns about exactly the redirects that are risky now and were not
  risky before the edit, in sorted order.\<close>

lemma new_disallowed_redirects_exact:
  "set (collectNewDisallowedStatusCodeRedirects orig cur) =
     set (collectDisallowedStatusCodeRedirects cur) - set (collectDisallowedStatusCodeRedirects orig) \<and>
   sorted (collectNewDisallowedStatusCodeRedirects orig cur) \<and>
   collectNewDisallowedStatusCodeRedirects cur cur = []"
proof -
  have "sorted_wrt (\<le>) (collectDisallowedStatusCodeRedirects cur)"
    unfolding collectDisallowedStatusCodeRedirects_def by (rule sorted_sort_by) auto
  then show ?thesis
    by (auto simp: collectNewDisallowedStatusCodeRedirects_def Let_def sorted_wrt_filter
        filter_empty_conv)
qed

end
