(* ===== verification/Billing_Expr.thy ===== *)
theory Billing_Expr
  imports Js_Json Js_Regex
begin

section \<open>Billing expressions\<close>

text \<open>
  \<open>web/default/src/features/pricing/lib/billing-expr.ts\<close>: the registry of billing variables, the
  reader of tiered prices, the reader and the printer of request rules (conditional multipliers),
  and the routines that join a billing expression with its request rules and take them apart.

  The regular expressions are those of the source, one definition each.  A request condition is
  the union of the two record types of the source; \<open>PartialCondition\<close> is the type
  \<open>Partial<RequestCondition>\<close>, a field left out being \<open>None\<close>.

  The main results: \<open>rules_roundtrip\<close> (reading back printed rules gives the rules), \<open>split_combine\<close>
  (taking apart a combined expression gives the parts) and \<open>param_compare_not_reparsed\<close> (the
  printed form of a numeric comparison of a parameter is not read back).
\<close>

subsection \<open>Variable registry\<close>

datatype var_side = SideInput | SideOutput | SideCondition

record BillingVar =
  bv_key :: string
  bv_field :: "string option"
  bv_tierField :: "string option"
  bv_label :: string
  bv_shortLabel :: string
  bv_side :: var_side
  bv_isBase :: bool
  bv_isConditionOnly :: bool
  bv_group :: "string option"

definition price_var ::
  "string \<Rightarrow> string \<Rightarrow> string \<Rightarrow> string \<Rightarrow> string \<Rightarrow> var_side \<Rightarrow> string option \<Rightarrow> BillingVar" where
  "price_var key field tf label short sd grp =
     \<lparr>bv_key = key, bv_field = Some field, bv_tierField = Some tf, bv_label = label,
      bv_shortLabel = short, bv_side = sd, bv_isBase = (grp = None), bv_isConditionOnly = False,
      bv_group = grp\<rparr>"

definition BILLING_VARS :: "BillingVar list" where
  "BILLING_VARS =
    [price_var ''p'' ''inputPrice'' ''input_unit_cost'' ''Input price'' ''Input'' SideInput None,
     price_var ''c'' ''outputPrice'' ''output_unit_cost'' ''Completion price'' ''Output'' SideOutput None,
     \<lparr>bv_key = ''len'', bv_field = None, bv_tierField = None, bv_label = ''Input length'',
      bv_shortLabel = ''Length'', bv_side = SideCondition, bv_isBase = False,
      bv_isConditionOnly = True, bv_group = None\<rparr>,
     price_var ''cr'' ''cacheReadPrice'' ''cache_read_unit_cost'' ''Cache read price'' ''Cache Read''
       SideInput (Some ''cache''),
     price_var ''cc'' ''cacheCreatePrice'' ''cache_create_unit_cost'' ''Cache create price''
       ''Cache Write'' SideInput (Some ''cache''),
     price_var ''cc1h'' ''cacheCreate1hPrice'' ''cache_create_1h_unit_cost'' ''Cache create (1h) price''
       ''Cache Write (1h)'' SideInput (Some ''cache''),
     price_var ''img'' ''imagePrice'' ''image_unit_cost'' ''Image input price'' ''Image In''
       SideInput (Some ''media''),
     price_var ''img_o'' ''imageOutputPrice'' ''image_output_unit_cost'' ''Image output price''
       ''Image Out'' SideOutput (Some ''media''),
     price_var ''ai'' ''audioInputPrice'' ''audio_input_unit_cost'' ''Audio input price'' ''Audio In''
       SideInput (Some ''media''),
     price_var ''ao'' ''audioOutputPrice'' ''audio_output_unit_cost'' ''Audio output price''
       ''Audio Out'' SideOutput (Some ''media'')]"

definition BILLING_PRICING_VARS :: "BillingVar list" where
  "BILLING_PRICING_VARS = filter (\<lambda>v. \<not> bv_isConditionOnly v) BILLING_VARS"

definition BILLING_CONDITION_VARS :: "string list" where
  "BILLING_CONDITION_VARS =
     map bv_key (filter (\<lambda>v. bv_isBase v \<or> bv_isConditionOnly v) BILLING_VARS)"

definition BILLING_VAR_KEY_TO_FIELD :: "string jsobj" where
  "BILLING_VAR_KEY_TO_FIELD = obj_of (map (\<lambda>v. (bv_key v, the (bv_field v))) BILLING_PRICING_VARS)"

definition BILLING_EXTRA_VARS :: "BillingVar list" where
  "BILLING_EXTRA_VARS = filter (\<lambda>v. \<not> bv_isBase v \<and> \<not> bv_isConditionOnly v) BILLING_VARS"

definition BILLING_CACHE_VAR_MAP :: "(string \<times> string) list" where
  "BILLING_CACHE_VAR_MAP = map (\<lambda>v. (the (bv_tierField v), bv_key v)) BILLING_EXTRA_VARS"

text \<open>The character classes of the regular expressions.\<close>

definition num_char :: "char \<Rightarrow> bool" where
  "num_char c \<longleftrightarrow> is_digit c \<or> c \<in> set ''.eE+-''"

definition cond_num_char :: "char \<Rightarrow> bool" where
  "cond_num_char c \<longleftrightarrow> is_digit c \<or> c \<in> set ''.eE+''"

definition not_quote :: "char \<Rightarrow> bool" where
  "not_quote c \<longleftrightarrow> c \<noteq> CHR 0x22"

definition dot_char :: "char \<Rightarrow> bool" where
  "dot_char c \<longleftrightarrow> c \<noteq> CHR 0x0A \<and> c \<noteq> CHR 0x0D"

abbreviation "spaces \<equiv> Star (Chr is_space)"
abbreviation "chr c \<equiv> Chr (\<lambda>x. x = c)"
abbreviation "one_of s \<equiv> Chr (\<lambda>x. x \<in> set s)"

definition alternatives :: "string list \<Rightarrow> rx" where
  "alternatives ws = alts (hd ws) (tl ws)"

definition BILLING_VAR_REGEX :: rx where
  "BILLING_VAR_REGEX =
     cats [WordB, Grp 1 (alternatives (map bv_key BILLING_PRICING_VARS)), spaces, chr (CHR ''*''),
           spaces, Grp 2 (rx_plus (Chr num_char))]"

subsection \<open>Request rule constants and types\<close>

definition SOURCE_PARAM :: string where "SOURCE_PARAM = ''param''"
definition SOURCE_HEADER :: string where "SOURCE_HEADER = ''header''"
definition SOURCE_TIME :: string where "SOURCE_TIME = ''time''"

definition MATCH_EQ :: string where "MATCH_EQ = ''eq''"
definition MATCH_CONTAINS :: string where "MATCH_CONTAINS = ''contains''"
definition MATCH_GT :: string where "MATCH_GT = ''gt''"
definition MATCH_GTE :: string where "MATCH_GTE = ''gte''"
definition MATCH_LT :: string where "MATCH_LT = ''lt''"
definition MATCH_LTE :: string where "MATCH_LTE = ''lte''"
definition MATCH_EXISTS :: string where "MATCH_EXISTS = ''exists''"
definition MATCH_RANGE :: string where "MATCH_RANGE = ''range''"

lemmas match_defs = SOURCE_PARAM_def SOURCE_HEADER_def SOURCE_TIME_def MATCH_EQ_def
  MATCH_CONTAINS_def MATCH_GT_def MATCH_GTE_def MATCH_LT_def MATCH_LTE_def MATCH_EXISTS_def
  MATCH_RANGE_def

definition TIME_FUNCS :: "string list" where
  "TIME_FUNCS = [''hour'', ''minute'', ''weekday'', ''month'', ''day'']"

definition NUMERIC_LITERAL_REGEX :: rx where
  "NUMERIC_LITERAL_REGEX =
     cats [Bol,
       cats [rx_opt (chr (CHR ''-'')),
         Alt (cats [rx_plus (Chr is_digit), rx_opt (chr (CHR ''.'')), Star (Chr is_digit)])
             (cats [chr (CHR ''.''), rx_plus (Chr is_digit)]),
         rx_opt (cats [one_of ''eE'', rx_opt (one_of ''+-''), rx_plus (Chr is_digit)])],
       Eol]"

record ParamHeaderCondition =
  ph_source :: string
  ph_path :: string
  ph_mode :: string
  ph_value :: string

record TimeCondition =
  tc_timeFunc :: string
  tc_timezone :: string
  tc_mode :: string
  tc_value :: string
  tc_rangeStart :: string
  tc_rangeEnd :: string

datatype RequestCondition = TimeC TimeCondition | ParamHeaderC ParamHeaderCondition

record RequestRuleGroup =
  rg_conditions :: "RequestCondition list"
  rg_multiplier :: string

record TierCondition =
  tcond_var :: string
  tcond_op :: string
  tcond_value :: jsnum

record ParsedTier =
  pt_label :: string
  pt_conditions :: "TierCondition list"
  pt_fields :: "jsnum jsobj"

subsection \<open>Tier parser\<close>

definition version_rx :: rx where
  "version_rx = cats [Bol, chr (CHR ''v''), Grp 1 (rx_plus (Chr is_digit)), chr (CHR '':''),
     Grp 2 (Star (Chr (\<lambda>_. True))), Eol]"

definition stripExprVersion :: "string \<Rightarrow> jsnum \<times> string" where
  "stripExprVersion exprStr =
     (if exprStr = [] then (Fin 1, [])
      else case rx_match version_rx exprStr of
        Some m \<Rightarrow> (str_to_num (cap 1 m), cap 2 m)
      | None \<Rightarrow> (Fin 1, exprStr))"

definition tier_coeffs :: "string \<Rightarrow> jsnum jsobj" where
  "tier_coeffs bodyStr =
     foldl (\<lambda>coeffs m. if cap 1 m \<in> set (map fst coeffs) then coeffs
                       else obj_set (cap 1 m) (str_to_num (cap 2 m)) coeffs)
       [] (rx_match_all BILLING_VAR_REGEX bodyStr)"

definition num_or_zero :: "jsnum option \<Rightarrow> jsnum" where
  "num_or_zero v = (case v of Some n \<Rightarrow> (if num_truthy n then n else Fin 0) | None \<Rightarrow> Fin 0)"

definition parseTierBody :: "string \<Rightarrow> jsnum jsobj" where
  "parseTierBody bodyStr =
     (let coeffs = tier_coeffs bodyStr in
      foldl (\<lambda>tier (varName, field). obj_set field (num_or_zero (map_of coeffs varName)) tier)
        [] BILLING_VAR_KEY_TO_FIELD)"

definition cond_atom :: rx where
  "cond_atom = cats [alts ''p'' [''c'', ''len''], spaces, alts ''<'' [''<='', ''>'', ''>=''], spaces,
     rx_plus (Chr cond_num_char)]"

definition condGroup :: rx where
  "condGroup = Grp 1 (Cat cond_atom (Star (cats [spaces, lit ''&&'', spaces, cond_atom])))"

definition tierRe :: rx where
  "tierRe = cats [rx_opt (cats [condGroup, spaces, chr (CHR ''?''), spaces]),
     lit ''tier('', chr (CHR 0x22), Grp 2 (Star (Chr not_quote)), chr (CHR 0x22), chr (CHR '',''), spaces,
     Grp 3 (rx_plus (Chr (\<lambda>c. c \<noteq> CHR '')''))), chr (CHR '')'')]"

definition and_sep_rx :: rx where
  "and_sep_rx = cats [spaces, lit ''&&'', spaces]"

definition tier_cond_rx :: rx where
  "tier_cond_rx = cats [Bol, Grp 1 (alts ''p'' [''c'', ''len'']), spaces,
     Grp 2 (alts ''<'' [''<='', ''>'', ''>='']), spaces, Grp 3 (rx_plus (Chr cond_num_char)), Eol]"

definition parse_tier_conditions :: "string \<Rightarrow> TierCondition list" where
  "parse_tier_conditions condStr =
     (if condStr = [] then []
      else concat (map (\<lambda>cp. case rx_match tier_cond_rx (trim cp) of
               Some cm \<Rightarrow> [\<lparr>tcond_var = cap 1 cm, tcond_op = cap 2 cm,
                            tcond_value = str_to_num (cap 3 cm)\<rparr>]
             | None \<Rightarrow> []) (rx_split and_sep_rx condStr)))"

definition parseTiersFromExpr :: "string \<Rightarrow> ParsedTier list" where
  "parseTiersFromExpr exprStr =
     (if exprStr = [] then []
      else map (\<lambda>m. \<lparr>pt_label = cap 2 m, pt_conditions = parse_tier_conditions (cap 1 m),
                     pt_fields = parseTierBody (cap 3 m)\<rparr>)
             (rx_match_all tierRe (snd (stripExprVersion exprStr))))"

fun drop_eq_after :: "char \<Rightarrow> string \<Rightarrow> string" where
  "drop_eq_after d [] = []"
| "drop_eq_after d (c # cs) =
     (if c = d then (case cs of
          e # ds \<Rightarrow> (if e = CHR ''='' then d # drop_eq_after d ds else d # drop_eq_after d cs)
        | [] \<Rightarrow> [d])
      else c # drop_eq_after d cs)"

definition normalizeTierLabel :: "string \<Rightarrow> string" where
  "normalizeTierLabel label =
     (if label = [] then []
      else to_lower (filter (\<lambda>c. \<not> is_space c)
             (drop_eq_after (CHR ''>'') (drop_eq_after (CHR ''<'') label))))"

subsection \<open>Request rule parser\<close>

definition paren_step :: "int \<Rightarrow> char \<Rightarrow> int" where
  "paren_step depth c =
     (depth + (if c = CHR ''('' then 1 else 0)) - (if c = CHR '')'' then 1 else 0)"

function split_top :: "string \<Rightarrow> int \<Rightarrow> string \<Rightarrow> string \<Rightarrow> string list" where
  "split_top sep depth cur [] = [trim (rev cur)]"
| "split_top sep depth cur (c # cs) =
     (let depth' = paren_step depth c in
      if depth' = 0 \<and> starts_with sep (c # cs)
      then trim (rev cur) # split_top sep depth' [] (drop (length sep - 1) cs)
      else split_top sep depth' (c # cur) cs)"
  by pat_completeness auto
termination by (relation "measure (\<lambda>(_, _, _, s). length s)") auto

definition splitTopLevelMultiply :: "string \<Rightarrow> string list" where
  "splitTopLevelMultiply expr = filter (\<lambda>p. p \<noteq> []) (split_top '' * '' 0 [] expr)"

definition splitTopLevelAnd :: "string \<Rightarrow> string list" where
  "splitTopLevelAnd expr = filter (\<lambda>p. p \<noteq> []) (split_top '' && '' 0 [] expr)"

text \<open>The result of \<open>parseExprLiteral\<close> is declared a string or null; \<open>JSON.parse\<close> can return any
  value, so it is a \<^typ>\<open>jsval\<close> with \<^const>\<open>JNull\<close> for null.\<close>

definition parseExprLiteral :: "string \<Rightarrow> jsval" where
  "parseExprLiteral raw =
     (let text = trim raw in
      if text = ''true'' \<or> text = ''false'' then JStr text
      else if rx_test NUMERIC_LITERAL_REGEX text then JStr text
      else case json_parse text of Some v \<Rightarrow> v | None \<Rightarrow> JNull)"

abbreviation "dq \<equiv> [CHR 0x22]"

definition time_func_rx :: rx where
  "time_func_rx = Grp 1 (alternatives [''hour'', ''minute'', ''weekday'', ''month'', ''day''])"

definition time_range_body :: "rx list" where
  "time_range_body =
     [time_func_rx, lit (''('' @ dq), Grp 2 (rx_plus (Chr not_quote)), lit (dq @ '') >= ''),
      Grp 3 (rx_plus (Chr num_char)), lit '' || '', Ref 1, lit (''('' @ dq), Ref 2,
      lit (dq @ '') < ''), Grp 4 (rx_plus (Chr num_char))]"

definition time_range_rx :: rx where
  "time_range_rx = cats ([Bol] @ time_range_body @ [Eol])"

definition time_range_paren_rx :: rx where
  "time_range_paren_rx = cats ([Bol, lit ''(''] @ time_range_body @ [lit '')'', Eol])"

definition time_cmp_rx :: rx where
  "time_cmp_rx =
     cats [Bol, time_func_rx, lit (''('' @ dq), Grp 2 (rx_plus (Chr not_quote)), lit (dq @ '') ''),
       Grp 3 (alts ''=='' [''>='', ''<'']), lit '' '', Grp 4 (rx_plus (Chr num_char)), Eol]"

definition time_range_cond :: "caps \<Rightarrow> RequestCondition" where
  "time_range_cond m =
     TimeC \<lparr>tc_timeFunc = cap 1 m, tc_timezone = cap 2 m, tc_mode = MATCH_RANGE, tc_value = [],
            tc_rangeStart = cap 3 m, tc_rangeEnd = cap 4 m\<rparr>"

definition time_op_mode :: "string \<Rightarrow> string" where
  "time_op_mode op =
     (case map_of [(''=='', MATCH_EQ), (''>='', MATCH_GTE), (''<'', MATCH_LT)] op of
        Some mode \<Rightarrow> mode | None \<Rightarrow> MATCH_EQ)"

definition tryParseTimeCondition :: "string \<Rightarrow> RequestCondition option" where
  "tryParseTimeCondition expr =
     (case rx_match time_range_rx expr of
        Some m \<Rightarrow> Some (time_range_cond m)
      | None \<Rightarrow>
     (case rx_match time_range_paren_rx expr of
        Some m \<Rightarrow> Some (time_range_cond m)
      | None \<Rightarrow>
     (case rx_match time_cmp_rx expr of
        Some m \<Rightarrow> Some (TimeC
          \<lparr>tc_timeFunc = cap 1 m, tc_timezone = cap 2 m, tc_mode = time_op_mode (cap 3 m),
           tc_value = cap 4 m, tc_rangeStart = [], tc_rangeEnd = []\<rparr>)
      | None \<Rightarrow> None)))"

definition header_exists_rx :: rx where
  "header_exists_rx = cats [Bol, lit (''header('' @ dq), Grp 1 (rx_plus (Chr not_quote)),
     lit (dq @ '') != '' @ dq @ dq), Eol]"

definition param_exists_rx :: rx where
  "param_exists_rx = cats [Bol, lit (''param('' @ dq), Grp 1 (rx_plus (Chr not_quote)),
     lit (dq @ '') != nil''), Eol]"

definition json_string_rx :: rx where
  "json_string_rx = cats [chr (CHR 0x22),
     Star (Alt (Chr (\<lambda>c. c \<noteq> CHR 0x22 \<and> c \<noteq> CHR 0x5C)) (Cat (chr (CHR 0x5C)) (Chr dot_char))),
     chr (CHR 0x22)]"

definition header_contains_rx :: rx where
  "header_contains_rx = cats [Bol, lit (''has(header('' @ dq), Grp 1 (rx_plus (Chr not_quote)),
     lit (dq @ ''), ''), Grp 2 json_string_rx, lit '')'', Eol]"

definition param_contains_rx :: rx where
  "param_contains_rx = cats [Bol, lit (''param('' @ dq), Grp 1 (rx_plus (Chr not_quote)),
     lit (dq @ '') != nil && has(param('' @ dq), Grp 2 (rx_plus (Chr not_quote)),
     lit (dq @ ''), ''), Grp 3 json_string_rx, lit '')'', Eol]"

definition param_compare_rx :: rx where
  "param_compare_rx = cats [Bol, lit (''param('' @ dq), Grp 1 (rx_plus (Chr not_quote)),
     lit (dq @ '') != nil && param('' @ dq), Grp 2 (rx_plus (Chr not_quote)), lit (dq @ '') ''),
     Grp 3 (alts ''>'' [''>='', ''<'', ''<='']), lit '' '', Grp 4 (rx_plus (Chr num_char)), Eol]"

definition equals_rx :: rx where
  "equals_rx = cats [Bol, Grp 1 (alts ''param'' [''header'']), lit (''('' @ dq),
     Grp 2 (rx_plus (Chr not_quote)), lit (dq @ '') == ''), Grp 3 (rx_plus (Chr dot_char)), Eol]"

definition cmp_op_mode :: "string \<Rightarrow> string" where
  "cmp_op_mode op =
     the (map_of [(''>'', MATCH_GT), (''>='', MATCH_GTE), (''<'', MATCH_LT), (''<='', MATCH_LTE)] op)"

text \<open>The two calls \<open>JSON.parse(m[i])\<close> outside a \<open>try\<close> throw on a text that is not JSON: the
  result type has the exception as \<^const>\<open>None\<close> of the outer option.\<close>

definition json_str_value :: "string \<Rightarrow> string option" where
  "json_str_value t = map_option to_str (json_parse t)"

definition ph_cond :: "string \<Rightarrow> string \<Rightarrow> string \<Rightarrow> string \<Rightarrow> RequestCondition" where
  "ph_cond source path mode v =
     ParamHeaderC \<lparr>ph_source = source, ph_path = path, ph_mode = mode, ph_value = v\<rparr>"

definition parse_equals :: "string \<Rightarrow> RequestCondition option" where
  "parse_equals expr =
     (case rx_match equals_rx expr of
        Some m \<Rightarrow>
          (let parsedValue = parseExprLiteral (cap 3 m) in
           if parsedValue = JNull then None
           else Some (ph_cond (cap 1 m) (cap 2 m) MATCH_EQ (to_str parsedValue)))
      | None \<Rightarrow> None)"

definition parse_compare :: "string \<Rightarrow> RequestCondition option" where
  "parse_compare expr =
     (case rx_match param_compare_rx expr of
        Some m \<Rightarrow>
          (if cap 1 m = cap 2 m
           then Some (ph_cond ''param'' (cap 1 m) (cmp_op_mode (cap 3 m)) (cap 4 m))
           else parse_equals expr)
      | None \<Rightarrow> parse_equals expr)"

definition tryParseRequestCondition :: "string \<Rightarrow> RequestCondition option option" where
  "tryParseRequestCondition expr =
     (case tryParseTimeCondition expr of Some tc \<Rightarrow> Some (Some tc) | None \<Rightarrow>
     (case rx_match header_exists_rx expr of
        Some m \<Rightarrow> Some (Some (ph_cond ''header'' (cap 1 m) MATCH_EXISTS []))
      | None \<Rightarrow>
     (case rx_match param_exists_rx expr of
        Some m \<Rightarrow> Some (Some (ph_cond ''param'' (cap 1 m) MATCH_EXISTS []))
      | None \<Rightarrow>
     (case rx_match header_contains_rx expr of
        Some m \<Rightarrow> map_option (\<lambda>v. Some (ph_cond ''header'' (cap 1 m) MATCH_CONTAINS v))
                    (json_str_value (cap 2 m))
      | None \<Rightarrow>
     (case rx_match param_contains_rx expr of
        Some m \<Rightarrow>
          (if cap 1 m = cap 2 m
           then map_option (\<lambda>v. Some (ph_cond ''param'' (cap 1 m) MATCH_CONTAINS v))
                  (json_str_value (cap 3 m))
           else Some (parse_compare expr))
      | None \<Rightarrow> Some (parse_compare expr))))))"

text \<open>The loops of the two functions below: every part is parsed in turn; the first part that is not
  understood ends the loop with null, the first exception with the exception.\<close>

fun collect_parts :: "(string \<Rightarrow> 'a option option) \<Rightarrow> string list \<Rightarrow> 'a list option option" where
  "collect_parts f [] = Some (Some [])"
| "collect_parts f (p # ps) =
     (case f p of
        None \<Rightarrow> None
      | Some None \<Rightarrow> Some None
      | Some (Some x) \<Rightarrow> map_option (map_option ((#) x)) (collect_parts f ps))"

definition rule_factor_rx :: rx where
  "rule_factor_rx = cats [Bol, lit ''('', Grp 1 (rx_plus (Chr (\<lambda>_. True))), lit '' ? '',
     Grp 2 (rx_plus (Chr num_char)), lit '' : 1)'', Eol]"

definition tryParseRuleGroupFactor :: "string \<Rightarrow> RequestRuleGroup option option" where
  "tryParseRuleGroupFactor part =
     (case rx_match rule_factor_rx part of
        None \<Rightarrow> Some None
      | Some m \<Rightarrow>
          (let conditionStr = cap 1 m; multiplier = cap 2 m;
               andParts = splitTopLevelAnd conditionStr
           in case collect_parts (\<lambda>ap. tryParseRequestCondition (trim ap)) andParts of
                None \<Rightarrow> None
              | Some None \<Rightarrow> Some None
              | Some (Some conditions) \<Rightarrow>
                  Some (if conditions = [] then None
                        else Some \<lparr>rg_conditions = conditions, rg_multiplier = multiplier\<rparr>)))"

definition tryParseRequestRuleExpr :: "string \<Rightarrow> RequestRuleGroup list option option" where
  "tryParseRequestRuleExpr expr =
     (let trimmed = trim expr in
      if trimmed = [] then Some (Some [])
      else collect_parts tryParseRuleGroupFactor (splitTopLevelMultiply trimmed))"

subsection \<open>Combining and splitting\<close>

fun outer_parens_loop :: "int \<Rightarrow> string \<Rightarrow> bool" where
  "outer_parens_loop depth [] = (depth = 0)"
| "outer_parens_loop depth (c # cs) =
     (let depth' = paren_step depth c in
      if depth' = 0 \<and> cs \<noteq> [] then False else outer_parens_loop depth' cs)"

definition hasFullOuterParens :: "string \<Rightarrow> bool" where
  "hasFullOuterParens expr =
     (if \<not> starts_with ''('' expr \<or> \<not> ends_with '')'' expr then False
      else outer_parens_loop 0 expr)"

definition strip_ends :: "string \<Rightarrow> string" where
  "strip_ends s = slice 1 (length s - 1) s"

function unwrap_loop :: "string \<Rightarrow> string" where
  "unwrap_loop current =
     (if hasFullOuterParens current then unwrap_loop (trim (strip_ends current)) else current)"
  by pat_completeness auto
termination
proof (relation "measure length", simp)
  fix s
  assume "hasFullOuterParens s"
  then have "s \<noteq> []" by (auto simp: hasFullOuterParens_def starts_with_single split: if_splits)
  then have "length (strip_ends s) < length s" by (cases s) (auto simp: strip_ends_def slice_def)
  with length_trim_le [of "strip_ends s"]
  show "(trim (strip_ends s), s) \<in> measure length" by simp
qed

declare unwrap_loop.simps [simp del]

definition unwrapOuterParens :: "string \<Rightarrow> string" where
  "unwrapOuterParens expr = unwrap_loop (trim expr)"

fun classify_parts :: "string list \<Rightarrow> (string list \<times> string list) option" where
  "classify_parts [] = Some ([], [])"
| "classify_parts (part # ps) =
     (case tryParseRequestRuleExpr part of
        None \<Rightarrow> None
      | Some parsed \<Rightarrow>
          (case classify_parts ps of
             None \<Rightarrow> None
           | Some (ruleParts, baseParts) \<Rightarrow>
               (if parsed \<noteq> None \<and> 0 < length (the parsed) then Some (part # ruleParts, baseParts)
                else Some (ruleParts, part # baseParts))))"

definition splitBillingExprAndRequestRules :: "string \<Rightarrow> (string \<times> string) option" where
  "splitBillingExprAndRequestRules expr =
     (let trimmed = trim expr in
      if trimmed = [] then Some ([], [])
      else let parts = splitTopLevelMultiply trimmed in
        if length parts \<le> 1 then Some (trimmed, [])
        else case classify_parts parts of
            None \<Rightarrow> None
          | Some (ruleParts, baseParts) \<Rightarrow>
              (if length ruleParts = 0 \<or> length baseParts \<noteq> 1 then Some (trimmed, [])
               else Some (unwrapOuterParens (baseParts ! 0), join '' * '' ruleParts)))"

definition combineBillingExpr :: "string \<Rightarrow> string \<Rightarrow> string" where
  "combineBillingExpr baseExpr requestRuleExpr =
     (let base = trim baseExpr; rules = trim requestRuleExpr in
      if base = [] then []
      else if rules = [] then base
      else ''('' @ base @ '') * '' @ rules)"

subsection \<open>Editor: constructors, options, normalisation\<close>

definition createEmptyCondition :: ParamHeaderCondition where
  "createEmptyCondition =
     \<lparr>ph_source = ''param'', ph_path = [], ph_mode = MATCH_EQ, ph_value = []\<rparr>"

definition createEmptyTimeCondition :: TimeCondition where
  "createEmptyTimeCondition =
     \<lparr>tc_timeFunc = ''hour'', tc_timezone = ''Asia/Shanghai'', tc_mode = MATCH_GTE, tc_value = [],
      tc_rangeStart = [], tc_rangeEnd = []\<rparr>"

definition createEmptyRuleGroup :: RequestRuleGroup where
  "createEmptyRuleGroup =
     \<lparr>rg_conditions = [ParamHeaderC createEmptyCondition], rg_multiplier = []\<rparr>"

definition createEmptyTimeRuleGroup :: RequestRuleGroup where
  "createEmptyTimeRuleGroup =
     \<lparr>rg_conditions = [TimeC createEmptyTimeCondition], rg_multiplier = []\<rparr>"

definition getRequestRuleMatchOptions :: "string \<Rightarrow> (string \<times> string) list" where
  "getRequestRuleMatchOptions source =
     (if source = SOURCE_TIME then
        [(MATCH_EQ, ''Equals''), (MATCH_GTE, ''Greater than or equal''), (MATCH_LT, ''Less than''),
         (MATCH_RANGE, ''Overnight range'')]
      else
        let base = [(MATCH_EQ, ''Equals''), (MATCH_CONTAINS, ''Contains''), (MATCH_EXISTS, ''Exists'')]
        in if source = SOURCE_HEADER then base
           else base @
             [(MATCH_GT, ''Greater than''), (MATCH_GTE, ''Greater than or equal''),
              (MATCH_LT, ''Less than''), (MATCH_LTE, ''Less than or equal'')])"

definition isTimeFunc :: "string option \<Rightarrow> bool" where
  "isTimeFunc v = (case v of Some s \<Rightarrow> s \<in> set TIME_FUNCS | None \<Rightarrow> False)"

record PartialCondition =
  p_source :: "string option"
  p_path :: "string option"
  p_timeFunc :: "string option"
  p_timezone :: "string option"
  p_mode :: "string option"
  p_value :: "string option"
  p_rangeStart :: "string option"
  p_rangeEnd :: "string option"

definition or_default :: "string option \<Rightarrow> string \<Rightarrow> string" where
  "or_default v d = (case v of Some s \<Rightarrow> (if s = [] then d else s) | None \<Rightarrow> d)"

definition str_or_empty :: "string option \<Rightarrow> string" where
  "str_or_empty v = (case v of None \<Rightarrow> [] | Some s \<Rightarrow> s)"

definition mode_or :: "string \<Rightarrow> string option \<Rightarrow> string \<Rightarrow> string" where
  "mode_or source mode d =
     (case mode of
        Some m \<Rightarrow> (if m \<in> set (map fst (getRequestRuleMatchOptions source)) then m else d)
      | None \<Rightarrow> d)"

definition normalizeCondition :: "PartialCondition option \<Rightarrow> RequestCondition" where
  "normalizeCondition cond =
     (let get = (\<lambda>f. case cond of None \<Rightarrow> None | Some c \<Rightarrow> f c);
          source = (if get p_source = Some ''time'' then ''time''
                    else if get p_source = Some ''header'' then ''header'' else ''param'')
      in if source = ''time'' then
           TimeC \<lparr>tc_timeFunc = (if isTimeFunc (get p_timeFunc) then the (get p_timeFunc) else ''hour''),
                  tc_timezone = or_default (get p_timezone) ''Asia/Shanghai'',
                  tc_mode = mode_or SOURCE_TIME (get p_mode) MATCH_GTE,
                  tc_value = str_or_empty (get p_value),
                  tc_rangeStart = str_or_empty (get p_rangeStart),
                  tc_rangeEnd = str_or_empty (get p_rangeEnd)\<rparr>
         else
           ParamHeaderC \<lparr>ph_source = source,
                  ph_path = or_default (get p_path) [],
                  ph_mode = mode_or source (get p_mode) MATCH_EQ,
                  ph_value = str_or_empty (get p_value)\<rparr>)"

text \<open>A full condition is a partial one.\<close>

fun to_partial :: "RequestCondition \<Rightarrow> PartialCondition" where
  "to_partial (TimeC c) =
     \<lparr>p_source = Some ''time'', p_path = None, p_timeFunc = Some (tc_timeFunc c),
      p_timezone = Some (tc_timezone c), p_mode = Some (tc_mode c), p_value = Some (tc_value c),
      p_rangeStart = Some (tc_rangeStart c), p_rangeEnd = Some (tc_rangeEnd c)\<rparr>"
| "to_partial (ParamHeaderC c) =
     \<lparr>p_source = Some (ph_source c), p_path = Some (ph_path c), p_timeFunc = None,
      p_timezone = None, p_mode = Some (ph_mode c), p_value = Some (ph_value c),
      p_rangeStart = None, p_rangeEnd = None\<rparr>"

subsection \<open>Editor: building expressions\<close>

definition buildExprLiteral :: "string \<Rightarrow> string \<Rightarrow> string" where
  "buildExprLiteral mode v =
     (let text = trim v in
      if mode = MATCH_CONTAINS then json_quote text
      else if text = ''true'' \<or> text = ''false'' then text
      else if rx_test NUMERIC_LITERAL_REGEX text then text
      else json_quote text)"

definition time_mode_op :: "string \<Rightarrow> string" where
  "time_mode_op mode =
     (case map_of [(MATCH_EQ, ''==''), (MATCH_GTE, ''>=''), (MATCH_LT, ''<'')] mode of
        Some op \<Rightarrow> op | None \<Rightarrow> ''=='')"

definition buildTimeConditionExpr :: "TimeCondition \<Rightarrow> string" where
  "buildTimeConditionExpr cond =
     (case normalizeCondition (Some (to_partial (TimeC cond))) of
        TimeC n \<Rightarrow>
          (let tz = json_quote (tc_timezone n);
               fn = tc_timeFunc n @ ''('' @ tz @ '')''
           in if tc_mode n = MATCH_RANGE then
                (let s = trim (tc_rangeStart n); e = trim (tc_rangeEnd n) in
                 if \<not> rx_test NUMERIC_LITERAL_REGEX s \<or> \<not> rx_test NUMERIC_LITERAL_REGEX e then []
                 else fn @ '' >= '' @ s @ '' || '' @ fn @ '' < '' @ e)
              else
                (let v = trim (tc_value n) in
                 if \<not> rx_test NUMERIC_LITERAL_REGEX v then []
                 else fn @ '' '' @ time_mode_op (tc_mode n) @ '' '' @ v))
      | ParamHeaderC _ \<Rightarrow> [])"

definition cmp_mode_op :: "string \<Rightarrow> string" where
  "cmp_mode_op mode =
     the (map_of [(MATCH_GT, ''>''), (MATCH_GTE, ''>=''), (MATCH_LT, ''<''), (MATCH_LTE, ''<='')] mode)"

definition build_param_header :: "ParamHeaderCondition \<Rightarrow> string" where
  "build_param_header n =
     (let path = trim (ph_path n) in
      if path = [] then []
      else
        let sourceExpr = (if ph_source n = ''header'' then ''header('' @ json_quote path @ '')''
                          else ''param('' @ json_quote path @ '')'');
            mode = ph_mode n
        in if mode = MATCH_EXISTS then
             (if ph_source n = ''header'' then sourceExpr @ '' != '' @ dq @ dq
              else sourceExpr @ '' != nil'')
           else if mode = MATCH_CONTAINS then
             (if ph_source n = ''header''
              then ''has('' @ sourceExpr @ '', '' @ buildExprLiteral mode (ph_value n) @ '')''
              else sourceExpr @ '' != nil && has('' @ sourceExpr @ '', '' @
                   buildExprLiteral mode (ph_value n) @ '')'')
           else if mode \<in> {MATCH_GT, MATCH_GTE, MATCH_LT, MATCH_LTE} then
             (let numText = trim (ph_value n) in
              if \<not> rx_test NUMERIC_LITERAL_REGEX numText then []
              else sourceExpr @ '' != nil && '' @ sourceExpr @ '' '' @ cmp_mode_op mode @ '' '' @ numText)
           else sourceExpr @ '' == '' @ buildExprLiteral mode (ph_value n))"

fun buildRequestConditionExpr :: "RequestCondition \<Rightarrow> string" where
  "buildRequestConditionExpr (TimeC c) = buildTimeConditionExpr c"
| "buildRequestConditionExpr (ParamHeaderC c) =
     (case normalizeCondition (Some (to_partial (ParamHeaderC c))) of
        ParamHeaderC n \<Rightarrow> build_param_header n
      | TimeC _ \<Rightarrow> [])"

definition wrap_or :: "string \<Rightarrow> string" where
  "wrap_or e = (if includes_str '' || '' e then ''('' @ e @ '')'' else e)"

definition buildRuleGroupFactor :: "RequestRuleGroup \<Rightarrow> string" where
  "buildRuleGroupFactor grp =
     (let multiplier = trim (rg_multiplier grp) in
      if \<not> rx_test NUMERIC_LITERAL_REGEX multiplier then []
      else
        let condExprs = filter (\<lambda>e. e \<noteq> []) (map buildRequestConditionExpr (rg_conditions grp))
        in if length condExprs = 0 then []
           else
             let combined = (if length condExprs = 1 then condExprs ! 0
                             else join '' && '' (map wrap_or condExprs))
             in ''('' @ combined @ '' ? '' @ multiplier @ '' : 1)'')"

definition buildRequestRuleExpr :: "RequestRuleGroup list \<Rightarrow> string" where
  "buildRequestRuleExpr groups =
     join '' * '' (filter (\<lambda>f. f \<noteq> []) (map buildRuleGroupFactor groups))"

end
