(* ===== verification/Billing_Rules.thy ===== *)
theory Billing_Rules
  imports Billing_Expr
begin

section \<open>Request rules: printing and reading back\<close>

text \<open>
  The theorems on the request rules of \<open>billing-expr.ts\<close>.  \<open>splitter\<close> is the contract of a function
  that takes a joined text apart; both top-level splitters fulfil it on parts that are balanced and
  free of the separator.  Each regular expression is characterised by the way it cuts a text
  (lemmas \<open>match_...\<close>), from which reading back what the printer writes follows condition by
  condition, factor by factor and rule by rule.
\<close>

subsection \<open>Top-level splitting\<close>

locale splitter =
  fixes split :: "string \<Rightarrow> string list" and sep :: string and part :: "string \<Rightarrow> bool"
  assumes split_join: "ps \<noteq> [] \<Longrightarrow> \<forall>p \<in> set ps. part p \<Longrightarrow> split (join sep ps) = ps"
begin

lemma split_part: "part p \<Longrightarrow> split p = [p]"
  using split_join [of "[p]"] by simp

lemma split_cons:
  "part p \<Longrightarrow> ps \<noteq> [] \<Longrightarrow> \<forall>q \<in> set ps. part q \<Longrightarrow>
    split (p @ sep @ join sep ps) = p # split (join sep ps)"
  using split_join [of "p # ps"] split_join [of ps] by (simp add: join_Cons)

lemma join_inject:
  "xs \<noteq> [] \<Longrightarrow> ys \<noteq> [] \<Longrightarrow> \<forall>p \<in> set xs. part p \<Longrightarrow> \<forall>p \<in> set ys. part p \<Longrightarrow>
    join sep xs = join sep ys \<longleftrightarrow> xs = ys"
  by (metis split_join)

end

text \<open>The parenthesis depth along a text: where it ends and the least value it takes.\<close>

definition nest :: "int \<Rightarrow> string \<Rightarrow> int" where
  "nest d s = foldl paren_step d s"

fun stays :: "int \<Rightarrow> int \<Rightarrow> string \<Rightarrow> bool" where
  "stays k d [] = True"
| "stays k d (c # cs) = (k \<le> paren_step d c \<and> stays k (paren_step d c) cs)"

definition balanced :: "string \<Rightarrow> bool" where
  "balanced s \<longleftrightarrow> nest 0 s = 0 \<and> stays 0 0 s"

fun top_free :: "string \<Rightarrow> int \<Rightarrow> string \<Rightarrow> bool" where
  "top_free sep d [] = (d = 0)"
| "top_free sep d (c # cs) =
     ((paren_step d c \<noteq> 0 \<or> \<not> starts_with sep (c # cs @ sep)) \<and> top_free sep (paren_step d c) cs)"

definition top_part :: "string \<Rightarrow> string \<Rightarrow> bool" where
  "top_part sep p \<longleftrightarrow> p \<noteq> [] \<and> trimmed p \<and> top_free sep 0 p"

lemma nest_simps [simp]: "nest d [] = d" "nest d (c # s) = nest (paren_step d c) s"
  "nest d (a @ b) = nest (nest d a) b"
  by (simp_all add: nest_def)

lemma stays_append [simp]: "stays k d (a @ b) \<longleftrightarrow> stays k d a \<and> stays k (nest d a) b"
  by (induction a arbitrary: d) auto

lemma paren_step_shift: "paren_step (d + e) c = paren_step d c + e"
  by (simp add: paren_step_def)

lemma nest_shift: "nest (d + e) s = nest d s + e"
  by (induction s arbitrary: d) (auto simp: paren_step_shift)

lemma stays_shift: "stays (k + e) (d + e) s \<longleftrightarrow> stays k d s"
  by (induction s arbitrary: d) (auto simp: paren_step_shift)

lemma stays_mono: "stays k d s \<Longrightarrow> k' \<le> k \<Longrightarrow> stays k' d s"
  by (induction s arbitrary: d) auto

lemma balanced_nest: "balanced s \<Longrightarrow> nest d s = d"
  using nest_shift [of 0 d s] by (simp add: balanced_def)

lemma balanced_stays: "balanced s \<Longrightarrow> k \<le> d \<Longrightarrow> stays k d s"
  using stays_shift [of 0 d 0 s] stays_mono [of d d s k] by (simp add: balanced_def)

lemma balanced_Nil [simp]: "balanced []"
  by (simp add: balanced_def)

lemma balanced_append: "balanced a \<Longrightarrow> balanced b \<Longrightarrow> balanced (a @ b)"
  by (auto simp: balanced_def)

lemma balanced_parens: "balanced a \<Longrightarrow> balanced (CHR ''('' # a @ [CHR '')''])"
  unfolding balanced_def [of "CHR ''('' # _"]
  by (auto simp: balanced_nest balanced_stays paren_step_def)

lemma balanced_flat_Cons: "c \<noteq> CHR ''('' \<Longrightarrow> c \<noteq> CHR '')'' \<Longrightarrow> balanced (c # s) \<longleftrightarrow> balanced s"
  by (simp add: balanced_def paren_step_def)

lemma balanced_flat: "CHR ''('' \<notin> set s \<Longrightarrow> CHR '')'' \<notin> set s \<Longrightarrow> balanced s"
  by (induction s) (auto simp: balanced_flat_Cons)

lemma split_top_cons:
  assumes "top_free sep d p" "sep \<noteq> []" "paren_step 0 (hd sep) = 0"
  shows "split_top sep d cur (p @ sep @ q) = trim (rev cur @ p) # split_top sep 0 [] q"
  using assms(1)
proof (induction p arbitrary: d cur)
  case Nil
  obtain a as where sep: "sep = a # as" using assms(2) by (cases sep) auto
  have "starts_with sep (a # as @ q)" using sep by (metis append_Cons starts_with_append)
  with Nil sep assms(3) show ?case by simp
next
  case (Cons c p)
  have "starts_with sep (c # p @ sep) \<longleftrightarrow> starts_with sep (c # p @ sep @ q)"
    using starts_with_extend [of sep "c # p @ sep" q] by simp
  with Cons show ?case by (auto simp: Let_def)
qed

lemma split_top_last:
  "top_free sep d p \<Longrightarrow> split_top sep d cur p = [trim (rev cur @ p)]"
proof (induction p arbitrary: d cur)
  case (Cons c p)
  have "starts_with sep (c # p) \<Longrightarrow> starts_with sep (c # p @ sep)"
    using starts_with_mono [of sep "c # p" sep] by simp
  with Cons show ?case by (auto simp: Let_def)
qed simp

lemma split_top_join:
  assumes "sep \<noteq> []" "paren_step 0 (hd sep) = 0"
  shows "ps \<noteq> [] \<Longrightarrow> \<forall>p \<in> set ps. top_part sep p \<Longrightarrow> split_top sep 0 [] (join sep ps) = ps"
proof (induction ps)
  case (Cons p ps)
  show ?case
  proof (cases "ps = []")
    case True
    with Cons show ?thesis by (simp add: split_top_last top_part_def trim_id)
  next
    case False
    with Cons show ?thesis
      by (simp add: join_Cons split_top_cons assms top_part_def trim_id)
  qed
qed simp

lemma filter_parts: "\<forall>p \<in> set ps. top_part sep p \<Longrightarrow> filter (\<lambda>p. p \<noteq> []) ps = ps"
  by (auto simp: top_part_def filter_id_conv)

interpretation mul: splitter splitTopLevelMultiply "'' * ''" "top_part '' * ''"
proof
  fix ps assume "ps \<noteq> []" "\<forall>p \<in> set ps. top_part '' * '' p"
  with split_top_join [of "'' * ''" ps] filter_parts [of ps "'' * ''"]
  show "splitTopLevelMultiply (join '' * '' ps) = ps"
    unfolding splitTopLevelMultiply_def by (simp add: paren_step_def)
qed

interpretation conj: splitter splitTopLevelAnd "'' && ''" "top_part '' && ''"
proof
  fix ps assume "ps \<noteq> []" "\<forall>p \<in> set ps. top_part '' && '' p"
  with split_top_join [of "'' && ''" ps] filter_parts [of ps "'' && ''"]
  show "splitTopLevelAnd (join '' && '' ps) = ps"
    unfolding splitTopLevelAnd_def by (simp add: paren_step_def)
qed

text \<open>Two ways to be free of a separator at the top level: not to contain its second character, and to
  be enclosed in parentheses.\<close>

lemma starts_with_second:
  "sep = a # b # r \<Longrightarrow> a \<noteq> b \<Longrightarrow> b \<notin> set (c # cs) \<Longrightarrow> \<not> starts_with sep (c # cs @ sep)"
  by (cases cs) (auto simp: starts_with_iff)

lemma top_free_no_char:
  assumes "sep = a # b # r" "a \<noteq> b"
  shows "b \<notin> set p \<Longrightarrow> nest d p = 0 \<Longrightarrow> top_free sep d p"
proof (induction p arbitrary: d)
  case (Cons c cs)
  then show ?case using starts_with_second [OF assms, of c cs] by simp
qed simp

lemma top_free_inside: "stays 1 d p \<Longrightarrow> top_free sep d (p @ q) \<longleftrightarrow> top_free sep (nest d p) q"
  by (induction p arbitrary: d) auto

lemma top_part_parens:
  assumes "balanced x" "sep \<noteq> []" "hd sep = CHR '' ''"
  shows "top_part sep (''('' @ x @ '')'')"
proof -
  have st: "stays 1 0 (CHR ''('' # x)"
    using balanced_stays [OF assms(1), of 1 1] by (simp add: paren_step_def)
  have ns: "\<not> starts_with sep (CHR '')'' # sep)"
    using assms(2,3) by (cases sep) (auto simp: starts_with_def)
  have "top_free sep 0 ((CHR ''('' # x) @ '')'')"
    unfolding top_free_inside [OF st] using ns
    by (simp add: balanced_nest [OF assms(1)] paren_step_def)
  then show ?thesis by (simp add: top_part_def trimmed_def is_space_def)
qed

lemma top_part_no_amp:
  assumes "balanced p" "CHR ''&'' \<notin> set p" "p \<noteq> []" "trimmed p"
  shows "top_part '' && '' p"
  using top_free_no_char [of "'' && ''" "CHR '' ''" "CHR ''&''" "''& ''" p 0] assms
  by (simp add: top_part_def balanced_nest)

subsection \<open>The regular expressions as cuts\<close>

declare rx_run.simps [simp del] lit.simps [simp del] alts.simps [simp del]

lemma all_not_quote [simp]: "(\<forall>a \<in> set u. not_quote a) \<longleftrightarrow> CHR 0x22 \<notin> set u"
  by (auto simp: not_quote_def)

abbreviation "all_num n \<equiv> n \<noteq> [] \<and> (\<forall>a \<in> set n. num_char a)"

lemma num_char_no: "\<forall>a \<in> set n. num_char a \<Longrightarrow>
    CHR '' '' \<notin> set n \<and> CHR ''('' \<notin> set n \<and> CHR '')'' \<notin> set n \<and> CHR ''&'' \<notin> set n \<and> CHR ''|'' \<notin> set n"
  by (auto simp: num_char_def is_digit_def)

lemma num_trim: "\<forall>a \<in> set n. num_char a \<Longrightarrow> trim n = n"
  by (rule trim_no_space) (auto simp: num_char_def is_digit_def is_space_def)

lemma match_header_exists:
  "rx_match header_exists_rx s = Some c \<longleftrightarrow>
    (\<exists>u. s = ''header('' @ dq @ u @ dq @ '') != '' @ dq @ dq \<and> u \<noteq> [] \<and> CHR 0x22 \<notin> set u \<and> c = [(1, u)])"
  unfolding header_exists_rx_def cats.simps
  by (rule rx_match_det) (auto simp: rx_cuts cut_first_unique)

lemma match_param_exists:
  "rx_match param_exists_rx s = Some c \<longleftrightarrow>
    (\<exists>u. s = ''param('' @ dq @ u @ dq @ '') != nil'' \<and> u \<noteq> [] \<and> CHR 0x22 \<notin> set u \<and> c = [(1, u)])"
  unfolding param_exists_rx_def cats.simps
  by (rule rx_match_det) (auto simp: rx_cuts cut_first_unique)

lemma match_equals:
  "rx_match equals_rx s = Some c \<longleftrightarrow>
    (\<exists>f u v. s = f @ ''('' @ dq @ u @ dq @ '') == '' @ v \<and> (f = ''param'' \<or> f = ''header'') \<and>
      u \<noteq> [] \<and> CHR 0x22 \<notin> set u \<and> v \<noteq> [] \<and> (\<forall>a \<in> set v. dot_char a) \<and>
      c = [(3, v), (2, u), (1, f)])"
  unfolding equals_rx_def cats.simps
  by (rule rx_match_det) (auto simp: rx_cuts cut_first_unique)

lemma match_rule_factor:
  "rx_match rule_factor_rx s = Some c \<longleftrightarrow>
    (\<exists>u n. s = ''('' @ u @ '' ? '' @ n @ '' : 1)'' \<and> u \<noteq> [] \<and> all_num n \<and> c = [(2, n), (1, u)])"
  unfolding rule_factor_rx_def cats.simps
proof (rule rx_match_det, goal_cases)
  case (1 c)
  show ?case by (auto simp: rx_cuts)
next
  case (2 c c')
  then obtain u n u' n' where *: "s = ''('' @ u @ '' ? '' @ n @ '' : 1)''" "all_num n" "c = [(2, n), (1, u)]"
    "s = ''('' @ u' @ '' ? '' @ n' @ '' : 1)''" "all_num n'" "c' = [(2, n'), (1, u')]" by blast
  have "(u @ '' ?'') @ CHR '' '' # n = (u' @ '' ?'') @ CHR '' '' # n'" using *(1,4) by simp
  moreover have "CHR '' '' \<notin> set n" "CHR '' '' \<notin> set n'" using *(2,5) num_char_no by blast+
  ultimately have "u @ '' ?'' = u' @ '' ?'' \<and> n = n'" by (metis cut_last_unique)
  with *(3,6) show ?case by simp
qed

text \<open>The name of a time function is kept folded: five alternatives in each of two texts are
  compared by the position of the parenthesis only.\<close>

lemma cat_time_func [rx_cat]:
  "x \<in> set (rx_run (Cat time_func_rx q) (b, s, c)) \<longleftrightarrow>
    (\<exists>f t. f \<in> set TIME_FUNCS \<and> s = f @ t \<and> x \<in> set (rx_run q (rev f @ b, t, (1, f) # c)))"
  unfolding time_func_rx_def alternatives_def list.sel cat_Grp_alts TIME_FUNCS_def by blast

lemma time_func_no: "f \<in> set TIME_FUNCS \<Longrightarrow> CHR ''('' \<notin> set f"
  by (auto simp: TIME_FUNCS_def)

lemma fn_unique:
  assumes "f @ ''('' @ dq @ z @ dq @ t = f' @ ''('' @ dq @ z' @ dq @ t'"
    "CHR ''('' \<notin> set f" "CHR ''('' \<notin> set f'" "CHR 0x22 \<notin> set z" "CHR 0x22 \<notin> set z'"
  shows "f = f' \<and> z = z' \<and> t = t'"
  using assms by (simp add: cut_first_unique)

definition time_cmp_cut :: "string \<Rightarrow> string \<times> string \<times> string \<times> string \<Rightarrow> bool" where
  "time_cmp_cut s = (\<lambda>(f, z, op, n).
     s = f @ ''('' @ dq @ z @ dq @ '') '' @ op @ '' '' @ n \<and> f \<in> set TIME_FUNCS \<and>
     z \<noteq> [] \<and> CHR 0x22 \<notin> set z \<and> op \<in> {''=='', ''>='', ''<''} \<and> all_num n)"

lemma time_cmp_cut_unique:
  assumes "time_cmp_cut s (f, z, op, n)" "time_cmp_cut s (f', z', op', n')"
  shows "f = f' \<and> z = z' \<and> op = op' \<and> n = n'"
proof -
  have eq: "f @ ''('' @ dq @ z @ dq @ ('') '' @ op @ '' '' @ n) =
      f' @ ''('' @ dq @ z' @ dq @ ('') '' @ op' @ '' '' @ n')"
    using assms by (simp add: time_cmp_cut_def)
  have fz: "f = f' \<and> z = z' \<and> '') '' @ op @ '' '' @ n = '') '' @ op' @ '' '' @ n'"
    using eq by (rule fn_unique) (use assms in \<open>auto simp: time_cmp_cut_def dest: time_func_no\<close>)
  then have "op @ CHR '' '' # n = op' @ CHR '' '' # n'" by simp
  moreover have "CHR '' '' \<notin> set op" "CHR '' '' \<notin> set op'"
    using assms by (auto simp: time_cmp_cut_def)
  ultimately show ?thesis using fz by (metis cut_first_unique)
qed

lemma match_time_cmp:
  "rx_match time_cmp_rx s = Some c \<longleftrightarrow>
    (\<exists>f z op n. time_cmp_cut s (f, z, op, n) \<and> c = [(4, n), (3, op), (2, z), (1, f)])"
  unfolding time_cmp_rx_def cats.simps
proof (rule rx_match_det, goal_cases)
  case (1 c)
  show ?case by (auto simp: rx_cuts cat_time_func time_cmp_cut_def)
next
  case (2 c c')
  then show ?case using time_cmp_cut_unique by blast
qed

definition time_range_cut :: "string \<Rightarrow> string \<times> string \<times> string \<times> string \<Rightarrow> bool" where
  "time_range_cut s = (\<lambda>(f, z, n, m).
     s = f @ ''('' @ dq @ z @ dq @ '') >= '' @ n @ '' || '' @ f @ ''('' @ dq @ z @ dq @ '') < '' @ m \<and>
     f \<in> set TIME_FUNCS \<and> z \<noteq> [] \<and> CHR 0x22 \<notin> set z \<and> all_num n \<and> all_num m)"

lemma time_range_cut_unique:
  assumes "time_range_cut s (f, z, n, m)" "time_range_cut s (f', z', n', m')"
  shows "f = f' \<and> z = z' \<and> n = n' \<and> m = m'"
proof -
  let ?t = "\<lambda>f z n m. '') >= '' @ n @ '' || '' @ f @ ''('' @ dq @ z @ dq @ '') < '' @ m"
  have eq: "f @ ''('' @ dq @ z @ dq @ ?t f z n m = f' @ ''('' @ dq @ z' @ dq @ ?t f' z' n' m'"
    using assms by (simp add: time_range_cut_def)
  have fz: "f = f' \<and> z = z' \<and> ?t f z n m = ?t f' z' n' m'"
    using eq by (rule fn_unique) (use assms in \<open>auto simp: time_range_cut_def dest: time_func_no\<close>)
  then have "?t f z n m = ?t f z n' m'" by metis
  then have "n @ CHR '' '' # (''|| '' @ f @ ''('' @ dq @ z @ dq @ '') < '' @ m) =
      n' @ CHR '' '' # (''|| '' @ f @ ''('' @ dq @ z @ dq @ '') < '' @ m')" by simp
  moreover have "CHR '' '' \<notin> set n" "CHR '' '' \<notin> set n'"
    using assms num_char_no by (auto simp: time_range_cut_def)
  ultimately show ?thesis using fz by (simp add: cut_first_unique)
qed

lemma match_time_range:
  "rx_match time_range_rx s = Some c \<longleftrightarrow>
    (\<exists>f z n m. time_range_cut s (f, z, n, m) \<and> c = [(4, m), (3, n), (2, z), (1, f)])"
  unfolding time_range_rx_def time_range_body_def append.simps cats.simps
proof (rule rx_match_det, goal_cases)
  case (1 c)
  show ?case by (auto simp: rx_cuts cat_time_func time_range_cut_def)
next
  case (2 c c')
  then show ?case using time_range_cut_unique by blast
qed

lemma match_time_range_paren:
  "rx_match time_range_paren_rx s = Some c \<longleftrightarrow>
    (\<exists>f z n m r. s = ''('' @ r @ '')'' \<and> time_range_cut r (f, z, n, m) \<and>
       c = [(4, m), (3, n), (2, z), (1, f)])"
  unfolding time_range_paren_rx_def time_range_body_def append.simps cats.simps
proof (rule rx_match_det, goal_cases)
  case (1 c)
  show ?case by (auto simp: rx_cuts cat_time_func time_range_cut_def)
next
  case (2 c c')
  then obtain f z n m r f' z' n' m' r' where "''('' @ r @ '')'' = ''('' @ r' @ '')''"
    "time_range_cut r (f, z, n, m)" "time_range_cut r' (f', z', n', m')"
    "c = [(4, m), (3, n), (2, z), (1, f)]" "c' = [(4, m'), (3, n'), (2, z'), (1, f')]" by blast
  then show ?case using time_range_cut_unique [of r f z n m f' z' n' m'] by simp
qed

text \<open>A JSON string literal is matched by its expression, as a whole.\<close>

definition json_chars_rx :: rx where
  "json_chars_rx =
     Alt (Chr (\<lambda>c. c \<noteq> CHR 0x22 \<and> c \<noteq> CHR 0x5C)) (Cat (chr (CHR 0x5C)) (Chr dot_char))"

lemma json_chars_plain:
  assumes "c \<noteq> CHR 0x22" "c \<noteq> CHR 0x5C"
    "x \<in> set (rx_run (Star json_chars_rx) (c # b, t, cs))"
  shows "x \<in> set (rx_run (Star json_chars_rx) (b, c # t, cs))"
  using assms(3)
  by (rule star_step [rotated 2]) (simp_all add: json_chars_rx_def rx_run.simps assms(1,2))

lemma json_chars_escape:
  assumes "dot_char e" "x \<in> set (rx_run (Star json_chars_rx) (e # CHR 0x5C # b, t, cs))"
  shows "x \<in> set (rx_run (Star json_chars_rx) (b, CHR 0x5C # e # t, cs))"
  using assms(2)
  by (rule star_step [rotated 2]) (simp_all add: json_chars_rx_def rx_run.simps assms(1))

lemma hex_chr_plain: "n < 16 \<Longrightarrow> hex_chr n \<noteq> CHR 0x22 \<and> hex_chr n \<noteq> CHR 0x5C"
  using hex_val_chr [of n] by (auto simp: hex_val_def)

lemma json_esc_cases:
  obtains (plain) "json_esc c = [c]" "c \<noteq> CHR 0x22" "c \<noteq> CHR 0x5C"
  | (short) e where "json_esc c = [CHR 0x5C, e]" "dot_char e"
  | (long) "json_esc c = [CHR 0x5C, CHR ''u'', CHR ''0'', CHR ''0'',
      hex_chr (of_char c div 16), hex_chr (of_char c mod 16)]" "(of_char c :: nat) < 32"
proof (cases "c = CHR 0x22 \<or> c = CHR 0x5C \<or> c = CHR 0x08 \<or> c = CHR 0x0C \<or> c = CHR 0x0A \<or>
    c = CHR 0x0D \<or> c = CHR 0x09")
  case True
  then show ?thesis using short by (elim disjE) (simp_all add: json_esc_def dot_char_def)
next
  case False
  then show ?thesis using plain long by (cases "(of_char c :: nat) < 32") (simp_all add: json_esc_def)
qed

lemma json_chars_esc:
  assumes "x \<in> set (rx_run (Star json_chars_rx) (rev (json_esc c) @ b, t, cs))"
  shows "x \<in> set (rx_run (Star json_chars_rx) (b, json_esc c @ t, cs))"
proof (cases c rule: json_esc_cases)
  case plain
  have "x \<in> set (rx_run (Star json_chars_rx) (c # b, t, cs))" using assms plain(1) by simp
  then have "x \<in> set (rx_run (Star json_chars_rx) (b, c # t, cs))"
    by (intro json_chars_plain plain)
  then show ?thesis by (simp add: plain(1))
next
  case (short e)
  have "x \<in> set (rx_run (Star json_chars_rx) (e # CHR 0x5C # b, t, cs))" using assms short(1) by simp
  then have "x \<in> set (rx_run (Star json_chars_rx) (b, CHR 0x5C # e # t, cs))"
    by (intro json_chars_escape short(2))
  then show ?thesis by (simp add: short(1))
next
  case long
  let ?h = "hex_chr (of_char c div 16)" and ?l = "hex_chr (of_char c mod 16)"
  have "?h \<noteq> CHR 0x22 \<and> ?h \<noteq> CHR 0x5C" using long(2) by (intro hex_chr_plain) simp
  moreover have "?l \<noteq> CHR 0x22 \<and> ?l \<noteq> CHR 0x5C" by (intro hex_chr_plain) simp
  moreover have "x \<in> set (rx_run (Star json_chars_rx)
      (?l # ?h # CHR ''0'' # CHR ''0'' # CHR ''u'' # CHR 0x5C # b, t, cs))"
    using assms long(1) by simp
  ultimately have "x \<in> set (rx_run (Star json_chars_rx)
      (b, CHR 0x5C # CHR ''u'' # CHR ''0'' # CHR ''0'' # ?h # ?l # t, cs))"
    by (intro json_chars_escape json_chars_plain) (simp_all add: dot_char_def)
  then show ?thesis by (simp add: long(1))
qed

lemma json_chars_text:
  "(rev (concat (map json_esc v)) @ b, t, cs) \<in>
    set (rx_run (Star json_chars_rx) (b, concat (map json_esc v) @ t, cs))"
proof (induction v arbitrary: b)
  case (Cons c v)
  have "(rev (concat (map json_esc v)) @ rev (json_esc c) @ b, t, cs) \<in>
      set (rx_run (Star json_chars_rx) (rev (json_esc c) @ b, concat (map json_esc v) @ t, cs))"
    by (rule Cons.IH)
  from json_chars_esc [OF this] show ?case by simp
qed (simp add: star_refl)

lemma json_string_mem:
  "(rev (json_quote v) @ b, t, cs) \<in> set (rx_run json_string_rx (b, json_quote v @ t, cs))"
proof -
  have "(rev (concat (map json_esc v)) @ CHR 0x22 # b, CHR 0x22 # t, cs) \<in>
      set (rx_run (Star json_chars_rx) (CHR 0x22 # b, concat (map json_esc v) @ CHR 0x22 # t, cs))"
    by (rule json_chars_text)
  moreover have "(rev (json_quote v) @ b, t, cs) \<in>
      set (rx_run (Cat (chr (CHR 0x22)) Eps)
        (rev (concat (map json_esc v)) @ CHR 0x22 # b, CHR 0x22 # t, cs))"
    by (simp add: cat_Chr mem_Eps json_quote_def)
  ultimately have "(rev (json_quote v) @ b, t, cs) \<in>
      set (rx_run (Cat (Star json_chars_rx) (Cat (chr (CHR 0x22)) Eps))
        (CHR 0x22 # b, concat (map json_esc v) @ CHR 0x22 # t, cs))"
    unfolding mem_Cat [of _ "Star json_chars_rx"] by blast
  then show ?thesis
    unfolding json_string_rx_def cats.simps json_chars_rx_def [symmetric] cat_Chr
    by (simp add: json_quote_def)
qed

lemma json_string_capless: "rx_capless json_string_rx"
  by (simp add: json_string_rx_def)

lemma json_string_whole:
  "(\<exists>b t. (b, t, c) \<in> set (rx_run (cats [Grp 2 json_string_rx, lit '')'', Eol]) (b0, s @ '')'', c0))) \<longleftrightarrow>
    (\<exists>b. (b, '')'', c0) \<in> set (rx_run json_string_rx (b0, s @ '')'', c0))) \<and> c = (2, s) # c0"
proof
  assume "\<exists>b t. (b, t, c) \<in> set (rx_run (cats [Grp 2 json_string_rx, lit '')'', Eol]) (b0, s @ '')'', c0))"
  then obtain b1 w c1 where w: "(b1, '')'', c1) \<in> set (rx_run json_string_rx (b0, s @ '')'', c0))"
    "s @ '')'' = w @ '')''" "c = (2, w) # c1"
    unfolding cats.simps mem_Cat [of _ "Grp 2 _"] by (auto simp: mem_Grp rx_cuts)
  have "c1 = c0" using rx_run_capless [OF json_string_capless w(1)] by simp
  with w show "(\<exists>b. (b, '')'', c0) \<in> set (rx_run json_string_rx (b0, s @ '')'', c0))) \<and> c = (2, s) # c0"
    by auto
next
  assume "(\<exists>b. (b, '')'', c0) \<in> set (rx_run json_string_rx (b0, s @ '')'', c0))) \<and> c = (2, s) # c0"
  then obtain b where "(b, '')'', c0) \<in> set (rx_run json_string_rx (b0, s @ '')'', c0))"
    "c = (2, s) # c0" by blast
  then have "(b, '')'', c) \<in> set (rx_run (Grp 2 json_string_rx) (b0, s @ '')'', c0))"
    unfolding mem_Grp by blast
  moreover have "(CHR '')'' # b, [], c) \<in> set (rx_run (Cat (lit '')'') (Cat Eol rx.Eps)) (b, '')'', c))"
    by (simp add: rx_cuts)
  ultimately show "\<exists>b t. (b, t, c) \<in> set (rx_run (cats [Grp 2 json_string_rx, lit '')'', Eol]) (b0, s @ '')'', c0))"
    unfolding cats.simps mem_Cat [of _ "Grp 2 _"] by blast
qed

lemma match_header_contains:
  assumes "u \<noteq> []" "CHR 0x22 \<notin> set u"
  shows "rx_match header_contains_rx
      (''has(header('' @ dq @ u @ dq @ ''), '' @ json_quote v @ '')'') = Some [(2, json_quote v), (1, u)]"
proof -
  let ?tail = "cats [Grp 2 json_string_rx, lit '')'', Eol]"
  let ?r = "Cat (lit (''has(header('' @ dq)) (Cat (Grp 1 (rx_plus (Chr not_quote)))
      (Cat (lit (dq @ ''), '')) ?tail))"
  let ?s = "''has(header('' @ dq @ u @ dq @ ''), '' @ json_quote v @ '')''"
  have cut: "(b, t, c) \<in> set (rx_run ?r ([], ?s, [])) \<longleftrightarrow>
      (b, t, c) \<in> set (rx_run ?tail
        (rev (''has(header('' @ dq @ u @ dq @ ''), ''), json_quote v @ '')'', [(1, u)]))" for b t c
  proof -
    have "(b, t, c) \<in> set (rx_run ?r ([], ?s, [])) \<longleftrightarrow>
        (\<exists>u' t'. u @ CHR 0x22 # ''), '' @ json_quote v @ '')'' = u' @ CHR 0x22 # ''), '' @ t' \<and>
          u' \<noteq> [] \<and> CHR 0x22 \<notin> set u' \<and>
          (b, t, c) \<in> set (rx_run ?tail (rev (''has(header('' @ dq @ u' @ dq @ ''), ''), t', [(1, u')])))"
      by (auto simp: cat_lit cat_Grp_plus_class simp del: cats.simps)
    also have "\<dots> \<longleftrightarrow> (b, t, c) \<in>
        set (rx_run ?tail (rev (''has(header('' @ dq @ u @ dq @ ''), ''), json_quote v @ '')'', [(1, u)]))"
      using assms by (auto simp: cut_first_unique simp del: cats.simps)
    finally show ?thesis .
  qed
  have ex: "\<exists>b. (b, '')'', c0) \<in> set (rx_run json_string_rx (b0, json_quote v @ '')'', c0))" for b0 c0
    using json_string_mem by blast
  have mem: "(\<exists>b t. (b, t, c) \<in> set (rx_run ?r ([], ?s, []))) \<longleftrightarrow> c = [(2, json_quote v), (1, u)]" for c
    unfolding cut json_string_whole using ex by simp
  have "rx_match (Cat Bol ?r) ?s = Some [(2, json_quote v), (1, u)] \<longleftrightarrow>
      [(2 :: nat, json_quote v), (1, u)] = [(2, json_quote v), (1, u)]"
    by (rule rx_match_det [where Q = "\<lambda>c. c = [(2, json_quote v), (1, u)]"], rule mem, simp)
  then have "rx_match (Cat Bol ?r) ?s = Some [(2, json_quote v), (1, u)]" by simp
  then show ?thesis unfolding header_contains_rx_def cats.simps .
qed

subsection \<open>Reading back a condition\<close>

text \<open>The conditions whose printed form is read back: names without characters that JSON escapes and
  without the characters the splitters look for, numeric operands where the printer wants them,
  and the modes the reader can tell apart.\<close>

definition numeric :: "string \<Rightarrow> bool" where
  "numeric s \<longleftrightarrow> rx_test NUMERIC_LITERAL_REGEX s"

definition quiet :: "string \<Rightarrow> bool" where
  "quiet s \<longleftrightarrow> list_all (\<lambda>c. c \<notin> set ''()&|'') s"

definition plain_name :: "string \<Rightarrow> bool" where
  "plain_name s \<longleftrightarrow> s \<noteq> [] \<and> trim s = s \<and> quiet s \<and> list_all (\<lambda>c. json_esc c = [c]) s"

fun supported_cond :: "RequestCondition \<Rightarrow> bool" where
  "supported_cond (TimeC c) =
     (tc_timeFunc c \<in> set TIME_FUNCS \<and> plain_name (tc_timezone c) \<and>
      (if tc_mode c = MATCH_RANGE
       then tc_value c = [] \<and> numeric (tc_rangeStart c) \<and> numeric (tc_rangeEnd c)
       else tc_mode c \<in> set [MATCH_EQ, MATCH_GTE, MATCH_LT] \<and> numeric (tc_value c) \<and>
            tc_rangeStart c = [] \<and> tc_rangeEnd c = []))"
| "supported_cond (ParamHeaderC c) =
     (ph_source c \<in> set [''param'', ''header''] \<and> plain_name (ph_path c) \<and>
      (if ph_mode c = MATCH_EXISTS then ph_value c = []
       else (ph_mode c = MATCH_EQ \<or> ph_mode c = MATCH_CONTAINS \<and> ph_source c = ''header'') \<and>
            trim (ph_value c) = ph_value c \<and> quiet (ph_value c)))"

lemma numeric_num: "numeric n \<Longrightarrow> all_num n"
proof -
  assume n: "numeric n"
  have "\<not> rx_test NUMERIC_LITERAL_REGEX []" by code_simp
  moreover have "\<forall>x \<in> set n. num_char x"
    using n unfolding numeric_def NUMERIC_LITERAL_REGEX_def
    by (rule rx_test_within) (simp add: rx_opt_def rx_plus_def num_char_def)
  ultimately show ?thesis using n by (auto simp: numeric_def)
qed

lemma numeric_trim [simp]: "numeric n \<Longrightarrow> trim n = n"
  using numeric_num num_trim by blast

lemma concat_map_esc: "list_all (\<lambda>c. json_esc c = [c]) s \<Longrightarrow> concat (map json_esc s) = s"
  by (induction s) auto

lemma plain_name_facts:
  assumes "plain_name s"
  shows "s \<noteq> []" "trim s = s" "CHR 0x22 \<notin> set s" "json_quote s = dq @ s @ dq" "quiet s"
proof -
  have "json_esc (CHR 0x22) \<noteq> [CHR 0x22]" by (simp add: json_esc_def)
  with assms show "CHR 0x22 \<notin> set s" by (auto simp: plain_name_def list_all_iff)
  have "concat (map json_esc s) = s"
    using assms unfolding plain_name_def by (simp add: concat_map_esc)
  then show "json_quote s = dq @ s @ dq" by (simp add: json_quote_def)
qed (use assms in \<open>simp_all add: plain_name_def\<close>)

lemma time_modes: "set (map fst (getRequestRuleMatchOptions SOURCE_TIME)) =
    {MATCH_EQ, MATCH_GTE, MATCH_LT, MATCH_RANGE}"
  by (auto simp: getRequestRuleMatchOptions_def)

text \<open>On a supported condition normalisation is the identity.\<close>

lemma normalize_supported:
  assumes "supported_cond c" shows "normalizeCondition (Some (to_partial c)) = c"
proof (cases c)
  case (TimeC t)
  have "tc_mode t \<in> set (map fst (getRequestRuleMatchOptions SOURCE_TIME))"
    using assms TimeC unfolding time_modes by (auto split: if_splits)
  moreover have "tc_timezone t \<noteq> []" "tc_timeFunc t \<in> set TIME_FUNCS"
    using assms TimeC plain_name_facts(1) by auto
  ultimately show ?thesis
    unfolding TimeC normalizeCondition_def to_partial.simps
    by (cases t) (simp add: isTimeFunc_def or_default_def mode_or_def str_or_empty_def)
next
  case (ParamHeaderC p)
  have "ph_mode p \<in> set (map fst (getRequestRuleMatchOptions (ph_source p)))"
    using assms ParamHeaderC
    by (auto simp: getRequestRuleMatchOptions_def match_defs split: if_splits)
  moreover have "ph_path p \<noteq> []" "ph_source p = ''param'' \<or> ph_source p = ''header''"
    using assms ParamHeaderC plain_name_facts(1) by auto
  ultimately show ?thesis
    unfolding ParamHeaderC normalizeCondition_def to_partial.simps
    by (elim disjE; cases p) (simp_all add: or_default_def mode_or_def str_or_empty_def Let_def)
qed

lemma time_text_range:
  assumes "supported_cond (TimeC c)" "tc_mode c = MATCH_RANGE"
  shows "time_range_cut (buildTimeConditionExpr c)
    (tc_timeFunc c, tc_timezone c, tc_rangeStart c, tc_rangeEnd c)"
  using assms plain_name_facts [of "tc_timezone c"] normalize_supported [OF assms(1)]
    numeric_num [of "tc_rangeStart c"] numeric_num [of "tc_rangeEnd c"]
  by (simp add: buildTimeConditionExpr_def time_range_cut_def numeric_def [symmetric] Let_def)

lemma time_text_cmp:
  assumes "supported_cond (TimeC c)" "tc_mode c \<noteq> MATCH_RANGE"
  shows "time_cmp_cut (buildTimeConditionExpr c)
    (tc_timeFunc c, tc_timezone c, time_mode_op (tc_mode c), tc_value c)"
  using assms plain_name_facts [of "tc_timezone c"] normalize_supported [OF assms(1)]
    numeric_num [of "tc_value c"]
  by (auto simp: buildTimeConditionExpr_def time_cmp_cut_def numeric_def [symmetric] Let_def
      time_mode_op_def match_defs split: if_splits)

lemma time_range_not_cmp:
  assumes "time_range_cut s x" "time_cmp_cut s y" shows False
proof -
  obtain f z n m f' z' op v where x: "x = (f, z, n, m)" and y: "y = (f', z', op, v)"
    by (cases x, cases y) auto
  let ?t = "'') >= '' @ n @ '' || '' @ f @ ''('' @ dq @ z @ dq @ '') < '' @ m"
  have eq: "f @ ''('' @ dq @ z @ dq @ ?t = f' @ ''('' @ dq @ z' @ dq @ ('') '' @ op @ '' '' @ v)"
    using assms x y by (simp add: time_range_cut_def time_cmp_cut_def)
  have "?t = '') '' @ op @ '' '' @ v"
    using fn_unique [OF eq] assms x y time_func_no
    by (simp add: time_range_cut_def time_cmp_cut_def)
  moreover have "op = ''=='' \<or> op = ''>='' \<or> op = ''<''" using assms y by (auto simp: time_cmp_cut_def)
  ultimately have "v = n @ '' || '' @ f @ ''('' @ dq @ z @ dq @ '') < '' @ m" by auto
  then have "CHR '' '' \<in> set v" by simp
  moreover have "\<forall>a \<in> set v. num_char a" using assms y by (simp add: time_cmp_cut_def)
  ultimately show False using num_char_no by blast
qed

lemma time_cmp_no_paren: "time_cmp_cut s y \<Longrightarrow> s \<noteq> ''('' @ r"
proof -
  assume "time_cmp_cut s y"
  then obtain f t where "s = f @ t" "f \<in> set TIME_FUNCS" by (cases y) (auto simp: time_cmp_cut_def)
  then show ?thesis by (auto simp: TIME_FUNCS_def)
qed

lemma time_range_no_paren: "time_range_cut s y \<Longrightarrow> s \<noteq> ''('' @ r"
proof -
  assume "time_range_cut s y"
  then obtain f t where "s = f @ t" "f \<in> set TIME_FUNCS" by (cases y) (auto simp: time_range_cut_def)
  then show ?thesis by (auto simp: TIME_FUNCS_def)
qed

lemma rx_match_NoneI: "(\<And>c. rx_match r s \<noteq> Some c) \<Longrightarrow> rx_match r s = None"
  by (cases "rx_match r s") auto

lemma cap_simps [simp]: "cap i ((i, w) # c) = w" "i \<noteq> j \<Longrightarrow> cap i ((j, w) # c) = cap i c"
  by (simp_all add: cap_def)

lemma read_time_range:
  assumes "time_range_cut s (f, z, n, m)"
  shows "tryParseTimeCondition s =
      Some (TimeC \<lparr>tc_timeFunc = f, tc_timezone = z, tc_mode = MATCH_RANGE, tc_value = [],
        tc_rangeStart = n, tc_rangeEnd = m\<rparr>)"
    and "tryParseTimeCondition (''('' @ s @ '')'') = tryParseTimeCondition s"
proof -
  have m1: "rx_match time_range_rx s = Some [(4, m), (3, n), (2, z), (1, f)]"
    unfolding match_time_range using assms by blast
  have m2: "rx_match time_range_paren_rx (''('' @ s @ '')'') = Some [(4, m), (3, n), (2, z), (1, f)]"
    unfolding match_time_range_paren using assms by blast
  have m3: "rx_match time_range_rx (''('' @ s @ '')'') = None"
    using time_range_no_paren by (intro rx_match_NoneI) (metis match_time_range)
  show "tryParseTimeCondition s =
      Some (TimeC \<lparr>tc_timeFunc = f, tc_timezone = z, tc_mode = MATCH_RANGE, tc_value = [],
        tc_rangeStart = n, tc_rangeEnd = m\<rparr>)"
    unfolding tryParseTimeCondition_def m1 by (simp add: time_range_cond_def)
  show "tryParseTimeCondition (''('' @ s @ '')'') = tryParseTimeCondition s"
    unfolding tryParseTimeCondition_def m1 m2 m3 by simp
qed

lemma read_time_cmp:
  assumes "time_cmp_cut s (f, z, op, n)"
  shows "tryParseTimeCondition s =
      Some (TimeC \<lparr>tc_timeFunc = f, tc_timezone = z, tc_mode = time_op_mode op, tc_value = n,
        tc_rangeStart = [], tc_rangeEnd = []\<rparr>)"
proof -
  have m1: "rx_match time_range_rx s = None"
    using time_range_not_cmp assms by (intro rx_match_NoneI) (metis match_time_range)
  have m2: "rx_match time_range_paren_rx s = None"
    using time_cmp_no_paren [OF assms] by (intro rx_match_NoneI) (metis match_time_range_paren)
  have m3: "rx_match time_cmp_rx s = Some [(4, n), (3, op), (2, z), (1, f)]"
    unfolding match_time_cmp using assms by blast
  show ?thesis unfolding tryParseTimeCondition_def m1 m2 m3 by simp
qed

lemma time_op_mode_inverse:
  "mode \<in> set [MATCH_EQ, MATCH_GTE, MATCH_LT] \<Longrightarrow> time_op_mode (time_mode_op mode) = mode"
  by (auto simp: time_op_mode_def time_mode_op_def match_defs)

lemma read_time_condition:
  assumes "supported_cond (TimeC c)"
  shows "tryParseTimeCondition (buildTimeConditionExpr c) = Some (TimeC c)"
proof (cases "tc_mode c = MATCH_RANGE")
  case True
  with read_time_range(1) [OF time_text_range [OF assms True]] assms show ?thesis by (cases c) simp
next
  case False
  with read_time_cmp [OF time_text_cmp [OF assms False]] assms show ?thesis
    by (cases c) (simp add: time_op_mode_inverse)
qed

lemma no_time:
  assumes "g = ''header'' \<or> g = ''param'' \<or> g = ''has''"
  shows "tryParseTimeCondition (g @ ''('' @ t) = None"
proof -
  have no: "False" if "f \<in> set TIME_FUNCS" "g @ ''('' @ t = f @ CHR ''('' # t'" for f t'
  proof -
    have "CHR ''('' \<notin> set g" using assms by auto
    then have "g = f" using cut_first_unique [of "CHR ''(''" g f t t'] time_func_no that by simp
    with that(1) assms show False by (auto simp: TIME_FUNCS_def)
  qed
  have "rx_match time_range_rx (g @ ''('' @ t) = None" "rx_match time_cmp_rx (g @ ''('' @ t) = None"
    by (rule rx_match_NoneI, use no in \<open>force simp: match_time_range match_time_cmp time_range_cut_def
        time_cmp_cut_def\<close>)+
  moreover have "rx_match time_range_paren_rx (g @ ''('' @ t) = None"
    using assms by (intro rx_match_NoneI) (auto simp: match_time_range_paren)
  ultimately show ?thesis by (simp add: tryParseTimeCondition_def)
qed

text \<open>The literal of an equality is read back as the value it was printed from.\<close>

lemma json_parse_quote [simp]: "json_parse (json_quote v) = Some (JStr v)"
  using json.dec_enc [of "JStr v"] by simp

lemma json_quote_facts:
  "json_quote v \<noteq> ''true''" "json_quote v \<noteq> ''false''" "\<not> numeric (json_quote v)"
  "trim (json_quote v) = json_quote v" "json_quote v \<noteq> []" "\<forall>a \<in> set (json_quote v). dot_char a"
proof -
  show "json_quote v \<noteq> ''true''" "json_quote v \<noteq> ''false''" "json_quote v \<noteq> []"
    by (simp_all add: json_quote_def)
  show "trim (json_quote v) = json_quote v"
    by (rule trim_id) (simp add: json_quote_def trimmed_def is_space_def)
  have "CHR 0x22 \<in> set (json_quote v)" by (simp add: json_quote_def)
  moreover have "\<not> num_char (CHR 0x22)" by (simp add: num_char_def is_digit_def)
  ultimately show "\<not> numeric (json_quote v)" using numeric_num by blast
  have "dot_char a" if "a \<in> set (json_esc c)" for a c
  proof (cases c rule: json_esc_cases)
    case plain
    have "json_esc (CHR 0x0A) \<noteq> [CHR 0x0A]" "json_esc (CHR 0x0D) \<noteq> [CHR 0x0D]"
      by (simp_all add: json_esc_def)
    with plain that show ?thesis by (auto simp: dot_char_def)
  next
    case (short e)
    with that show ?thesis by (auto simp: dot_char_def)
  next
    case long
    have "dot_char (hex_chr n)" if "n < 16" for n
      using hex_val_chr [OF that] by (auto simp: dot_char_def hex_val_def)
    with long that show ?thesis by (auto simp: dot_char_def)
  qed
  then show "\<forall>a \<in> set (json_quote v). dot_char a" by (auto simp: json_quote_def dot_char_def)
qed

lemma num_dot: "num_char a \<Longrightarrow> dot_char a"
  by (auto simp: num_char_def dot_char_def is_digit_def)

lemma read_literal:
  assumes "trim v = v"
  shows "parseExprLiteral (buildExprLiteral MATCH_EQ v) = JStr v"
    "buildExprLiteral MATCH_EQ v \<noteq> []" "\<forall>a \<in> set (buildExprLiteral MATCH_EQ v). dot_char a"
proof -
  have nb: "\<not> numeric []" using numeric_num by blast
  have eq: "MATCH_EQ \<noteq> MATCH_CONTAINS" by (simp add: match_defs)
  show "parseExprLiteral (buildExprLiteral MATCH_EQ v) = JStr v"
    using assms json_quote_facts eq
    by (auto simp: buildExprLiteral_def parseExprLiteral_def numeric_def [symmetric] Let_def)
  show "buildExprLiteral MATCH_EQ v \<noteq> []"
    using assms json_quote_facts eq nb
    by (auto simp: buildExprLiteral_def numeric_def [symmetric] Let_def)
  show "\<forall>a \<in> set (buildExprLiteral MATCH_EQ v). dot_char a"
    using assms json_quote_facts(6) eq numeric_num [of v] num_dot
    by (auto simp: buildExprLiteral_def numeric_def [symmetric] Let_def dot_char_def)
qed

lemma param_contains_none:
  "CHR 0x22 \<notin> set u \<Longrightarrow> (\<And>t'. t \<noteq> '' != nil && has(param('' @ dq @ t') \<Longrightarrow>
    rx_match param_contains_rx (''param('' @ dq @ u @ dq @ '')'' @ t) = None"
  unfolding param_contains_rx_def cats.simps rx_match_none
  by (auto simp: cat_lit cat_Grp_plus_class cut_first_unique)

lemma param_compare_none:
  "CHR 0x22 \<notin> set u \<Longrightarrow> (\<And>t'. t \<noteq> '' != nil && param('' @ dq @ t') \<Longrightarrow>
    rx_match param_compare_rx (''param('' @ dq @ u @ dq @ '')'' @ t) = None"
  unfolding param_compare_rx_def cats.simps rx_match_none
  by (auto simp: cat_lit cat_Grp_plus_class cut_first_unique)

lemma other_source_none:
  "rx_match param_contains_rx (''header('' @ t) = None" "rx_match param_compare_rx (''header('' @ t) = None"
  "rx_match header_contains_rx (''header('' @ t) = None" "rx_match header_contains_rx (''param('' @ t) = None"
  unfolding param_contains_rx_def param_compare_rx_def header_contains_rx_def cats.simps rx_match_none
  by (auto simp: cat_lit)

lemma read_exists:
  assumes "u \<noteq> []" "CHR 0x22 \<notin> set u"
  shows "tryParseRequestCondition (''header('' @ dq @ u @ dq @ '') != '' @ dq @ dq) =
      Some (Some (ph_cond ''header'' u MATCH_EXISTS []))"
    and "tryParseRequestCondition (''param('' @ dq @ u @ dq @ '') != nil'') =
      Some (Some (ph_cond ''param'' u MATCH_EXISTS []))"
proof -
  have t: "tryParseTimeCondition (''header('' @ t) = None" "tryParseTimeCondition (''param('' @ t) = None" for t
    using no_time [of "''header''" t] no_time [of "''param''" t] by simp_all
  have h: "rx_match header_exists_rx (''header('' @ dq @ u @ dq @ '') != '' @ dq @ dq) = Some [(1, u)]"
    unfolding match_header_exists using assms by blast
  have hn: "rx_match header_exists_rx (''param('' @ dq @ u @ dq @ '') != nil'') = None"
    by (rule rx_match_NoneI) (simp add: match_header_exists)
  have p: "rx_match param_exists_rx (''param('' @ dq @ u @ dq @ '') != nil'') = Some [(1, u)]"
    unfolding match_param_exists using assms by blast
  show "tryParseRequestCondition (''header('' @ dq @ u @ dq @ '') != '' @ dq @ dq) =
      Some (Some (ph_cond ''header'' u MATCH_EXISTS []))"
    unfolding tryParseRequestCondition_def t h by simp
  show "tryParseRequestCondition (''param('' @ dq @ u @ dq @ '') != nil'') =
      Some (Some (ph_cond ''param'' u MATCH_EXISTS []))"
    unfolding tryParseRequestCondition_def t hn p by simp
qed

lemma read_header_contains:
  assumes "u \<noteq> []" "CHR 0x22 \<notin> set u"
  shows "tryParseRequestCondition (''has(header('' @ dq @ u @ dq @ ''), '' @ json_quote v @ '')'') =
      Some (Some (ph_cond ''header'' u MATCH_CONTAINS v))"
proof -
  let ?s = "''has(header('' @ dq @ u @ dq @ ''), '' @ json_quote v @ '')''"
  have t: "tryParseTimeCondition ?s = None"
    using no_time [of "''has''" "''header('' @ dq @ u @ dq @ ''), '' @ json_quote v @ '')''"] by simp
  have n: "rx_match header_exists_rx ?s = None" "rx_match param_exists_rx ?s = None"
    by (rule rx_match_NoneI, simp add: match_header_exists match_param_exists)+
  show ?thesis
    unfolding tryParseRequestCondition_def t n match_header_contains [OF assms]
    by (simp add: json_str_value_def)
qed

lemma read_equals:
  assumes "u \<noteq> []" "CHR 0x22 \<notin> set u" "g = ''param'' \<or> g = ''header''" "trim v = v"
  shows "tryParseRequestCondition (g @ ''('' @ dq @ u @ dq @ '') == '' @ buildExprLiteral MATCH_EQ v) =
      Some (Some (ph_cond g u MATCH_EQ v))"
proof -
  let ?l = "buildExprLiteral MATCH_EQ v"
  let ?s = "g @ ''('' @ dq @ u @ dq @ '') == '' @ ?l"
  have t: "tryParseTimeCondition ?s = None"
    using no_time [of g "dq @ u @ dq @ '') == '' @ ?l"] assms(3) by blast
  have n: "rx_match header_exists_rx ?s = None" "rx_match param_exists_rx ?s = None"
    by (rule rx_match_NoneI, use assms in \<open>auto simp: match_header_exists match_param_exists cut_first_unique\<close>)+
  have c: "rx_match header_contains_rx ?s = None" "rx_match param_contains_rx ?s = None"
    "rx_match param_compare_rx ?s = None"
    using assms other_source_none [of "dq @ u @ dq @ '') == '' @ ?l"]
      param_contains_none [of u "'' == '' @ ?l"] param_compare_none [of u "'' == '' @ ?l"]
    by auto
  have m: "rx_match equals_rx ?s = Some [(3, ?l), (2, u), (1, g)]"
    unfolding match_equals using assms(1-3) read_literal(2,3) [OF assms(4)] by blast
  show ?thesis
    unfolding tryParseRequestCondition_def t n c parse_compare_def parse_equals_def m
    by (simp add: read_literal(1) [OF assms(4)])
qed

text \<open>Every supported condition is read back.\<close>

lemma read_condition:
  assumes "supported_cond c"
  shows "tryParseRequestCondition (buildRequestConditionExpr c) = Some (Some c)"
proof (cases c)
  case (TimeC t)
  then have "supported_cond (TimeC t)" using assms by (simp only:)
  from read_time_condition [OF this] TimeC show ?thesis by (simp add: tryParseRequestCondition_def)
next
  case (ParamHeaderC p)
  obtain g u mode v where p: "p = \<lparr>ph_source = g, ph_path = u, ph_mode = mode, ph_value = v\<rparr>"
    by (cases p)
  have sup: "g = ''param'' \<or> g = ''header''" "plain_name u" using assms ParamHeaderC p by auto
  note u = plain_name_facts [OF sup(2)]
  have b: "buildRequestConditionExpr c = build_param_header p"
    using normalize_supported [OF assms] ParamHeaderC by simp
  have c: "c = ph_cond g u mode v" using ParamHeaderC p by (simp add: ph_cond_def)
  consider "mode = MATCH_EXISTS" "v = []" | "mode = MATCH_EQ" "trim v = v"
    | "mode = MATCH_CONTAINS" "g = ''header''" "trim v = v"
    using assms ParamHeaderC p by (auto split: if_splits)
  then have "tryParseRequestCondition (build_param_header p) = Some (Some (ph_cond g u mode v))"
  proof cases
    case 1
    then show ?thesis
      using sup(1) read_exists [OF u(1,3)] u by (auto simp: build_param_header_def p Let_def)
  next
    case 2
    then show ?thesis
      using sup(1) read_equals [OF u(1,3), of g v] u
      by (auto simp: build_param_header_def p Let_def match_defs)
  next
    case 3
    then show ?thesis
      using read_header_contains [OF u(1,3), of v] u
      by (auto simp: build_param_header_def buildExprLiteral_def p Let_def match_defs)
  qed
  with b c show ?thesis by simp
qed

subsection \<open>Reading back factors and rules\<close>

definition calm :: "string \<Rightarrow> bool" where
  "calm s \<longleftrightarrow> balanced s \<and> CHR ''&'' \<notin> set s"

lemma calm_append: "calm a \<Longrightarrow> calm b \<Longrightarrow> calm (a @ b)"
  by (simp add: calm_def balanced_append)

lemma calm_parens: "calm a \<Longrightarrow> calm (''('' @ a @ '')'')"
  by (simp add: calm_def balanced_parens)

lemma calm_quiet: "quiet s \<Longrightarrow> calm s"
  by (auto simp: calm_def quiet_def list_all_iff intro!: balanced_flat)

lemma quiet_append [simp]: "quiet (a @ b) \<longleftrightarrow> quiet a \<and> quiet b"
  and quiet_Nil [simp]: "quiet []"
  and quiet_Cons [simp]: "quiet (c # s) \<longleftrightarrow> c \<notin> set ''()&|'' \<and> quiet s"
  by (auto simp: quiet_def)

lemma quiet_num: "\<forall>a \<in> set n. num_char a \<Longrightarrow> quiet n"
  using num_char_no by (auto simp: quiet_def list_all_iff)

lemma quiet_esc: "quiet [c] \<Longrightarrow> quiet (json_esc c)"
proof (cases c rule: json_esc_cases)
  case (short e)
  assume "quiet [c]"
  with short show ?thesis
    by (auto simp: json_esc_def split: if_splits)
next
  case long
  have "hex_chr n \<notin> set ''()&|''" if "n < 16" for n
    using hex_val_chr [OF that] by (auto simp: hex_val_def)
  with long show ?thesis by auto
qed simp

lemma quiet_quote: "quiet v \<Longrightarrow> quiet (json_quote v)"
proof -
  assume "quiet v"
  then have "quiet (concat (map json_esc v))"
  proof (induction v)
    case (Cons c v)
    then have "quiet (json_esc c)" by (intro quiet_esc) simp
    with Cons show ?case by simp
  qed simp
  then show ?thesis by (simp add: json_quote_def)
qed

lemma quiet_literal: "quiet v \<Longrightarrow> trim v = v \<Longrightarrow> quiet (buildExprLiteral mode v)"
  using quiet_quote by (simp add: buildExprLiteral_def Let_def)

lemma quiet_time_func: "f \<in> set TIME_FUNCS \<Longrightarrow> quiet f"
  by (auto simp: TIME_FUNCS_def)

lemma calm_call: "quiet f \<Longrightarrow> quiet z \<Longrightarrow> quiet t \<Longrightarrow> calm (f @ ''('' @ dq @ z @ dq @ '')'' @ t)"
  using calm_append [OF calm_quiet [of f] calm_append [OF calm_parens [OF calm_quiet [of "dq @ z @ dq"]]
        calm_quiet [of t]]]
  by simp

lemma range_text_facts:
  assumes "time_range_cut e (f, z, n, m)" "quiet z"
  shows "calm e" "includes_str '' || '' e"
proof -
  have q: "quiet f" "quiet n" "quiet m"
    using assms quiet_time_func quiet_num by (auto simp: time_range_cut_def)
  let ?a = "f @ ''('' @ dq @ z @ dq @ '')'' @ '' >= '' @ n" and ?b = "f @ ''('' @ dq @ z @ dq @ '')'' @ '' < '' @ m"
  have e: "e = ?a @ '' || '' @ ?b" using assms(1) by (simp add: time_range_cut_def)
  have ab: "calm ?a" "calm ?b" using q assms(2) by (intro calm_call; simp)+
  have "calm '' || ''" by (simp add: calm_def balanced_flat)
  from calm_append [OF ab(1) calm_append [OF this ab(2)]] show "calm e" unfolding e .
  show "includes_str '' || '' e" unfolding e includes_iff by blast
qed

lemma no_bar_includes: "CHR ''|'' \<notin> set e \<Longrightarrow> \<not> includes_str '' || '' e"
  by (auto simp: includes_iff)

lemma quiet_bar: "quiet s \<Longrightarrow> CHR ''|'' \<notin> set s"
  by (induction s) auto

lemma cmp_text_facts:
  assumes "time_cmp_cut e (f, z, op, n)" "quiet z"
  shows "calm e" "CHR ''|'' \<notin> set e"
proof -
  have q: "quiet f" "quiet n" "quiet op"
    using assms quiet_time_func quiet_num by (auto simp: time_cmp_cut_def)
  have e: "e = f @ ''('' @ dq @ z @ dq @ '')'' @ ('' '' @ op @ '' '' @ n)"
    using assms(1) by (simp add: time_cmp_cut_def)
  show "calm e" unfolding e using q assms(2) by (intro calm_call) simp_all
  show "CHR ''|'' \<notin> set e" unfolding e using q assms(2) by (simp add: quiet_bar)
qed

definition range_cond :: "RequestCondition \<Rightarrow> bool" where
  "range_cond c = (case c of TimeC t \<Rightarrow> tc_mode t = MATCH_RANGE | ParamHeaderC _ \<Rightarrow> False)"

lemma trimmed_literal: "trimmed (buildExprLiteral mode v)"
  using json_quote_facts(4) [of "trim v"] trim_trimmed [of "json_quote (trim v)"]
  by (simp add: buildExprLiteral_def Let_def)

lemma ph_text_facts:
  assumes "supported_cond (ParamHeaderC p)"
  shows "calm (build_param_header p) \<and> CHR ''|'' \<notin> set (build_param_header p) \<and>
    build_param_header p \<noteq> [] \<and> trimmed (build_param_header p)"
proof -
  have sup: "ph_source p = ''param'' \<or> ph_source p = ''header''" "plain_name (ph_path p)"
    using assms by auto
  note u = plain_name_facts [OF sup(2)]
  have src: "quiet (ph_source p)" "ph_source p \<noteq> []" "\<not> is_space (hd (ph_source p))"
    using sup(1) by (auto simp: is_space_def)
  have tr: "trimmed (buildExprLiteral MATCH_EQ (ph_value p)) \<and> buildExprLiteral MATCH_EQ (ph_value p) \<noteq> []"
    if "trim (ph_value p) = ph_value p"
    using trimmed_literal read_literal(2) [OF that] by blast
  consider "ph_mode p = MATCH_EXISTS"
    | "ph_mode p = MATCH_EQ" "trim (ph_value p) = ph_value p" "quiet (ph_value p)"
    | "ph_mode p = MATCH_CONTAINS" "ph_source p = ''header''" "trim (ph_value p) = ph_value p"
      "quiet (ph_value p)"
    using assms by (auto split: if_splits)
  then show ?thesis
  proof cases
    case 1
    then have t: "build_param_header p = ph_source p @ ''('' @ dq @ ph_path p @ dq @ '')'' @
        (if ph_source p = ''header'' then '' != '' @ dq @ dq else '' != nil'')"
      using sup u by (auto simp: build_param_header_def Let_def)
    have "calm (build_param_header p)" unfolding t using src u by (intro calm_call) simp_all
    then show ?thesis unfolding t using src u by (simp add: trimmed_def is_space_def quiet_bar)
  next
    case 2
    then have t: "build_param_header p = ph_source p @ ''('' @ dq @ ph_path p @ dq @ '')'' @
        ('' == '' @ buildExprLiteral MATCH_EQ (ph_value p))"
      using sup u by (auto simp: build_param_header_def Let_def match_defs)
    have q: "quiet (buildExprLiteral MATCH_EQ (ph_value p))" using 2 by (intro quiet_literal)
    have "calm (build_param_header p)" unfolding t using src u q by (intro calm_call) simp_all
    then show ?thesis using tr [OF 2(2)] src u q unfolding t
      by (simp add: trimmed_def quiet_bar) blast
  next
    case 3
    have q: "quiet (json_quote (ph_value p))" using 3 by (intro quiet_quote)
    let ?in = "''header'' @ ''('' @ dq @ ph_path p @ dq @ '')'' @ ('', '' @ json_quote (ph_value p))"
    have t: "build_param_header p = ''has'' @ ''('' @ ?in @ '')''"
      using sup u 3 by (auto simp: build_param_header_def buildExprLiteral_def Let_def match_defs)
    have "calm ?in" using u q by (intro calm_call) simp_all
    from calm_append [OF calm_quiet [of "''has''"] calm_parens [OF this]]
    have "calm (build_param_header p)" unfolding t by simp
    then show ?thesis unfolding t using u q by (simp add: trimmed_def is_space_def quiet_bar)
  qed
qed

lemma num_last: "all_num n \<Longrightarrow> \<not> is_space (last n)"
  using num_trim [of n] trim_trimmed [of n] by (auto simp: trimmed_def)

lemma time_func_hd: "f \<in> set TIME_FUNCS \<Longrightarrow> f \<noteq> [] \<and> \<not> is_space (hd f)"
  by (auto simp: TIME_FUNCS_def is_space_def)

lemma time_text_ends:
  assumes "supported_cond (TimeC t)"
  shows "buildTimeConditionExpr t \<noteq> [] \<and> trimmed (buildTimeConditionExpr t)"
proof (cases "tc_mode t = MATCH_RANGE")
  case True
  from time_text_range [OF assms this] show ?thesis
    using num_last [of "tc_rangeEnd t"] time_func_hd [of "tc_timeFunc t"]
    unfolding time_range_cut_def by (simp add: trimmed_def)
next
  case False
  from time_text_cmp [OF assms this] show ?thesis
    using num_last [of "tc_value t"] time_func_hd [of "tc_timeFunc t"]
    unfolding time_cmp_cut_def by (simp add: trimmed_def)
qed

text \<open>The text of a supported condition: what the splitters and the reader need to know of it.\<close>

lemma condition_text:
  assumes "supported_cond c"
  shows "calm (buildRequestConditionExpr c)" "buildRequestConditionExpr c \<noteq> []"
    "trimmed (buildRequestConditionExpr c)"
    "tryParseRequestCondition (wrap_or (buildRequestConditionExpr c)) = Some (Some c)"
proof -
  have "calm (buildRequestConditionExpr c) \<and> buildRequestConditionExpr c \<noteq> [] \<and>
    trimmed (buildRequestConditionExpr c) \<and>
    tryParseRequestCondition (wrap_or (buildRequestConditionExpr c)) = Some (Some c)"
  proof (cases c)
    case (TimeC t)
    have sup: "supported_cond (TimeC t)" using assms TimeC by (simp only:)
    have z: "quiet (tc_timezone t)" using sup plain_name_facts(5) by auto
    note rd = read_time_condition [OF sup]
    show ?thesis
    proof (cases "tc_mode t = MATCH_RANGE")
      case True
      note cut = time_text_range [OF sup True]
      from range_text_facts [OF cut z] read_time_range(2) [OF cut] time_text_ends [OF sup] rd TimeC
      show ?thesis by (simp add: wrap_or_def tryParseRequestCondition_def)
    next
      case False
      note cut = time_text_cmp [OF sup False]
      from cmp_text_facts [OF cut z] no_bar_includes [OF cmp_text_facts(2) [OF cut z]]
        time_text_ends [OF sup] rd TimeC
      show ?thesis by (simp add: wrap_or_def tryParseRequestCondition_def)
    qed
  next
    case (ParamHeaderC p)
    have sup: "supported_cond (ParamHeaderC p)" using assms ParamHeaderC by (simp only:)
    have "buildRequestConditionExpr c = build_param_header p"
      using normalize_supported [OF sup] ParamHeaderC by simp
    with ph_text_facts [OF sup] no_bar_includes [of "build_param_header p"] read_condition [OF assms]
    show ?thesis by (simp add: wrap_or_def)
  qed
  then show "calm (buildRequestConditionExpr c)" "buildRequestConditionExpr c \<noteq> []"
    "trimmed (buildRequestConditionExpr c)"
    "tryParseRequestCondition (wrap_or (buildRequestConditionExpr c)) = Some (Some c)" by blast+
qed

lemma wrap_or_text:
  assumes "calm e" "e \<noteq> []" "trimmed e"
  shows "calm (wrap_or e)" "wrap_or e \<noteq> []" "trimmed (wrap_or e)"
  using assms calm_parens [OF assms(1)] by (simp_all add: wrap_or_def trimmed_def is_space_def)

lemma calm_top_part: "calm e \<Longrightarrow> e \<noteq> [] \<Longrightarrow> trimmed e \<Longrightarrow> top_part '' && '' e"
  by (simp add: calm_def top_part_no_amp)

definition supported_group :: "RequestRuleGroup \<Rightarrow> bool" where
  "supported_group g \<longleftrightarrow>
     rg_conditions g \<noteq> [] \<and> list_all supported_cond (rg_conditions g) \<and> numeric (rg_multiplier g)"

definition group_parts :: "RequestRuleGroup \<Rightarrow> string list" where
  "group_parts g =
     (let es = map buildRequestConditionExpr (rg_conditions g)
      in if length es = 1 then es else map wrap_or es)"

lemma group_parts_facts:
  assumes "supported_group g"
  shows "group_parts g \<noteq> []" "\<forall>p \<in> set (group_parts g). calm p \<and> p \<noteq> [] \<and> trimmed p"
    "collect_parts (\<lambda>ap. tryParseRequestCondition (trim ap)) (group_parts g) =
      Some (Some (rg_conditions g))"
proof -
  have cs: "rg_conditions g \<noteq> []" "\<forall>c \<in> set (rg_conditions g). supported_cond c"
    using assms by (auto simp: supported_group_def list_all_iff)
  then show "group_parts g \<noteq> []" by (auto simp: group_parts_def Let_def)
  show "\<forall>p \<in> set (group_parts g). calm p \<and> p \<noteq> [] \<and> trimmed p"
    using cs condition_text wrap_or_text by (auto simp: group_parts_def Let_def split: if_splits)
  have col: "collect_parts (\<lambda>ap. tryParseRequestCondition (trim ap)) (map (f \<circ> buildRequestConditionExpr) xs) =
      Some (Some xs)"
    if "\<forall>c \<in> set xs. tryParseRequestCondition (f (buildRequestConditionExpr c)) = Some (Some c) \<and>
      trimmed (f (buildRequestConditionExpr c))" for f xs
    using that by (induction xs) (auto simp: trim_id)
  show "collect_parts (\<lambda>ap. tryParseRequestCondition (trim ap)) (group_parts g) =
      Some (Some (rg_conditions g))"
  proof (cases "length (rg_conditions g) = 1")
    case True
    with col [of "rg_conditions g" "\<lambda>e. e"] cs read_condition condition_text(3) show ?thesis
      by (simp add: group_parts_def comp_def)
  next
    case False
    with col [of "rg_conditions g" wrap_or] cs condition_text wrap_or_text(3) show ?thesis
      by (simp add: group_parts_def)
  qed
qed

lemma build_factor:
  assumes "supported_group g"
  shows "buildRuleGroupFactor g =
    ''('' @ join '' && '' (group_parts g) @ '' ? '' @ rg_multiplier g @ '' : 1)''"
proof -
  have m: "numeric (rg_multiplier g)" using assms by (simp add: supported_group_def)
  have ne: "\<forall>e \<in> set (map buildRequestConditionExpr (rg_conditions g)). e \<noteq> []"
    using assms condition_text(2) by (auto simp: supported_group_def list_all_iff)
  then have f: "filter (\<lambda>e. e \<noteq> []) (map buildRequestConditionExpr (rg_conditions g)) =
      map buildRequestConditionExpr (rg_conditions g)"
    by (simp add: filter_id_conv)
  have c: "rg_conditions g \<noteq> []" using assms by (simp add: supported_group_def)
  have one: "join '' && '' xs = xs ! 0" if "length xs = 1" for xs
    using that by (cases xs) auto
  show ?thesis
    unfolding buildRuleGroupFactor_def Let_def f numeric_trim [OF m]
    using m c one [of "map buildRequestConditionExpr (rg_conditions g)"]
    by (simp add: numeric_def [symmetric] group_parts_def Let_def)
qed

lemma read_factor:
  assumes "supported_group g"
  shows "tryParseRuleGroupFactor (buildRuleGroupFactor g) = Some (Some g)"
proof -
  note gp = group_parts_facts [OF assms]
  let ?u = "join '' && '' (group_parts g)"
  have u: "?u \<noteq> []" using join_ends [of "group_parts g" "'' && ''"] gp by blast
  have "rx_match rule_factor_rx (buildRuleGroupFactor g) = Some [(2, rg_multiplier g), (1, ?u)]"
    unfolding match_rule_factor build_factor [OF assms]
    using u numeric_num assms by (auto simp: supported_group_def)
  moreover have "splitTopLevelAnd ?u = group_parts g"
    using gp calm_top_part by (intro conj.split_join) auto
  ultimately show ?thesis
    using gp assms by (simp add: tryParseRuleGroupFactor_def supported_group_def)
qed

lemma balanced_join: "balanced sep \<Longrightarrow> \<forall>x \<in> set xs. balanced x \<Longrightarrow> balanced (join sep xs)"
  by (induction sep xs rule: join.induct) (auto intro: balanced_append)

lemma factor_part:
  assumes "supported_group g"
  shows "top_part '' * '' (buildRuleGroupFactor g)"
proof -
  have "balanced (join '' && '' (group_parts g))"
    using group_parts_facts(2) [OF assms] by (intro balanced_join) (auto simp: calm_def balanced_flat)
  moreover have "balanced ('' ? '' @ rg_multiplier g @ '' : 1'')"
    using assms numeric_num num_char_no by (intro balanced_flat) (auto simp: supported_group_def)
  ultimately have "balanced (join '' && '' (group_parts g) @ '' ? '' @ rg_multiplier g @ '' : 1'')"
    by (rule balanced_append)
  from top_part_parens [OF this, of "'' * ''"] show ?thesis
    by (simp add: build_factor [OF assms])
qed

lemma build_rules:
  "\<forall>g \<in> set gs. supported_group g \<Longrightarrow>
    buildRequestRuleExpr gs = join '' * '' (map buildRuleGroupFactor gs)"
  using factor_part by (simp add: buildRequestRuleExpr_def filter_id_conv top_part_def)

lemma collect_factors:
  "\<forall>g \<in> set gs. supported_group g \<Longrightarrow>
    collect_parts tryParseRuleGroupFactor (map buildRuleGroupFactor gs) = Some (Some gs)"
  by (induction gs) (simp_all add: read_factor)

lemma rules_trimmed:
  assumes "gs \<noteq> []" "\<forall>g \<in> set gs. supported_group g"
  shows "trim (buildRequestRuleExpr gs) = buildRequestRuleExpr gs \<and> buildRequestRuleExpr gs \<noteq> []"
proof -
  have "\<forall>x \<in> set (map buildRuleGroupFactor gs). x \<noteq> [] \<and> trimmed x"
    using assms(2) factor_part by (simp add: top_part_def)
  with assms(1) join_ends [of "map buildRuleGroupFactor gs" "'' * ''"]
    trimmed_join [of "map buildRuleGroupFactor gs" "'' * ''"]
  show ?thesis by (simp add: build_rules [OF assms(2)] trim_id)
qed

lemma read_rules:
  assumes "\<forall>g \<in> set gs. supported_group g"
  shows "tryParseRequestRuleExpr (buildRequestRuleExpr gs) = Some (Some gs)"
proof (cases "gs = []")
  case True
  then show ?thesis by (simp add: tryParseRequestRuleExpr_def buildRequestRuleExpr_def)
next
  case False
  have "splitTopLevelMultiply (buildRequestRuleExpr gs) = map buildRuleGroupFactor gs"
    unfolding build_rules [OF assms] using False assms factor_part by (intro mul.split_join) auto
  with rules_trimmed [OF False assms] collect_factors [OF assms] show ?thesis
    by (simp add: tryParseRequestRuleExpr_def)
qed

subsection \<open>Outer parentheses\<close>

lemma unwrap_loop_normal: "\<not> hasFullOuterParens (unwrap_loop s)"
proof (induction s rule: unwrap_loop.induct)
  case (1 s)
  then show ?case by (subst unwrap_loop.simps) simp
qed

lemma unwrap_loop_trimmed: "trimmed s \<Longrightarrow> trimmed (unwrap_loop s)"
proof (induction s rule: unwrap_loop.induct)
  case (1 s)
  then show ?case by (subst unwrap_loop.simps) simp
qed

lemma unwrap_loop_id: "\<not> hasFullOuterParens s \<Longrightarrow> unwrap_loop s = s"
  by (simp add: unwrap_loop.simps)

lemma unwrap_facts: "trim (unwrapOuterParens e) = unwrapOuterParens e"
  "\<not> hasFullOuterParens (unwrapOuterParens e)" "unwrapOuterParens (unwrapOuterParens e) = unwrapOuterParens e"
  by (simp_all add: unwrapOuterParens_def unwrap_loop_normal unwrap_loop_trimmed unwrap_loop_id trim_id)

interpretation unwrap_nf: normalizer unwrapOuterParens
  by unfold_locales (rule unwrap_facts(3))

lemma outer_loop_inside:
  "stays 1 d p \<Longrightarrow> outer_parens_loop d (p @ q) \<longleftrightarrow> outer_parens_loop (nest d p) q"
  by (induction p arbitrary: d) (auto simp: Let_def)

lemma full_outer_parens: "balanced x \<Longrightarrow> hasFullOuterParens (''('' @ x @ '')'')"
proof -
  assume x: "balanced x"
  have st: "stays 1 0 (CHR ''('' # x)"
    using balanced_stays [OF x, of 1 1] by (simp add: paren_step_def)
  have "outer_parens_loop 0 ((CHR ''('' # x) @ '')'')"
    unfolding outer_loop_inside [OF st] by (simp add: balanced_nest [OF x] paren_step_def)
  then show ?thesis by (simp add: hasFullOuterParens_def starts_with_def ends_with_def)
qed

lemma unwrap_parens: "balanced x \<Longrightarrow> unwrapOuterParens (''('' @ x @ '')'') = unwrapOuterParens x"
proof -
  assume x: "balanced x"
  have t: "trim (''('' @ x @ '')'') = ''('' @ x @ '')''"
    by (rule trim_id) (simp add: trimmed_def is_space_def)
  have "unwrap_loop (''('' @ x @ '')'') = unwrap_loop (trim (strip_ends (''('' @ x @ '')'')))"
    using full_outer_parens [OF x] by (subst unwrap_loop.simps) simp
  also have "strip_ends (''('' @ x @ '')'') = x" by (simp add: strip_ends_def slice_def)
  finally show ?thesis unfolding unwrapOuterParens_def t .
qed

subsection \<open>Combining and splitting\<close>

lemma factor_rule:
  "supported_group g \<Longrightarrow> tryParseRequestRuleExpr (buildRuleGroupFactor g) = Some (Some [g])"
  using read_rules [of "[g]"] build_rules [of "[g]"] by simp

lemma classify_factors:
  "\<forall>g \<in> set gs. supported_group g \<Longrightarrow>
    classify_parts (map buildRuleGroupFactor gs) = Some (map buildRuleGroupFactor gs, [])"
  by (induction gs) (simp_all add: factor_rule)

lemma split_combined:
  assumes "gs \<noteq> []" "\<forall>g \<in> set gs. supported_group g" "trim base \<noteq> []" "balanced (trim base)"
    "tryParseRequestRuleExpr (''('' @ trim base @ '')'') = Some None"
  shows "splitBillingExprAndRequestRules (combineBillingExpr base (buildRequestRuleExpr gs)) =
    Some (unwrapOuterParens base, buildRequestRuleExpr gs)"
proof -
  let ?b = "''('' @ trim base @ '')''"
  let ?ps = "?b # map buildRuleGroupFactor gs"
  have parts: "\<forall>p \<in> set ?ps. top_part '' * '' p"
    using assms(2,4) factor_part top_part_parens [of "trim base" "'' * ''"] by auto
  then have ne: "\<forall>p \<in> set ?ps. p \<noteq> [] \<and> trimmed p" by (simp add: top_part_def)
  have c: "combineBillingExpr base (buildRequestRuleExpr gs) = join '' * '' ?ps"
    using assms(1-3) rules_trimmed [OF assms(1,2)]
    by (simp add: combineBillingExpr_def Let_def build_rules join_Cons)
  have tr: "trim (join '' * '' ?ps) = join '' * '' ?ps"
    by (rule trim_id, rule trimmed_join) (use ne in auto)
  have j: "join '' * '' ?ps \<noteq> []" using join_ends [of ?ps "'' * ''"] ne by blast
  have sp: "splitTopLevelMultiply (join '' * '' ?ps) = ?ps" using parts by (intro mul.split_join) auto
  have cl: "classify_parts ?ps = Some (map buildRuleGroupFactor gs, [?b])"
    using assms(5) classify_factors [OF assms(2)] by simp
  have "unwrapOuterParens ?b = unwrapOuterParens base"
    using unwrap_parens [OF assms(4)] by (simp add: unwrapOuterParens_def)
  then show ?thesis
    unfolding splitBillingExprAndRequestRules_def c tr Let_def sp cl
    using assms(1) j build_rules [OF assms(2)] by simp
qed

subsection \<open>Comparisons of parameters\<close>

definition compare_text :: "string \<Rightarrow> string \<Rightarrow> string \<Rightarrow> string" where
  "compare_text u op n = ''param('' @ dq @ u @ dq @ '') '' @ op @ '' '' @ n"

lemma build_compare:
  assumes "plain_name u" "numeric n" "mode \<in> {MATCH_GT, MATCH_GTE, MATCH_LT, MATCH_LTE}"
  shows "buildRequestConditionExpr (ph_cond ''param'' u mode n) =
    join '' && '' [''param('' @ dq @ u @ dq @ '') != nil'', compare_text u (cmp_mode_op mode) n]"
proof -
  have "mode \<in> set (map fst (getRequestRuleMatchOptions ''param''))"
    using assms(3) by (auto simp: getRequestRuleMatchOptions_def match_defs)
  then have "normalizeCondition (Some (to_partial (ph_cond ''param'' u mode n))) = ph_cond ''param'' u mode n"
    using plain_name_facts(1) [OF assms(1)]
    by (simp add: ph_cond_def normalizeCondition_def or_default_def mode_or_def str_or_empty_def)
  moreover have "mode \<noteq> MATCH_EXISTS" "mode \<noteq> MATCH_CONTAINS" using assms(3) by (auto simp: match_defs)
  ultimately show ?thesis
    using assms plain_name_facts [OF assms(1)]
    by (simp add: ph_cond_def build_param_header_def Let_def compare_text_def numeric_def [symmetric])
qed

lemma compare_op_cases:
  "mode \<in> {MATCH_GT, MATCH_GTE, MATCH_LT, MATCH_LTE} \<Longrightarrow>
    cmp_mode_op mode \<in> {''>'', ''>='', ''<'', ''<=''} \<and> cmp_op_mode (cmp_mode_op mode) = mode"
  by (auto simp: cmp_mode_op_def cmp_op_mode_def match_defs)

lemma compare_text_unread:
  assumes "CHR 0x22 \<notin> set u" "op \<in> {''>'', ''>='', ''<'', ''<=''}"
  shows "tryParseRequestCondition (compare_text u op n) = Some None"
proof -
  let ?s = "compare_text u op n"
  have s: "?s = ''param('' @ (dq @ u @ dq @ '') '' @ op @ '' '' @ n)" by (simp add: compare_text_def)
  have s': "?s = ''param('' @ dq @ u @ dq @ '')'' @ ('' '' @ op @ '' '' @ n)" by (simp add: compare_text_def)
  have t: "tryParseTimeCondition ?s = None"
    unfolding s using no_time [of "''param''"] by simp
  have hc: "rx_match header_contains_rx ?s = None" unfolding s by (rule other_source_none)
  have n: "rx_match header_exists_rx ?s = None" "rx_match param_exists_rx ?s = None"
    "rx_match equals_rx ?s = None"
    by (rule rx_match_NoneI, use assms in \<open>auto simp: match_header_exists match_param_exists match_equals
        compare_text_def cut_first_unique\<close>)+
  have c: "rx_match param_contains_rx ?s = None" "rx_match param_compare_rx ?s = None"
    unfolding s' by (rule param_contains_none param_compare_none; use assms in auto)+
  show ?thesis
    unfolding tryParseRequestCondition_def t n hc c parse_compare_def parse_equals_def by simp
qed

lemma compare_parts:
  assumes "plain_name u" "numeric n" "op \<in> {''>'', ''>='', ''<'', ''<=''}"
  shows "splitTopLevelAnd (join '' && '' [''param('' @ dq @ u @ dq @ '') != nil'', compare_text u op n]) =
    [''param('' @ dq @ u @ dq @ '') != nil'', compare_text u op n]"
proof (rule conj.split_join)
  note u = plain_name_facts [OF assms(1)] and n = numeric_num [OF assms(2)]
  have "calm (''param'' @ ''('' @ dq @ u @ dq @ '')'' @ '' != nil'')"
    "calm (''param'' @ ''('' @ dq @ u @ dq @ '')'' @ ('' '' @ op @ '' '' @ n))"
    using u assms(3) quiet_num [of n] n by (intro calm_call; auto)+
  moreover have "trimmed (compare_text u op n)"
    using num_last [OF n] n by (simp add: compare_text_def trimmed_def is_space_def)
  ultimately show "\<forall>p \<in> set [''param('' @ dq @ u @ dq @ '') != nil'', compare_text u op n]. top_part '' && '' p"
    using calm_top_part [of "''param'' @ ''('' @ dq @ u @ dq @ '')'' @ '' != nil''"]
      calm_top_part [of "compare_text u op n"]
    by (simp add: compare_text_def trimmed_def is_space_def)
qed simp

lemma compare_balanced:
  assumes "plain_name u" "numeric n" "op \<in> {''>'', ''>='', ''<'', ''<=''}"
  shows "balanced (join '' && '' [''param('' @ dq @ u @ dq @ '') != nil'', compare_text u op n])"
proof -
  have "balanced (compare_text u op n)" "balanced (''param('' @ dq @ u @ dq @ '') != nil'')"
    using calm_call [of "''param''" u "'' '' @ op @ '' '' @ n"] calm_call [of "''param''" u "'' != nil''"]
      plain_name_facts(5) [OF assms(1)] assms(3) quiet_num numeric_num [OF assms(2)]
    by (auto simp: calm_def compare_text_def)
  then show ?thesis by (intro balanced_join) (auto intro!: balanced_flat)
qed

text \<open>Normalisation of editor state.\<close>

fun wf_cond :: "RequestCondition \<Rightarrow> bool" where
  "wf_cond (TimeC c) =
     (tc_timeFunc c \<in> set TIME_FUNCS \<and> tc_timezone c \<noteq> [] \<and>
      tc_mode c \<in> set (map fst (getRequestRuleMatchOptions SOURCE_TIME)))"
| "wf_cond (ParamHeaderC c) =
     ((ph_source c = SOURCE_PARAM \<or> ph_source c = SOURCE_HEADER) \<and>
      ph_mode c \<in> set (map fst (getRequestRuleMatchOptions (ph_source c))))"

lemma mode_or_wf:
  "d \<in> set (map fst (getRequestRuleMatchOptions s)) \<Longrightarrow>
    mode_or s m d \<in> set (map fst (getRequestRuleMatchOptions s))"
  by (simp add: mode_or_def split: option.splits)

lemma default_modes:
  "MATCH_GTE \<in> set (map fst (getRequestRuleMatchOptions SOURCE_TIME))"
  "MATCH_EQ \<in> set (map fst (getRequestRuleMatchOptions s))"
  by (simp_all add: getRequestRuleMatchOptions_def Let_def)

lemma normalize_wf: "wf_cond (normalizeCondition p)"
  using mode_or_wf default_modes
  by (simp add: normalizeCondition_def Let_def isTimeFunc_def TIME_FUNCS_def or_default_def
      SOURCE_PARAM_def SOURCE_HEADER_def split: option.splits)

lemma normalize_fixed: "wf_cond c \<Longrightarrow> normalizeCondition (Some (to_partial c)) = c"
proof (cases c)
  case (TimeC t)
  assume "wf_cond c"
  then show ?thesis
    unfolding TimeC by (cases t)
      (simp add: normalizeCondition_def isTimeFunc_def or_default_def mode_or_def str_or_empty_def)
next
  case (ParamHeaderC p)
  assume "wf_cond c"
  then show ?thesis
    unfolding ParamHeaderC by (cases p)
      (auto simp: normalizeCondition_def or_default_def mode_or_def str_or_empty_def Let_def
        SOURCE_PARAM_def SOURCE_HEADER_def simp del: set_map)
qed

interpretation cond_nf: normalizer "\<lambda>c. normalizeCondition (Some (to_partial c))"
  by unfold_locales (simp add: normalize_fixed normalize_wf)

subsection \<open>Properties\<close>

text \<open>C28: Normalising any partial, missing or malformed condition of the editor gives a well-formed
  condition (a known time function, a time zone, a mode offered for its source), and well-formed
  conditions are exactly those normalisation leaves alone.\<close>

theorem normalize_condition_wf:
  "wf_cond (normalizeCondition p) \<and>
   (wf_cond c \<longleftrightarrow> normalizeCondition (Some (to_partial c)) = c)"
  using normalize_wf normalize_fixed by metis

text \<open>C1: Request rules survive the editor: reading the expression printed for a list of supported rule
  groups gives back exactly these groups, conditions, operands and multipliers included.\<close>

theorem rules_roundtrip:
  assumes "\<forall>g \<in> set gs. supported_group g"
  shows "tryParseRequestRuleExpr (buildRequestRuleExpr gs) = Some (Some gs)"
  using assms by (rule read_rules)

definition night_group :: RequestRuleGroup where
  "night_group =
     \<lparr>rg_conditions =
        [TimeC \<lparr>tc_timeFunc = ''hour'', tc_timezone = ''Asia/Shanghai'', tc_mode = MATCH_RANGE,
           tc_value = [], tc_rangeStart = ''22'', tc_rangeEnd = ''6''\<rparr>,
         ph_cond ''header'' ''X-Beta'' MATCH_CONTAINS ''fast-mode'',
         ph_cond ''param'' ''service_tier'' MATCH_EQ ''flex''],
      rg_multiplier = ''0.5''\<rparr>"

lemma night_group_supported: "supported_group night_group"
proof -
  have "numeric ''22''" "numeric ''6''" "numeric ''0.5''" by code_simp+
  moreover have "plain_name ''Asia/Shanghai''" "plain_name ''X-Beta''" "plain_name ''service_tier''"
    by code_simp+
  moreover have "trim ''fast-mode'' = ''fast-mode''" "trim ''flex'' = ''flex''" by code_simp+
  ultimately show ?thesis
    by (simp add: supported_group_def night_group_def ph_cond_def match_defs TIME_FUNCS_def)
qed

theorem rules_roundtrip_witness:
  "tryParseRequestRuleExpr (buildRequestRuleExpr [night_group, night_group]) =
     Some (Some [night_group, night_group])"
  by (rule rules_roundtrip) (simp add: night_group_supported)



text \<open>C39: A numeric comparison of a request parameter is lost by the editor: the group printed for it is
  not read back (the reader splits it at the conjunction the printer put into the condition).\<close>

theorem param_compare_not_reparsed:
  assumes "plain_name u" "numeric n" "numeric k" "mode \<in> {MATCH_GT, MATCH_GTE, MATCH_LT, MATCH_LTE}"
  shows "tryParseRequestRuleExpr (buildRequestRuleExpr
      [\<lparr>rg_conditions = [ph_cond ''param'' u mode n], rg_multiplier = k\<rparr>]) = Some None"
proof -
  let ?g = "\<lparr>rg_conditions = [ph_cond ''param'' u mode n], rg_multiplier = k\<rparr>"
  let ?op = "cmp_mode_op mode"
  let ?e = "join '' && '' [''param('' @ dq @ u @ dq @ '') != nil'', compare_text u ?op n]"
  have op: "?op \<in> {''>'', ''>='', ''<'', ''<=''}" using compare_op_cases [OF assms(4)] by blast
  note u = plain_name_facts [OF assms(1)]
  have e: "?e \<noteq> []" by simp
  have b: "buildRuleGroupFactor ?g = ''('' @ ?e @ '' ? '' @ k @ '' : 1)''"
    unfolding buildRuleGroupFactor_def Let_def
    using build_compare [OF assms(1,2,4)] e assms(3) by (simp add: numeric_def [symmetric])
  have "rx_match rule_factor_rx (buildRuleGroupFactor ?g) = Some [(2, k), (1, ?e)]"
    unfolding match_rule_factor b using numeric_num [OF assms(3)] e by blast
  moreover have "collect_parts (\<lambda>ap. tryParseRequestCondition (trim ap)) (splitTopLevelAnd ?e) = Some None"
  proof -
    have "trim (''param('' @ dq @ u @ dq @ '') != nil'') = ''param('' @ dq @ u @ dq @ '') != nil''"
      "trim (compare_text u ?op n) = compare_text u ?op n"
      using num_last [OF numeric_num [OF assms(2)]] numeric_num [OF assms(2)]
      by (auto intro!: trim_id simp: compare_text_def trimmed_def is_space_def)
    then show ?thesis
      unfolding compare_parts [OF assms(1,2) op]
      using read_exists(2) [OF u(1,3)] compare_text_unread [OF u(3) op] by simp
  qed
  ultimately have f: "tryParseRuleGroupFactor (buildRuleGroupFactor ?g) = Some None"
    by (simp add: tryParseRuleGroupFactor_def)
  have bal: "balanced (?e @ '' ? '' @ k @ '' : 1'')"
    using compare_balanced [OF assms(1,2) op] numeric_num [OF assms(3)] num_char_no [of k]
    by (intro balanced_append) (auto intro!: balanced_flat)
  have tp: "top_part '' * '' (buildRuleGroupFactor ?g)"
    using top_part_parens [OF bal, of "'' * ''"] unfolding b by simp
  then have "buildRequestRuleExpr [?g] = buildRuleGroupFactor ?g"
    by (simp add: buildRequestRuleExpr_def top_part_def)
  with tp f mul.split_part [OF tp] show ?thesis
    by (simp add: tryParseRequestRuleExpr_def top_part_def trim_id)
qed

theorem param_compare_not_reparsed_witness:
  "tryParseRequestRuleExpr (buildRequestRuleExpr
      [\<lparr>rg_conditions = [ph_cond ''param'' ''max_tokens'' MATCH_GT ''4096''], rg_multiplier = ''2''\<rparr>]) =
    Some None"
proof -
  have "plain_name ''max_tokens''" "numeric ''4096''" "numeric ''2''" by code_simp+
  then show ?thesis by (intro param_compare_not_reparsed) simp_all
qed

end
