(* ===== verification/Tier_Expr.thy ===== *)
theory Tier_Expr
  imports Billing_Expr
begin

section \<open>The visual tier editor\<close>

text \<open>
  \<open>web/default/src/features/pricing/lib/tier-expr.ts\<close>: normalisation of the editor's tiers, printing
  a configuration as a billing expression and reading one back.  A tier is a JavaScript object with
  open fields (the type has an index signature), so it is a property list; the spread \<open>...tier\<close> is
  the assignment of all its properties in order.

  \<open>evalExprLocally\<close> compiles the expression with \<open>new Function\<close> and is not modelled.
\<close>

subsection \<open>Tiers\<close>

definition CACHE_MODE_TIMED :: string where "CACHE_MODE_TIMED = ''timed''"
definition CACHE_MODE_GENERIC :: string where "CACHE_MODE_GENERIC = ''generic''"

type_synonym VisualTier = "jsval jsobj"

definition obj_spread :: "'v jsobj \<Rightarrow> 'v jsobj \<Rightarrow> 'v jsobj" where
  "obj_spread ob src = foldl (\<lambda>acc (k, v). obj_set k v acc) ob src"

definition getTierCacheMode :: "VisualTier option \<Rightarrow> string" where
  "getTierCacheMode tier =
     (let mode = (case tier of None \<Rightarrow> JUndef | Some t \<Rightarrow> obj_get t ''cache_mode'');
          cost = (case tier of None \<Rightarrow> JUndef | Some t \<Rightarrow> obj_get t ''cache_create_1h_unit_cost'')
      in if mode = JStr CACHE_MODE_TIMED then CACHE_MODE_TIMED
         else if mode = JStr CACHE_MODE_GENERIC then CACHE_MODE_GENERIC
         else if num_less (Fin 0) (to_number cost) then CACHE_MODE_TIMED else CACHE_MODE_GENERIC)"

definition number_or_zero :: "jsval \<Rightarrow> jsval" where
  "number_or_zero v = JNum (let n = to_number v in if num_truthy n then n else Fin 0)"

definition tier_cost :: "VisualTier \<Rightarrow> string \<Rightarrow> jsval" where
  "tier_cost tier field = number_or_zero (obj_get tier field)"

definition optional_cost_fields :: "string list" where
  "optional_cost_fields =
     [''cache_read_unit_cost'', ''cache_create_unit_cost'', ''cache_create_1h_unit_cost'',
      ''image_unit_cost'', ''image_output_unit_cost'', ''audio_input_unit_cost'',
      ''audio_output_unit_cost'']"

definition normalizeVisualTier :: "VisualTier \<Rightarrow> VisualTier" where
  "normalizeVisualTier tier =
     (let label = obj_get tier ''label'';
          conds = obj_get tier ''conditions'';
          defaults = obj_of
            [(''label'', if nullish label then JStr [] else label),
             (''input_unit_cost'', tier_cost tier ''input_unit_cost''),
             (''output_unit_cost'', tier_cost tier ''output_unit_cost''),
             (''cache_mode'', JStr (getTierCacheMode (Some tier))),
             (''conditions'', if is_arr conds then conds else JArr [])]
      in obj_spread (obj_spread defaults tier) (map (\<lambda>f. (f, tier_cost tier f)) optional_cost_fields))"

definition createDefaultVisualConfig :: "VisualTier list" where
  "createDefaultVisualConfig =
     [normalizeVisualTier (obj_of
        [(''conditions'', JArr []), (''input_unit_cost'', JNum (Fin 0)),
         (''output_unit_cost'', JNum (Fin 0)), (''label'', JStr ''base''),
         (''cache_mode'', JStr CACHE_MODE_GENERIC)])]"

definition normalizeVisualConfig :: "VisualTier list option \<Rightarrow> VisualTier list" where
  "normalizeVisualConfig config =
     (case config of
        None \<Rightarrow> createDefaultVisualConfig
      | Some tiers \<Rightarrow> (if length tiers = 0 then createDefaultVisualConfig else map normalizeVisualTier tiers))"

subsection \<open>Printing\<close>

definition buildConditionStr :: "jsval \<Rightarrow> string" where
  "buildConditionStr conditions = (case conditions of
       JArr cs \<Rightarrow>
         (if length cs = 0 then []
          else join '' && ''
            (map (\<lambda>c. to_str (get_prop c ''var'') @ '' '' @ to_str (get_prop c ''op'') @ '' '' @
                      to_str (get_prop c ''value''))
              (filter (\<lambda>c. truthy (get_prop c ''var'') \<and> truthy (get_prop c ''op'') \<and>
                  \<not> nullish (get_prop c ''value'') \<and> get_prop c ''value'' \<noteq> JStr []) cs)))
     | _ \<Rightarrow> [])"

definition buildTierBodyExpr :: "VisualTier \<Rightarrow> string" where
  "buildTierBodyExpr tier =
     join '' + ''
       ([''p * '' @ to_str (tier_cost tier ''input_unit_cost''),
         ''c * '' @ to_str (tier_cost tier ''output_unit_cost'')] @
        concat (map (\<lambda>(field, exprVar).
            let v = tier_cost tier field in
            if v \<noteq> JNum (Fin 0) then [exprVar @ '' * '' @ to_str v] else [])
          BILLING_CACHE_VAR_MAP))"

definition tier_call :: "VisualTier \<Rightarrow> string \<Rightarrow> string" where
  "tier_call tier default_label =
     (let label = obj_get tier ''label'' in
      ''tier('' @ dq @ to_str (if truthy label then label else JStr default_label) @ dq @ '', '' @
        buildTierBodyExpr tier @ '')'')"

fun tier_parts :: "nat \<Rightarrow> VisualTier list \<Rightarrow> string list" where
  "tier_parts i [] = []"
| "tier_parts i (tier # rest) =
     (let body = tier_call tier (''tier_'' @ nat_str (i + 1));
          cond = buildConditionStr (obj_get tier ''conditions'')
      in (if rest \<noteq> [] \<and> cond \<noteq> [] then cond @ '' ? '' @ body else body) # tier_parts (Suc i) rest)"

definition generateExprFromVisualConfig :: "VisualTier list option \<Rightarrow> string" where
  "generateExprFromVisualConfig config =
     (case config of
        None \<Rightarrow> ''p * 0 + c * 0''
      | Some tiers \<Rightarrow>
          (if length tiers = 0 then ''p * 0 + c * 0''
           else if length tiers = 1 then
             (let tier = tiers ! 0;
                  body = tier_call tier ''default'';
                  cond = buildConditionStr (obj_get tier ''conditions'')
              in if cond \<noteq> [] then cond @ '' ? '' @ body @ '' : p * 0 + c * 0'' else body)
           else join '' : '' (tier_parts 0 tiers)))"

subsection \<open>Reading\<close>

definition visual_version_rx :: rx where
  "visual_version_rx = cats [Bol, chr (CHR ''v''), rx_plus (Chr is_digit), chr (CHR '':''),
     Grp 1 (Star (Chr (\<lambda>_. True))), Eol]"

fun opt_cache_rxs :: "nat \<Rightarrow> string list \<Rightarrow> rx list" where
  "opt_cache_rxs i [] = []"
| "opt_cache_rxs i (v # vs) =
     rx_opt (cats [spaces, chr (CHR ''+''), spaces, lit v, spaces, chr (CHR ''*''), spaces,
                   Grp i (rx_plus (Chr num_char))]) # opt_cache_rxs (Suc i) vs"

definition body_pat :: "nat \<Rightarrow> rx list" where
  "body_pat i =
     [chr (CHR ''p''), spaces, chr (CHR ''*''), spaces, Grp i (rx_plus (Chr num_char)), spaces,
      chr (CHR ''+''), spaces, chr (CHR ''c''), spaces, chr (CHR ''*''), spaces,
      Grp (i + 1) (rx_plus (Chr num_char))] @
     opt_cache_rxs (i + 2) (map snd BILLING_CACHE_VAR_MAP)"

definition tier_open :: "nat \<Rightarrow> rx list" where
  "tier_open i = [lit ''tier('', chr (CHR 0x22), Grp i (Star (Chr not_quote)), chr (CHR 0x22),
     chr (CHR '',''), spaces]"

definition singleRe :: rx where
  "singleRe = cats ([Bol] @ tier_open 1 @ body_pat 2 @ [chr (CHR '')''), Eol])"

definition visual_tierRe :: rx where
  "visual_tierRe =
     cats ([rx_opt (cats [condGroup, spaces, chr (CHR ''?''), spaces])] @ tier_open 2 @ body_pat 3 @
           [chr (CHR '')'')])"

fun matched_costs :: "nat \<Rightarrow> caps \<Rightarrow> (string \<times> string) list \<Rightarrow> (string \<times> jsval) list" where
  "matched_costs i m [] = []"
| "matched_costs i m ((field, _) # cvs) =
     (case map_of m i of Some val \<Rightarrow> [(field, JNum (str_to_num val))] | None \<Rightarrow> []) @
     matched_costs (Suc i) m cvs"

definition matched_tier :: "nat \<Rightarrow> jsval \<Rightarrow> caps \<Rightarrow> VisualTier" where
  "matched_tier i conds m =
     normalizeVisualTier
       (obj_spread (obj_of [(''conditions'', conds),
           (''input_unit_cost'', JNum (str_to_num (cap (i + 1) m))),
           (''output_unit_cost'', JNum (str_to_num (cap (i + 2) m))),
           (''label'', JStr (cap i m))])
         (matched_costs (i + 3) m BILLING_CACHE_VAR_MAP))"

definition cond_object :: "TierCondition \<Rightarrow> jsval" where
  "cond_object c = JObj [(''var'', JStr (tcond_var c)), (''op'', JStr (tcond_op c)),
     (''value'', JNum (tcond_value c))]"

definition strip_ws :: "string \<Rightarrow> string" where
  "strip_ws s = filter (\<lambda>c. \<not> is_space c) s"

definition tryParseVisualConfig :: "string \<Rightarrow> VisualTier list option" where
  "tryParseVisualConfig exprStr =
     (if exprStr = [] then None
      else
        let body = (case rx_match visual_version_rx exprStr of Some m \<Rightarrow> cap 1 m | None \<Rightarrow> exprStr)
        in case rx_match singleRe body of
             Some m \<Rightarrow> Some (normalizeVisualConfig (Some [matched_tier 1 (JArr []) m]))
           | None \<Rightarrow>
             (let tiers = map (\<lambda>m. matched_tier 2
                     (JArr (map cond_object (parse_tier_conditions (cap 1 m)))) m)
                   (rx_match_all visual_tierRe body)
              in if length tiers = 0 then None
                 else
                   let cfg = normalizeVisualConfig (Some tiers);
                       regenerated = generateExprFromVisualConfig (Some cfg)
                   in if strip_ws regenerated \<noteq> strip_ws body then None else Some cfg))"

definition ESTIMATOR_VARS :: "(string \<times> string) list" where
  "ESTIMATOR_VARS =
     [(''cr'', ''cacheReadTokens''), (''cc'', ''cacheCreateTokens''),
      (''cc1h'', ''cacheCreate1hTokens''), (''img'', ''imageTokens''),
      (''img_o'', ''imageOutputTokens''), (''ai'', ''audioInputTokens''),
      (''ao'', ''audioOutputTokens'')]"

definition exprUsesExtraVars :: "string \<Rightarrow> bool" where
  "exprUsesExtraVars exprStr =
     (if exprStr = [] then False
      else rx_test (cats [WordB, Grp 1 (alternatives (map fst ESTIMATOR_VARS)), WordB]) exprStr)"

subsection \<open>Properties\<close>

lemma map_of_spread:
  "distinct (map fst src) \<Longrightarrow> map_of (obj_spread ob src) = map_of ob ++ map_of src"
proof (induction src arbitrary: ob)
  case (Cons p src)
  obtain k v where p: "p = (k, v)" by (cases p)
  have none: "map_of src k = None" using Cons.prems p by (auto simp: map_of_eq_None_iff)
  have "map_of (obj_spread ob (p # src)) = map_of (obj_set k v ob) ++ map_of src"
    using Cons by (simp add: obj_spread_def p)
  then show ?case
    by (simp add: fun_eq_iff map_add_def p none split: option.split)
qed (simp add: obj_spread_def)

lemma wf_spread: "wf_obj ob \<Longrightarrow> wf_obj (obj_spread ob src)"
  unfolding obj_spread_def by (induction src arbitrary: ob) (auto simp: wf_obj_set)

lemma number_or_zero_idem [simp]: "number_or_zero (number_or_zero v) = number_or_zero v"
  by (simp add: number_or_zero_def Let_def num_truthy_def)

definition tier_defaults :: "VisualTier \<Rightarrow> VisualTier" where
  "tier_defaults tier = obj_of
     [(''label'', if nullish (obj_get tier ''label'') then JStr [] else obj_get tier ''label''),
      (''input_unit_cost'', tier_cost tier ''input_unit_cost''),
      (''output_unit_cost'', tier_cost tier ''output_unit_cost''),
      (''cache_mode'', JStr (getTierCacheMode (Some tier))),
      (''conditions'', if is_arr (obj_get tier ''conditions'') then obj_get tier ''conditions'' else JArr [])]"

definition tier_costs :: "VisualTier \<Rightarrow> VisualTier" where
  "tier_costs tier = map (\<lambda>f. (f, tier_cost tier f)) optional_cost_fields"

lemma normalize_tier_unfold:
  "normalizeVisualTier t = obj_spread (obj_spread (tier_defaults t) t) (tier_costs t)"
  by (simp add: normalizeVisualTier_def tier_defaults_def tier_costs_def Let_def)

lemma map_of_tier_costs:
  "map_of (tier_costs t) f = (if f \<in> set optional_cost_fields then Some (tier_cost t f) else None)"
  by (auto simp: tier_costs_def map_of_map_restrict restrict_map_def)

lemma tier_costs_distinct: "distinct (map fst (tier_costs t))"
  by (simp add: tier_costs_def optional_cost_fields_def)

lemma dom_tier_defaults:
  "dom (map_of (tier_defaults t)) =
    {''label'', ''input_unit_cost'', ''output_unit_cost'', ''cache_mode'', ''conditions''}"
  by (auto simp: tier_defaults_def obj_of_def)

lemma map_of_normalize_tier:
  "distinct (map fst t) \<Longrightarrow>
    map_of (normalizeVisualTier t) = map_of (tier_defaults t) ++ map_of t ++ map_of (tier_costs t)"
  by (simp add: normalize_tier_unfold map_of_spread tier_costs_distinct)

lemma wf_normalize_tier: "wf_obj (normalizeVisualTier t)"
  by (simp add: normalize_tier_unfold tier_defaults_def wf_spread wf_obj_of)

lemma wf_obj_distinct: "wf_obj ob \<Longrightarrow> distinct (map fst ob)"
  by (simp add: wf_obj_def)

lemma tier_costs_idem:
  assumes "distinct (map fst t)"
  shows "tier_costs (normalizeVisualTier t) = tier_costs t"
proof -
  have "tier_cost (normalizeVisualTier t) f = tier_cost t f" if "f \<in> set optional_cost_fields" for f
  proof -
    have "map_of (normalizeVisualTier t) f = Some (tier_cost t f)"
      using that by (simp add: map_of_normalize_tier [OF assms] map_of_tier_costs)
    then show ?thesis by (simp add: tier_cost_def obj_get_def)
  qed
  then show ?thesis by (simp add: tier_costs_def)
qed

lemma normalize_tier_props:
  assumes "distinct (map fst t)"
  shows "map_of (normalizeVisualTier (normalizeVisualTier t)) = map_of (normalizeVisualTier t)"
proof -
  let ?n = "normalizeVisualTier t"
  have n: "map_of ?n = map_of (tier_defaults t) ++ map_of t ++ map_of (tier_costs t)"
    by (rule map_of_normalize_tier [OF assms])
  have "dom (map_of (tier_defaults ?n)) \<subseteq> dom (map_of ?n)"
    unfolding n dom_map_add dom_tier_defaults by blast
  then have d: "map_of (tier_defaults ?n) ++ map_of ?n = map_of ?n"
    by (auto simp: map_add_def fun_eq_iff split: option.splits)
  have "map_of (normalizeVisualTier ?n) =
      map_of (tier_defaults ?n) ++ map_of ?n ++ map_of (tier_costs t)"
    using map_of_normalize_tier [OF wf_obj_distinct [OF wf_normalize_tier]]
    by (simp add: tier_costs_idem [OF assms])
  also have "\<dots> = map_of ?n"
    unfolding d by (auto simp: n map_add_def fun_eq_iff split: option.splits)
  finally show ?thesis .
qed

text \<open>Normalising a tier of the visual editor twice is normalising it once: every property has the
  same value, whatever the tier held before.\<close>

lemma normalize_tier_idem:
  assumes "distinct (map fst tier)"
  shows "obj_get (normalizeVisualTier (normalizeVisualTier tier)) k = obj_get (normalizeVisualTier tier) k"
  using normalize_tier_props [OF assms] by (simp add: obj_get_def)

text \<open>The tier reader: every tier it returns prices exactly the registered variables, in registry
  order, by numbers other than NaN, under conditions on the registered condition variables.\<close>

lemma key_to_field:
  "BILLING_VAR_KEY_TO_FIELD =
    [(''p'', ''inputPrice''), (''c'', ''outputPrice''), (''cr'', ''cacheReadPrice''),
     (''cc'', ''cacheCreatePrice''), (''cc1h'', ''cacheCreate1hPrice''), (''img'', ''imagePrice''),
     (''img_o'', ''imageOutputPrice''), (''ai'', ''audioInputPrice''), (''ao'', ''audioOutputPrice'')]"
  by code_simp

lemma foldl_no_nan:
  "NaN \<notin> snd ` set ob \<Longrightarrow>
    NaN \<notin> snd ` set (foldl (\<lambda>tier (x, f). obj_set f (num_or_zero (map_of cs x)) tier) ob kf)"
proof (induction kf arbitrary: ob)
  case (Cons p kf)
  have nz: "num_or_zero v \<noteq> NaN" for v
    by (simp add: num_or_zero_def num_truthy_def split: option.splits)
  have "NaN \<notin> snd ` set (obj_set f (num_or_zero v) ob)" for f v
    using subsetD [OF vals_obj_set, of NaN f "num_or_zero v" ob] Cons.prems nz [of v] by auto
  from Cons.IH [OF this] show ?case by (simp add: case_prod_unfold)
qed simp

lemma parseTierBody_fields:
  "map fst (parseTierBody s) = map (\<lambda>v. the (bv_field v)) BILLING_PRICING_VARS"
  "NaN \<notin> snd ` set (parseTierBody s)"
proof -
  have "map (\<lambda>v. the (bv_field v)) BILLING_PRICING_VARS =
    [''inputPrice'', ''outputPrice'', ''cacheReadPrice'', ''cacheCreatePrice'', ''cacheCreate1hPrice'',
     ''imagePrice'', ''imageOutputPrice'', ''audioInputPrice'', ''audioOutputPrice'']"
    by (simp add: BILLING_PRICING_VARS_def BILLING_VARS_def price_var_def)
  moreover have "\<not> key_before k k'" if "\<not> index_key k" for k k' using that by (simp add: key_before_def)
  moreover have "\<not> index_key ''inputPrice''" "\<not> index_key ''outputPrice''" "\<not> index_key ''cacheReadPrice''"
    "\<not> index_key ''cacheCreatePrice''" "\<not> index_key ''cacheCreate1hPrice''" "\<not> index_key ''imagePrice''"
    "\<not> index_key ''imageOutputPrice''" "\<not> index_key ''audioInputPrice''" "\<not> index_key ''audioOutputPrice''"
    by (simp_all add: index_key_def is_digit_def)
  ultimately show "map fst (parseTierBody s) = map (\<lambda>v. the (bv_field v)) BILLING_PRICING_VARS"
    by (simp add: parseTierBody_def key_to_field Let_def)
  show "NaN \<notin> snd ` set (parseTierBody s)"
    unfolding parseTierBody_def Let_def by (rule foldl_no_nan) simp
qed

lemma tier_condition_wf:
  assumes "c \<in> set (parse_tier_conditions s)"
  shows "tcond_var c \<in> set BILLING_CONDITION_VARS" "tcond_op c \<in> {''<'', ''<='', ''>'', ''>=''}"
proof -
  from assms obtain cp where cp: "c \<in> set (case rx_match tier_cond_rx (trim cp) of
      Some cm \<Rightarrow> [\<lparr>tcond_var = cap 1 cm, tcond_op = cap 2 cm, tcond_value = str_to_num (cap 3 cm)\<rparr>]
    | None \<Rightarrow> [])"
    unfolding parse_tier_conditions_def by (force split: if_splits)
  then obtain cm where cm: "rx_match tier_cond_rx (trim cp) = Some cm"
    and c: "c = \<lparr>tcond_var = cap 1 cm, tcond_op = cap 2 cm, tcond_value = str_to_num (cap 3 cm)\<rparr>"
    by (cases "rx_match tier_cond_rx (trim cp)") auto
  from rx_match_mem [OF cm [unfolded tier_cond_rx_def cats.simps]]
  obtain b t where "(b, t, cm) \<in> set (rx_run (Cat (Grp 1 (alts ''p'' [''c'', ''len''])) (Cat spaces
      (Cat (Grp 2 (alts ''<'' [''<='', ''>'', ''>=''])) (Cat spaces (Cat (Grp 3 (rx_plus (Chr cond_num_char)))
      (Cat Eol rx.Eps)))))) ([], trim cp, []))" by blast
  then obtain v op n where "v \<in> set [''p'', ''c'', ''len'']" "op \<in> set [''<'', ''<='', ''>'', ''>='']"
    "cm = [(3, n), (2, op), (1, v)]"
    unfolding cat_Grp_alts cat_star_class cat_Grp_plus_class cat_Eol mem_Eps by blast
  then show "tcond_var c \<in> set BILLING_CONDITION_VARS" "tcond_op c \<in> {''<'', ''<='', ''>'', ''>=''}"
    by (auto simp: c cap_def BILLING_CONDITION_VARS_def BILLING_VARS_def price_var_def)
qed

text \<open>C29: Whatever the billing expression, every tier the reader returns prices exactly the registered
  price variables in registry order, with numbers other than NaN, and conditions only the
  variables allowed in conditions, with one of the four comparison operators.\<close>

theorem parse_tiers_wf:
  assumes "t \<in> set (parseTiersFromExpr e)"
  shows "map fst (pt_fields t) = map (\<lambda>v. the (bv_field v)) BILLING_PRICING_VARS \<and>
    NaN \<notin> snd ` set (pt_fields t) \<and>
    (\<forall>c \<in> set (pt_conditions t). tcond_var c \<in> set BILLING_CONDITION_VARS \<and>
      tcond_op c \<in> {''<'', ''<='', ''>'', ''>=''})"
proof -
  from assms obtain m where m: "t = \<lparr>pt_label = cap 2 m, pt_conditions = parse_tier_conditions (cap 1 m),
      pt_fields = parseTierBody (cap 3 m)\<rparr>"
    unfolding parseTiersFromExpr_def by (auto split: if_splits)
  show ?thesis
    unfolding m using parseTierBody_fields [of "cap 3 m"] tier_condition_wf [of _ "cap 1 m"] by simp
qed

theorem parse_tiers_wf_witness:
  "\<exists>t. t \<in> set (parseTiersFromExpr (''len<9?tier('' @ dq @ dq @ '',p*2)'')) \<and>
    map fst (pt_fields t) = map (\<lambda>v. the (bv_field v)) BILLING_PRICING_VARS"
proof -
  let ?e = "''len<9?tier('' @ dq @ dq @ '',p*2)''"
  have "rx_match_all tierRe ?e \<noteq> []" by code_simp
  moreover have "snd (stripExprVersion ?e) = ?e" by code_simp
  ultimately obtain t where t: "t \<in> set (parseTiersFromExpr ?e)"
    by (cases "rx_match_all tierRe ?e") (auto simp: parseTiersFromExpr_def)
  from parse_tiers_wf [OF this] t show ?thesis by blast
qed

end
