(* ===== verification/Channels.thy ===== *)
theory Channels
  imports Js_Json
begin

section \<open>Channels: models, mappings, keys and tags\<close>

text \<open>
  \<^item> \<open>web/default/src/features/channels/lib/model-mapping-validation.ts\<close>: the models list of a channel
    and its model mapping (a JSON object from requested to upstream model).
  \<^item> \<open>web/default/src/features/channels/lib/channel-utils.ts\<close>: keys, lists, settings, balances,
    attention flags, aggregation of channels by tag, deduplication of keys.

  A channel is a record of the fields these functions read and an opaque rest (\<open>ch_rest\<close>) for the
  fields they only copy.  Null and undefined priorities and weights are one value \<^const>\<open>None\<close>: the
  functions treat them alike up to that distinction.  \<open>localeCompare\<close> is a parameter.
\<close>

subsection \<open>Model mapping\<close>

definition parseModelsString :: "string \<Rightarrow> string list" where
  "parseModelsString modelsStr =
     (if modelsStr = [] then []
      else filter (\<lambda>m. m \<noteq> []) (map trim (splitc (CHR '','') modelsStr)))"

definition formatModelsArray :: "string list \<Rightarrow> string" where
  "formatModelsArray models = join '','' (js_set models)"

definition normalizeModelName :: "string \<Rightarrow> string" where
  "normalizeModelName model = trim model"

definition json_object :: "string \<Rightarrow> jsval jsobj option" where
  "json_object text =
     (case json_parse text of Some (JObj ob) \<Rightarrow> Some ob | _ \<Rightarrow> None)"

definition extractMappingSourceModels :: "string \<Rightarrow> string list" where
  "extractMappingSourceModels modelMapping =
     (let trimmed = trim modelMapping in
      if trimmed = [] then []
      else case json_object trimmed of
          None \<Rightarrow> []
        | Some parsed \<Rightarrow> js_set (filter (\<lambda>k. k \<noteq> []) (map (\<lambda>(k, _). trim k) parsed)))"

definition extractRedirectModels :: "string \<Rightarrow> string list" where
  "extractRedirectModels modelMapping =
     (let trimmed = trim modelMapping in
      if trimmed = [] then []
      else case json_object trimmed of
          None \<Rightarrow> []
        | Some parsed \<Rightarrow>
            js_set (filter (\<lambda>v. v \<noteq> []) (concat (map (\<lambda>(_, v).
              case v of JStr s \<Rightarrow> [trim s] | _ \<Rightarrow> []) parsed))))"

definition hasModelConfigChanged ::
  "string list \<Rightarrow> string \<Rightarrow> string list \<Rightarrow> string \<Rightarrow> bool" where
  "hasModelConfigChanged currentModels currentModelMapping initialModels initialModelMapping =
     (if length initialModels = 0 \<and> initialModelMapping = [] then True
      else if length currentModels \<noteq> length initialModels then True
      else if list_ex (\<lambda>i. currentModels ! i \<noteq> initialModels ! i) [0..<length currentModels] then True
      else trim currentModelMapping \<noteq> trim initialModelMapping)"

definition findMissingModelsInMapping :: "string \<Rightarrow> string list \<Rightarrow> string list" where
  "findMissingModelsInMapping modelMapping currentModels =
     (if modelMapping = [] \<or> trim modelMapping = [] then []
      else case json_object modelMapping of
          None \<Rightarrow> []
        | Some parsedMapping \<Rightarrow>
            (let modelSet = js_set (map normalizeModelName currentModels);
                 missingModels = filter (\<lambda>key. key \<noteq> [] \<and> key \<notin> set modelSet)
                   (map (\<lambda>(k, _). normalizeModelName k) parsedMapping)
             in js_set missingModels))"

datatype mapping_error = NotObject | NotJson

definition validateModelMappingJson :: "string \<Rightarrow> mapping_error option" where
  "validateModelMappingJson modelMapping =
     (if modelMapping = [] \<or> trim modelMapping = [] then None
      else case json_parse modelMapping of
          None \<Rightarrow> Some NotJson
        | Some parsed \<Rightarrow> (if is_obj parsed then None else Some NotObject))"

definition findExposedTargetModels :: "string \<Rightarrow> string list \<Rightarrow> string list" where
  "findExposedTargetModels modelMapping currentModels =
     (let redirectModels = extractRedirectModels modelMapping in
      if length redirectModels = 0 then []
      else let modelSet = js_set (map normalizeModelName currentModels)
           in filter (\<lambda>model. normalizeModelName model \<in> set modelSet) redirectModels)"

record ModelCategories =
  normalizedCurrentModels :: "string list"
  normalizedRedirectModels :: "string list"
  classificationSet :: "string list"
  redirectOnlySet :: "string list"

definition categorizeModelsWithRedirect :: "string list \<Rightarrow> string list \<Rightarrow> ModelCategories" where
  "categorizeModelsWithRedirect currentModels redirectModels =
     (let cur = js_set (filter (\<lambda>m. m \<noteq> []) (map normalizeModelName currentModels));
          red = js_set (filter (\<lambda>m. m \<noteq> []) (map normalizeModelName redirectModels))
      in \<lparr>normalizedCurrentModels = cur, normalizedRedirectModels = red,
          classificationSet = js_set (cur @ red),
          redirectOnlySet = js_set (filter (\<lambda>m. m \<notin> set cur) red)\<rparr>)"

subsection \<open>Channel types\<close>

definition TYPE_TO_ICON :: "(int \<times> string) list" where
  "TYPE_TO_ICON =
    [(1, ''OpenAI''), (6, ''OpenAI''), (7, ''OpenAI''), (8, ''OpenAI''), (3, ''Azure''),
    (14, ''Claude''), (24, ''Gemini''), (11, ''Google''), (41, ''Gemini''), (33, ''Aws''),
    (39, ''Cloudflare''), (15, ''Baidu''), (46, ''Baidu''), (16, ''Zhipu''), (26, ''Zhipu''),
    (17, ''Qwen''), (18, ''Spark''), (23, ''Hunyuan''), (19, ''Ai360''), (25, ''Moonshot''),
    (31, ''Yi''), (35, ''Minimax''), (45, ''Volcengine''), (4, ''Ollama''),
    (27, ''Perplexity''), (34, ''Cohere''), (42, ''Mistral''), (43, ''DeepSeek''),
    (48, ''XAI''), (49, ''Coze''), (40, ''SiliconCloud''), (44, ''OpenAI''),
    (20, ''OpenRouter''), (2, ''Midjourney''), (5, ''Midjourney''), (50, ''Kling''),
    (51, ''Jimeng''), (52, ''Vidu''), (36, ''Suno''), (55, ''OpenAI''), (54, ''Doubao''),
    (61, ''Doubao''), (62, ''Doubao''), (56, ''Replicate''), (37, ''Dify''), (38, ''Jina''),
    (22, ''FastGPT''), (47, ''Xinference''), (53, ''OpenAI''), (10, ''OpenAI''),
    (21, ''OpenAI''), (12, ''OpenAI''), (13, ''OpenAI''), (9, ''OpenAI'')]"

definition getChannelTypeIcon :: "int \<Rightarrow> string" where
  "getChannelTypeIcon type =
     (case map_of TYPE_TO_ICON type of None \<Rightarrow> ''OpenAI'' | Some icon \<Rightarrow> icon)"

subsection \<open>Keys and lists\<close>

definition nonblank_lines :: "string \<Rightarrow> string list" where
  "nonblank_lines key = filter (\<lambda>k. trim k \<noteq> []) (splitc (CHR 0x0A) key)"

definition formatChannelKey :: "string \<Rightarrow> bool \<Rightarrow> string" where
  "formatChannelKey key isMultiKey =
     (if key = [] then []
      else if isMultiKey then nat_str (length (nonblank_lines key)) @ '' keys''
      else if length key \<le> 16 then take 4 key @ ''...'' @ slice_end 4 key
      else take 8 key @ ''...'' @ slice_end 8 key)"

definition formatKeyPreview :: "string \<Rightarrow> nat \<Rightarrow> string" where
  "formatKeyPreview key maxLength =
     (if key = [] then []
      else if length key \<le> maxLength then key
      else take maxLength key @ ''...'')"

definition countKeys :: "string \<Rightarrow> nat" where
  "countKeys key = (if key = [] then 0 else length (nonblank_lines key))"

definition parseModelsList :: "string \<Rightarrow> string list" where
  "parseModelsList models =
     (if models = [] then []
      else filter (\<lambda>m. length m > 0) (map trim (splitc (CHR '','') models)))"

text \<open>The comparator of \<open>parseGroupsList\<close> as the order it induces: \<open>le a b\<close> when the comparator does not
  put \<open>b\<close> before \<open>a\<close>.\<close>

definition group_le :: "(string \<Rightarrow> string \<Rightarrow> int) \<Rightarrow> string \<Rightarrow> string \<Rightarrow> bool" where
  "group_le localeCompare a b =
     (if a = ''default'' then True
      else if b = ''default'' then False
      else localeCompare a b \<le> 0)"

definition parseGroupsList :: "(string \<Rightarrow> string \<Rightarrow> int) \<Rightarrow> string \<Rightarrow> string list" where
  "parseGroupsList localeCompare groups =
     (if groups = [] then []
      else sort_by (group_le localeCompare)
             (filter (\<lambda>g. length g > 0) (map trim (splitc (CHR '','') groups))))"

definition formatModelsString :: "string list \<Rightarrow> string" where
  "formatModelsString models = join '','' models"

definition formatGroupsString :: "string list \<Rightarrow> string" where
  "formatGroupsString groups = join '','' groups"

subsection \<open>Settings, balance, response time\<close>

definition parseChannelSettings :: "string option \<Rightarrow> jsval" where
  "parseChannelSettings settingStr = (case settingStr of
       None \<Rightarrow> JObj []
     | Some s \<Rightarrow> (if s = [] then JObj []
         else case json_parse s of Some v \<Rightarrow> v | None \<Rightarrow> JObj []))"

definition parseChannelOtherSettings :: "string option \<Rightarrow> jsval" where
  "parseChannelOtherSettings settingsStr = (case settingsStr of
       None \<Rightarrow> JObj []
     | Some s \<Rightarrow> (if s = [] \<or> s = ''{}'' then JObj []
         else case json_parse s of Some v \<Rightarrow> v | None \<Rightarrow> JObj []))"

definition validateChannelSettings :: "string \<Rightarrow> bool" where
  "validateChannelSettings settings =
     (if settings = [] \<or> trim settings = [] then True else json_parse settings \<noteq> None)"

datatype variant = Success | Warning | Danger | Info | Neutral

definition getBalanceVariant :: "rat \<Rightarrow> variant" where
  "getBalanceVariant balance =
     (if balance = 0 then Neutral else if balance < 1 then Danger
      else if balance < 10 then Warning else Success)"

datatype response_rating = Excellent | Good | Fair | Poor | Unknown

definition getResponseTimeConfig :: "rat \<Rightarrow> response_rating" where
  "getResponseTimeConfig timeMs =
     (if timeMs = 0 then Unknown
      else if timeMs \<le> 500 then Excellent
      else if timeMs \<le> 1000 then Good
      else if timeMs \<le> 2000 then Fair
      else if timeMs \<le> 5000 then Poor
      else Poor)"

definition getPriorityDisplay :: "int option \<Rightarrow> string" where
  "getPriorityDisplay priority = (case priority of None \<Rightarrow> ''0'' | Some p \<Rightarrow> int_str p)"

definition getWeightDisplay :: "int option \<Rightarrow> string" where
  "getWeightDisplay weight = (case weight of None \<Rightarrow> ''0'' | Some w \<Rightarrow> int_str w)"

definition validateChannelName :: "string \<Rightarrow> bool" where
  "validateChannelName name \<longleftrightarrow> length (trim name) > 0"

definition validateApiKey :: "string \<Rightarrow> bool" where
  "validateApiKey key \<longleftrightarrow> length (trim key) > 0"

definition validateModels :: "string \<Rightarrow> bool" where
  "validateModels models \<longleftrightarrow> length (parseModelsList models) > 0"

definition validateGroups :: "(string \<Rightarrow> string \<Rightarrow> int) \<Rightarrow> string \<Rightarrow> bool" where
  "validateGroups localeCompare groups \<longleftrightarrow> length (parseGroupsList localeCompare groups) > 0"

subsection \<open>Channels that need attention\<close>

record ChannelInfo =
  is_multi_key :: bool
  multi_key_size :: nat
  multi_key_status_list :: "(string \<times> int) list option"

record 'r Channel =
  ch_id :: int
  ch_type :: int
  ch_key :: string
  ch_status :: int
  ch_name :: string
  ch_weight :: "int option"
  ch_created_time :: int
  ch_test_time :: int
  ch_response_time :: rat
  ch_balance :: rat
  ch_balance_updated_time :: int
  ch_models :: string
  ch_group :: string
  ch_used_quota :: rat
  ch_priority :: "int option"
  ch_tag :: "string option"
  ch_channel_info :: "ChannelInfo option"
  ch_rest :: 'r

definition isChannelEnabled :: "'r Channel \<Rightarrow> bool" where
  "isChannelEnabled channel \<longleftrightarrow> ch_status channel = 1"

definition isMultiKeyChannel :: "'r Channel \<Rightarrow> bool" where
  "isMultiKeyChannel channel =
     (case ch_channel_info channel of None \<Rightarrow> False | Some info \<Rightarrow> is_multi_key info)"

definition all_keys_disabled :: "'r Channel \<Rightarrow> bool" where
  "all_keys_disabled channel =
     (case ch_channel_info channel of
        None \<Rightarrow> False
      | Some info \<Rightarrow> is_multi_key info \<and>
          (case multi_key_status_list info of
             None \<Rightarrow> False
           | Some l \<Rightarrow> multi_key_size info \<le> length l))"

definition channelNeedsAttention :: "'r Channel \<Rightarrow> bool" where
  "channelNeedsAttention channel =
     (if ch_status channel = 3 then True
      else if ch_balance channel > 0 \<and> ch_balance channel < 1 then True
      else if all_keys_disabled channel then True
      else False)"

definition getAttentionReason :: "'r Channel \<Rightarrow> string option" where
  "getAttentionReason channel =
     (if ch_status channel = 3 then Some ''Auto-disabled''
      else if ch_balance channel > 0 \<and> ch_balance channel < 1 then Some ''Low balance''
      else if all_keys_disabled channel then Some ''All keys disabled''
      else None)"

subsection \<open>Tag rows\<close>

record 'r TagRow =
  row_key :: string
  row_id :: string
  row_tag :: string
  row_name :: string
  row_type :: int
  row_status :: "int option"
  row_group :: string
  row_used_quota :: rat
  row_response_time :: rat
  row_priority :: "int option"
  row_weight :: "int option"
  row_balance :: rat
  row_test_time :: int
  row_created_time :: int
  row_balance_updated_time :: int
  row_models :: string
  row_channel_info :: "ChannelInfo option"
  row_rest :: 'r
  row_children :: "'r Channel list"

definition channel_tag :: "'r Channel \<Rightarrow> string" where
  "channel_tag channel = (case ch_tag channel of None \<Rightarrow> [] | Some t \<Rightarrow> t)"

definition new_tag_row :: "'r Channel \<Rightarrow> 'r TagRow" where
  "new_tag_row channel =
     (let tag = channel_tag channel in
      \<lparr>row_key = tag, row_id = tag, row_tag = tag, row_name = tag, row_type = 0, row_status = None,
       row_group = [], row_used_quota = 0, row_response_time = 0, row_priority = Some (- 1),
       row_weight = Some (- 1), row_balance = 0, row_test_time = 0, row_created_time = 0,
       row_balance_updated_time = 0, row_models = [], row_channel_info = ch_channel_info channel,
       row_rest = ch_rest channel, row_children = []\<rparr>)"

text \<open>Priority and weight: the value \<open>-1\<close> marks a row that has seen no child.\<close>

definition merge_same :: "int option \<Rightarrow> int option \<Rightarrow> int option" where
  "merge_same row child = (if row = Some (- 1) then child else if row \<noteq> child then None else row)"

definition group_names :: "string \<Rightarrow> string list" where
  "group_names s = filter (\<lambda>g. g \<noteq> []) (splitc (CHR '','') s)"

definition merge_group :: "string \<Rightarrow> string \<Rightarrow> string" where
  "merge_group row child =
     (if row = [] then child
      else let existingGroups = js_set (group_names row)
           in foldl (\<lambda>acc g. if g \<notin> set existingGroups then acc @ '','' @ g else acc)
                row (group_names child))"

definition merge_status :: "int option \<Rightarrow> int \<Rightarrow> int option" where
  "merge_status row child =
     (if child = 1 then Some 1 else if row = None then Some child else row)"

definition add_child :: "'r TagRow \<Rightarrow> 'r Channel \<Rightarrow> 'r TagRow" where
  "add_child row channel =
     (let children = row_children row @ [channel];
          childCount = rat_of_nat (length children)
      in row\<lparr>row_children := children,
             row_used_quota := row_used_quota row + ch_used_quota channel,
             row_response_time :=
               (row_response_time row * (childCount - 1) + ch_response_time channel) / childCount,
             row_priority := merge_same (row_priority row) (ch_priority channel),
             row_weight := merge_same (row_weight row) (ch_weight channel),
             row_group := merge_group (row_group row) (ch_group channel),
             row_status := merge_status (row_status row) (ch_status channel)\<rparr>)"

text \<open>The map of rows and the result list share the row objects; here the result list is the map, looked
  up by tag.\<close>

definition agg_step :: "'r TagRow list \<Rightarrow> 'r Channel \<Rightarrow> 'r TagRow list" where
  "agg_step rows channel =
     (let tag = channel_tag channel;
          rows' = (if tag \<in> set (map row_tag rows) then rows else rows @ [new_tag_row channel])
      in map (\<lambda>row. if row_tag row = tag then add_child row channel else row) rows')"

definition aggregateChannelsByTag :: "'r Channel list \<Rightarrow> 'r TagRow list" where
  "aggregateChannelsByTag channels = foldl agg_step [] channels"

subsection \<open>Deduplication of keys\<close>

record DedupResult =
  deduplicatedText :: string
  beforeCount :: nat
  afterCount :: nat
  removedCount :: int

definition dedup_step :: "string list \<times> string list \<Rightarrow> string \<Rightarrow> string list \<times> string list" where
  "dedup_step = (\<lambda>(keySet, keys) line.
     let trimmedLine = trim line in
     if trimmedLine \<noteq> [] \<and> trimmedLine \<notin> set keySet
     then (set_add keySet trimmedLine, keys @ [trimmedLine]) else (keySet, keys))"

definition deduplicateKeys :: "string \<Rightarrow> DedupResult" where
  "deduplicateKeys keysText =
     (if keysText = [] \<or> trim keysText = [] then
        \<lparr>deduplicatedText = [], beforeCount = 0, afterCount = 0, removedCount = 0\<rparr>
      else
        let keyLines = splitc (CHR 0x0A) keysText;
            before = length keyLines;
            keys = snd (foldl dedup_step ([], []) keyLines);
            after = length keys
        in \<lparr>deduplicatedText = join [CHR 0x0A] keys, beforeCount = before, afterCount = after,
            removedCount = int before - int after\<rparr>)"

subsection \<open>Tag rows group the channels\<close>

definition row_of :: "'r Channel list \<Rightarrow> 'r TagRow" where
  "row_of cs = foldl add_child (new_tag_row (hd cs)) cs"

definition with_tag :: "string \<Rightarrow> 'r Channel list \<Rightarrow> 'r Channel list" where
  "with_tag t cs = filter (\<lambda>c. channel_tag c = t) cs"

lemma add_child_tag [simp]: "row_tag (add_child r c) = row_tag r"
  by (simp add: add_child_def Let_def)

lemma new_row_tag [simp]: "row_tag (new_tag_row c) = channel_tag c"
  by (simp add: new_tag_row_def Let_def)

lemma foldl_add_child_tag [simp]: "row_tag (foldl add_child r cs) = row_tag r"
  by (induction cs arbitrary: r) auto

lemma row_of_snoc: "cs \<noteq> [] \<Longrightarrow> row_of (cs @ [c]) = add_child (row_of cs) c"
  by (simp add: row_of_def hd_append)

lemma row_of_tag: "cs \<noteq> [] \<Longrightarrow> row_tag (row_of cs) = channel_tag (hd cs)"
  by (simp add: row_of_def)

lemma with_tag_snoc: "with_tag t (cs @ [c]) = (if channel_tag c = t then with_tag t cs @ [c] else with_tag t cs)"
  by (simp add: with_tag_def)

lemma with_tag_not_Nil: "t \<in> set (map channel_tag cs) \<Longrightarrow> with_tag t cs \<noteq> []"
  by (auto simp: with_tag_def filter_empty_conv)

lemma hd_with_tag: "with_tag t cs \<noteq> [] \<Longrightarrow> channel_tag (hd (with_tag t cs)) = t"
  using hd_in_set [of "with_tag t cs"] by (auto simp: with_tag_def)

lemma js_set_snoc: "js_set (xs @ [x]) = set_add (js_set xs) x"
  by (simp add: js_set_def)

text \<open>The aggregation is the grouping by tag, the groups in the order of first occurrence.\<close>

lemma aggregate_groups:
  "aggregateChannelsByTag cs = map (\<lambda>t. row_of (with_tag t cs)) (js_set (map channel_tag cs))"
proof (induction cs rule: rev_induct)
  case Nil
  then show ?case by (simp add: aggregateChannelsByTag_def js_set_def)
next
  case (snoc c cs)
  let ?ts = "js_set (map channel_tag cs)" and ?t = "channel_tag c"
  have step: "aggregateChannelsByTag (cs @ [c]) = agg_step (aggregateChannelsByTag cs) c"
    by (simp add: aggregateChannelsByTag_def)
  have tags: "row_tag (row_of (with_tag t cs)) = t" if "t \<in> set ?ts" for t
    using that with_tag_not_Nil [of t cs] by (simp add: row_of_tag hd_with_tag)
  then have rows: "map row_tag (aggregateChannelsByTag cs) = ?ts"
    unfolding snoc map_map by (intro map_idI) auto
  have upd: "(if row_tag (row_of (with_tag t cs)) = ?t then add_child (row_of (with_tag t cs)) c
      else row_of (with_tag t cs)) = row_of (with_tag t (cs @ [c]))" if "t \<in> set ?ts" for t
    using that tags [OF that] with_tag_not_Nil [of t cs] by (auto simp: with_tag_snoc row_of_snoc)
  have m: "map (\<lambda>row. if row_tag row = ?t then add_child row c else row) (aggregateChannelsByTag cs) =
      map (\<lambda>t. row_of (with_tag t (cs @ [c]))) ?ts"
    unfolding snoc map_map comp_def using upd by (intro map_cong [OF refl])
  show ?case
  proof (cases "?t \<in> set ?ts")
    case True
    with m show ?thesis by (simp add: step agg_step_def Let_def rows js_set_snoc set_add_def)
  next
    case False
    then have "with_tag ?t cs = []"
      unfolding with_tag_def filter_empty_conv by (metis image_eqI list.set_map set_js_set)
    then have "add_child (new_tag_row c) c = row_of (with_tag ?t (cs @ [c]))"
      by (simp add: with_tag_snoc row_of_def)
    with False m show ?thesis by (simp add: step agg_step_def Let_def rows js_set_snoc set_add_def)
  qed
qed

subsection \<open>What a tag row shows\<close>

lemmas row_simps = add_child_def new_tag_row_def row_of_def Let_def

lemma row_children: "cs \<noteq> [] \<Longrightarrow> row_children (row_of cs) = cs"
proof (induction cs rule: rev_nonempty_induct)
  case (single c)
  then show ?case by (simp add: row_simps)
next
  case (snoc c cs)
  then show ?case by (simp add: row_of_snoc add_child_def Let_def)
qed

lemma row_quota: "cs \<noteq> [] \<Longrightarrow> row_used_quota (row_of cs) = sum_list (map ch_used_quota cs)"
proof (induction cs rule: rev_nonempty_induct)
  case (single c)
  then show ?case by (simp add: row_simps)
next
  case (snoc c cs)
  then show ?case by (simp add: row_of_snoc add_child_def Let_def)
qed

lemma row_time:
  "cs \<noteq> [] \<Longrightarrow>
    row_response_time (row_of cs) = sum_list (map ch_response_time cs) / rat_of_nat (length cs)"
proof (induction cs rule: rev_nonempty_induct)
  case (single c)
  then show ?case by (simp add: row_simps)
next
  case (snoc c cs)
  then have "rat_of_nat (length cs) \<noteq> 0" by simp
  with snoc show ?case by (simp add: row_of_snoc add_child_def Let_def row_children)
qed

lemma row_status_any:
  "cs \<noteq> [] \<Longrightarrow>
    row_status (row_of cs) = Some (if 1 \<in> ch_status ` set cs then 1 else ch_status (hd cs))"
proof (induction cs rule: rev_nonempty_induct)
  case (single c)
  then show ?case by (simp add: row_simps merge_status_def)
next
  case (snoc c cs)
  then show ?case by (auto simp: row_of_snoc add_child_def Let_def merge_status_def hd_append)
qed

lemma merge_same_fold:
  assumes "cs \<noteq> []" "\<forall>c \<in> set cs. f c \<noteq> Some (- 1)"
  shows "foldl (\<lambda>acc c. merge_same acc (f c)) (Some (- 1)) cs =
    (if \<forall>c \<in> set cs. f c = f (hd cs) then f (hd cs) else None)"
  using assms
proof (induction cs rule: rev_nonempty_induct)
  case (single c)
  then show ?case by (simp add: merge_same_def)
next
  case (snoc c cs)
  have h: "hd (cs @ [c]) = hd cs" using snoc.hyps by (simp add: hd_append)
  have ne: "f (hd cs) \<noteq> Some (- 1)" using snoc.hyps snoc.prems by simp
  have IH: "foldl (\<lambda>acc c. merge_same acc (f c)) (Some (- 1)) cs =
      (if \<forall>c \<in> set cs. f c = f (hd cs) then f (hd cs) else None)"
    using snoc.IH snoc.prems by simp
  show ?case
  proof (cases "\<forall>x \<in> set cs. f x = f (hd cs)")
    case True
    with ne show ?thesis unfolding foldl_append IH h by (simp add: merge_same_def)
  next
    case False
    then have "foldl (\<lambda>acc c. merge_same acc (f c)) (Some (- 1)) cs = None"
      unfolding IH by (rule if_not_P)
    moreover have "\<not> (\<forall>x \<in> set (cs @ [c]). f x = f (hd cs))" using False by simp
    ultimately show ?thesis unfolding foldl_append h by (simp add: merge_same_def) blast
  qed
qed

lemma row_priority_fold:
  "row_priority (foldl add_child r cs) = foldl (\<lambda>acc c. merge_same acc (ch_priority c)) (row_priority r) cs"
  "row_weight (foldl add_child r cs) = foldl (\<lambda>acc c. merge_same acc (ch_weight c)) (row_weight r) cs"
  by (induction cs arbitrary: r) (simp_all add: add_child_def Let_def)

lemma group_names_append:
  "CHR '','' \<notin> set g \<Longrightarrow> g \<noteq> [] \<Longrightarrow> group_names (s @ '','' @ g) = group_names s @ [g]"
  by (simp add: group_names_def splitc_append_sep splitc_no_sep)

lemma group_names_parts: "g \<in> set (group_names s) \<Longrightarrow> CHR '','' \<notin> set g \<and> g \<noteq> []"
  by (auto simp: group_names_def dest: splitc_free)

lemma merge_group_names:
  "set (group_names (merge_group row child)) = set (group_names row) \<union> set (group_names child)"
proof (cases "row = []")
  case True
  then show ?thesis by (simp add: merge_group_def group_names_def)
next
  case False
  let ?step = "\<lambda>acc g. if g \<notin> set (js_set (group_names row)) then acc @ '','' @ g else acc"
  have "set (group_names (foldl ?step acc gs)) =
      set (group_names acc) \<union> (set gs - set (group_names row))"
    if "\<forall>g \<in> set gs. CHR '','' \<notin> set g \<and> g \<noteq> []" for acc gs
    using that
  proof (induction gs arbitrary: acc)
    case (Cons g gs)
    then have "CHR '','' \<notin> set g" "g \<noteq> []" by simp_all
    with Cons show ?case
      using group_names_append [of g acc] by (auto simp del: append_Cons)
  qed simp
  then show ?thesis
    using False group_names_parts [of _ child] by (auto simp: merge_group_def Let_def)
qed

lemma row_groups:
  "cs \<noteq> [] \<Longrightarrow> set (group_names (row_group (row_of cs))) = (\<Union>c \<in> set cs. set (group_names (ch_group c)))"
proof (induction cs rule: rev_nonempty_induct)
  case (single c)
  then show ?case by (simp add: row_simps merge_group_def)
next
  case (snoc c cs)
  then show ?case by (simp add: row_of_snoc add_child_def Let_def merge_group_names Un_commute)
qed

text \<open>The specification of a tag row over its children.\<close>

definition row_spec :: "'r Channel list \<Rightarrow> 'r TagRow \<Rightarrow> bool" where
  "row_spec cs row \<longleftrightarrow>
     row_children row = cs \<and>
     row_used_quota row = sum_list (map ch_used_quota cs) \<and>
     row_response_time row * rat_of_nat (length cs) = sum_list (map ch_response_time cs) \<and>
     row_status row = Some (if 1 \<in> ch_status ` set cs then 1 else ch_status (hd cs)) \<and>
     set (group_names (row_group row)) = (\<Union>c \<in> set cs. set (group_names (ch_group c)))"

lemma row_of_spec: "cs \<noteq> [] \<Longrightarrow> row_spec cs (row_of cs)"
  by (simp add: row_spec_def row_children row_quota row_time row_status_any row_groups)

text \<open>C23: Tag mode loses and invents nothing: there is one row per tag, in the order the tags first
  occur; the children of a row are exactly the channels with its tag, in their order; and the row
  shows their total quota, their average response time, enabled when some child is, and the
  union of their groups.\<close>

theorem aggregate_by_tag_spec:
  "map row_tag (aggregateChannelsByTag cs) = js_set (map channel_tag cs) \<and>
   list_all (\<lambda>row. row_spec (with_tag (row_tag row) cs) row) (aggregateChannelsByTag cs)"
proof -
  have t: "row_tag (row_of (with_tag t cs)) = t \<and> row_spec (with_tag t cs) (row_of (with_tag t cs))"
    if "t \<in> set (map channel_tag cs)" for t
    using with_tag_not_Nil [OF that] by (simp add: row_of_tag hd_with_tag row_of_spec)
  have "map row_tag (aggregateChannelsByTag cs) = js_set (map channel_tag cs)"
    unfolding aggregate_groups map_map by (rule map_idI) (use t in simp)
  moreover have "list_all (\<lambda>row. row_spec (with_tag (row_tag row) cs) row) (aggregateChannelsByTag cs)"
    unfolding aggregate_groups list_all_iff using t by simp
  ultimately show ?thesis by blast
qed

text \<open>A tag row shows the priority of its channels when they all have the same one, and none
  otherwise, provided no channel has the priority -1 the code uses as a marker.\<close>

lemma tag_row_priority:
  assumes "row \<in> set (aggregateChannelsByTag cs)"
    "\<forall>c \<in> set (row_children row). ch_priority c \<noteq> Some (- 1)"
  shows "row_priority row =
    (if \<forall>c \<in> set (row_children row). ch_priority c = ch_priority (hd (row_children row))
     then ch_priority (hd (row_children row)) else None)"
proof -
  from assms(1) obtain t where t: "t \<in> set (map channel_tag cs)" "row = row_of (with_tag t cs)"
    unfolding aggregate_groups by auto
  note ne = with_tag_not_Nil [OF t(1)]
  have "row_priority row = foldl (\<lambda>acc c. merge_same acc (ch_priority c)) (Some (- 1)) (with_tag t cs)"
    unfolding t(2) row_of_def row_priority_fold by (simp add: new_tag_row_def Let_def)
  with merge_same_fold [OF ne, of ch_priority] assms(2) row_children [OF ne] t(2) show ?thesis
    by simp
qed

definition sample_channel :: "int option \<Rightarrow> string \<Rightarrow> unit Channel" where
  "sample_channel priority tag =
     \<lparr>ch_id = 1, ch_type = 1, ch_key = ''k'', ch_status = 1, ch_name = ''n'', ch_weight = None,
      ch_created_time = 0, ch_test_time = 0, ch_response_time = 10, ch_balance = 0,
      ch_balance_updated_time = 0, ch_models = [], ch_group = ''default'', ch_used_quota = 5,
      ch_priority = priority, ch_tag = Some tag, ch_channel_info = None, ch_rest = ()\<rparr>"

subsection \<open>Deduplicated keys\<close>

definition key_lines :: "string \<Rightarrow> string list" where
  "key_lines t = js_set (filter (\<lambda>k. k \<noteq> []) (map trim (splitc (CHR 0x0A) t)))"

lemma dedup_fold:
  "foldl dedup_step (ks, ks) ls =
    (foldl set_add ks (filter (\<lambda>k. k \<noteq> []) (map trim ls)), foldl set_add ks (filter (\<lambda>k. k \<noteq> []) (map trim ls)))"
  by (induction ls arbitrary: ks) (auto simp: dedup_step_def Let_def set_add_def)

lemma dedup_text:
  "deduplicatedText (deduplicateKeys t) = join [CHR 0x0A] (key_lines t)"
  "afterCount (deduplicateKeys t) = length (key_lines t)"
proof -
  have blank: "key_lines t = []" if "trim t = []"
  proof -
    have "trim l = []" if "l \<in> set (splitc (CHR 0x0A) t)" for l
      using \<open>trim t = []\<close> splitc_chars [OF that] by (auto simp: trim_eq_Nil)
    then show ?thesis by (simp add: key_lines_def filter_empty_conv)
  qed
  show "deduplicatedText (deduplicateKeys t) = join [CHR 0x0A] (key_lines t)"
    "afterCount (deduplicateKeys t) = length (key_lines t)"
    using blank by (auto simp: deduplicateKeys_def Let_def dedup_fold js_set_def key_lines_def)
qed

lemma key_lines_facts:
  assumes "k \<in> set (key_lines t)" shows "trim k = k" "k \<noteq> []" "CHR 0x0A \<notin> set k"
proof -
  from assms obtain l where l: "l \<in> set (splitc (CHR 0x0A) t)" "k = trim l" "k \<noteq> []"
    by (auto simp: key_lines_def)
  then show "trim k = k" "k \<noteq> []" "CHR 0x0A \<notin> set k"
    using splitc_free [OF l(1)] set_trim_subset [of l] by auto
qed

lemma key_lines_join:
  assumes "\<forall>k \<in> set ks. trim k = k \<and> k \<noteq> [] \<and> CHR 0x0A \<notin> set k" "distinct ks"
  shows "key_lines (join [CHR 0x0A] ks) = ks"
proof (cases "ks = []")
  case True
  then show ?thesis by (simp add: key_lines_def js_set_def)
next
  case False
  have "splitc (CHR 0x0A) (join [CHR 0x0A] ks) = ks" using False assms(1) by (intro splitc_join) auto
  moreover have "map trim ks = ks" using assms(1) by (intro map_idI) auto
  moreover have "filter (\<lambda>k. k \<noteq> []) ks = ks" using assms(1) by (intro filter_True) auto
  ultimately show ?thesis using assms(2) by (simp add: key_lines_def js_set_distinct)
qed

lemma key_lines_idem: "key_lines (join [CHR 0x0A] (key_lines t)) = key_lines t"
  by (rule key_lines_join, use key_lines_facts in blast, simp add: key_lines_def)

interpretation dedup_nf: normalizer "\<lambda>t. deduplicatedText (deduplicateKeys t)"
  by unfold_locales (simp add: dedup_text key_lines_idem)

text \<open>Deduplicating the keys of a channel keeps every key once: the resulting text lists the distinct
  trimmed non-blank lines in the order they first occur, the counts add up, and deduplicating the
  result changes nothing.\<close>

lemma deduplicate_keys_spec:
  "key_lines (deduplicatedText (deduplicateKeys t)) = key_lines t \<and>
   distinct (key_lines t) \<and>
   set (key_lines t) = trim ` set (splitc (CHR 0x0A) t) - {[]} \<and>
   afterCount (deduplicateKeys t) = length (key_lines t) \<and>
   int (beforeCount (deduplicateKeys t)) =
     int (afterCount (deduplicateKeys t)) + removedCount (deduplicateKeys t) \<and>
   deduplicatedText (deduplicateKeys (deduplicatedText (deduplicateKeys t))) =
     deduplicatedText (deduplicateKeys t)"
proof -
  have "int (beforeCount (deduplicateKeys t)) =
      int (afterCount (deduplicateKeys t)) + removedCount (deduplicateKeys t)"
    by (simp add: deduplicateKeys_def Let_def)
  moreover have "set (key_lines t) = trim ` set (splitc (CHR 0x0A) t) - {[]}"
    by (auto simp: key_lines_def)
  moreover have "distinct (key_lines t)" by (simp add: key_lines_def)
  ultimately show ?thesis by (simp add: dedup_text key_lines_idem)
qed

subsection \<open>Masked keys\<close>

text \<open>The mask of a channel key hides nothing of a key of up to eight characters: the key is the text
  before the dots followed by an end of the text after them.\<close>

lemma short_key_revealed:
  assumes "key \<noteq> []" "length key \<le> 8"
  shows "\<exists>a b n. formatChannelKey key False = a @ ''...'' @ b \<and> key = a @ drop n b"
proof -
  let ?b = "slice_end 4 key"
  have f: "formatChannelKey key False = take 4 key @ ''...'' @ ?b"
    using assms by (simp add: formatChannelKey_def)
  have "drop (length ?b - (length key - 4)) ?b = drop 4 key"
    using assms(2) by (cases "length key \<le> 4") (simp_all add: slice_end_def)
  then have "key = take 4 key @ drop (length ?b - (length key - 4)) ?b" by simp
  with f show ?thesis by blast
qed

subsection \<open>Model mapping\<close>

lemma js_set_filter_in [simp]: "set (js_set (filter P xs)) = {x \<in> set xs. P x}"
  by auto

definition mapping_sources :: "string \<Rightarrow> string set" where
  "mapping_sources m =
     (if trim m = [] then {} else case json_object m of None \<Rightarrow> {} | Some ob \<Rightarrow> trim ` fst ` set ob - {[]})"

lemma missing_set:
  "set (findMissingModelsInMapping m ms) = mapping_sources m - trim ` set ms"
  by (auto simp: findMissingModelsInMapping_def mapping_sources_def normalizeModelName_def Let_def
      case_prod_unfold image_image split: option.splits)

text \<open>The missing models of a mapping are exactly its source models that the models list lacks, each
  once; and adding them to the list leaves none missing.\<close>

lemma missing_models_exact:
  "set (findMissingModelsInMapping m ms) = mapping_sources m - trim ` set ms \<and>
   distinct (findMissingModelsInMapping m ms) \<and>
   findMissingModelsInMapping m (ms @ findMissingModelsInMapping m ms) = []"
proof -
  have tk: "trim k = k" if "k \<in> mapping_sources m" for k
    using that by (auto simp: mapping_sources_def split: if_splits option.splits)
  have "k \<in> trim ` set (ms @ findMissingModelsInMapping m ms)" if k: "k \<in> mapping_sources m" for k
  proof (cases "k \<in> trim ` set ms")
    case False
    then have "k \<in> set (findMissingModelsInMapping m ms)" using k by (simp add: missing_set)
    then have "trim k \<in> trim ` set (ms @ findMissingModelsInMapping m ms)" by simp
    with tk [OF k] show ?thesis by simp
  qed auto
  then have "mapping_sources m - trim ` set (ms @ findMissingModelsInMapping m ms) = {}" by blast
  then have "set (findMissingModelsInMapping m (ms @ findMissingModelsInMapping m ms)) = {}"
    by (simp only: missing_set)
  then have "findMissingModelsInMapping m (ms @ findMissingModelsInMapping m ms) = []"
    by (simp only: set_empty)
  moreover have "distinct (findMissingModelsInMapping m ms)"
    by (simp add: findMissingModelsInMapping_def Let_def split: option.splits)
  ultimately show ?thesis using missing_set by blast
qed

definition model_name_ok :: "string \<Rightarrow> bool" where
  "model_name_ok m \<longleftrightarrow> m \<noteq> [] \<and> trim m = m \<and> CHR '','' \<notin> set m"

text \<open>A models list survives its text form: parsing the formatted list gives the distinct models in
  their order, for models without commas or surrounding blanks.\<close>

lemma models_roundtrip:
  assumes "list_all model_name_ok ms"
  shows "parseModelsString (formatModelsArray ms) = js_set ms"
proof (cases "ms = []")
  case True
  then show ?thesis by (simp add: formatModelsArray_def parseModelsString_def js_set_def)
next
  case False
  have ok: "\<forall>m \<in> set (js_set ms). m \<noteq> [] \<and> trim m = m \<and> CHR '','' \<notin> set m"
    using assms by (auto simp: list_all_iff model_name_ok_def)
  have ne: "join '','' (js_set ms) \<noteq> []" using False ok join_ends [of "js_set ms" "'',''"] by simp
  have "splitc (CHR '','') (join '','' (js_set ms)) = js_set ms"
    using False ok by (intro splitc_join) auto
  moreover have "map trim (js_set ms) = js_set ms" using ok by (intro map_idI) auto
  moreover have "filter (\<lambda>m. m \<noteq> []) (js_set ms) = js_set ms" using ok by (intro filter_True) auto
  ultimately show ?thesis using ne by (simp add: formatModelsArray_def parseModelsString_def)
qed

subsection \<open>Group lists\<close>

lemma sorted_defaults_first:
  "sorted_wrt (group_le lc) xs \<Longrightarrow>
    \<exists>n rest. xs = replicate n ''default'' @ rest \<and> ''default'' \<notin> set rest \<and>
      sorted_wrt (\<lambda>a b. lc a b \<le> 0) rest"
proof (induction xs)
  case (Cons x xs)
  then obtain n rest where ih: "xs = replicate n ''default'' @ rest" "''default'' \<notin> set rest"
    "sorted_wrt (\<lambda>a b. lc a b \<le> 0) rest" by auto
  show ?case
  proof (cases "x = ''default''")
    case True
    with ih have "x # xs = replicate (Suc n) ''default'' @ rest" by simp
    with ih show ?thesis by blast
  next
    case False
    have "\<forall>y \<in> set xs. y \<noteq> ''default'' \<and> lc x y \<le> 0"
      using Cons.prems False by (auto simp: group_le_def split: if_splits)
    moreover from this ih(1) have "n = 0" by (cases n) auto
    ultimately show ?thesis using ih False by (intro exI [of _ 0] exI [of _ "x # xs"]) auto
  qed
qed simp

text \<open>A group list is shown with the default group first and the other groups in the order of the
  locale, and holds every non-blank group of the text as often as it occurs there.  The locale
  order is any total preorder.\<close>

theorem groups_list_sorted:
  assumes "\<And>a b. lc a b \<le> 0 \<or> lc b a \<le> 0" "\<And>a b c. lc a b \<le> 0 \<Longrightarrow> lc b c \<le> 0 \<Longrightarrow> lc a c \<le> 0"
  shows "mset (parseGroupsList lc s) = mset (filter (\<lambda>g. g \<noteq> []) (map trim (splitc (CHR '','') s))) \<and>
    (\<exists>n rest. parseGroupsList lc s = replicate n ''default'' @ rest \<and> ''default'' \<notin> set rest \<and>
      sorted_wrt (\<lambda>a b. lc a b \<le> 0) rest)"
proof -
  have "sorted_wrt (group_le lc) (sort_by (group_le lc) xs)" for xs
  proof (rule sorted_sort_by)
    show "group_le lc a b \<or> group_le lc b a" for a b using assms(1) by (auto simp: group_le_def)
    show "group_le lc a c" if "group_le lc a b" "group_le lc b c" for a b c
      using that assms(2) by (auto simp: group_le_def split: if_splits)
  qed
  then have "sorted_wrt (group_le lc) (parseGroupsList lc s)" by (simp add: parseGroupsList_def)
  from sorted_defaults_first [OF this] show ?thesis by (simp add: parseGroupsList_def)
qed

end
