(* ===== verification/Playground_Messages.thy ===== *)
theory Playground_Messages
  imports Js_Json
begin

section \<open>Playground: messages and the request payload\<close>

text \<open>
  \<^item> \<open>web/default/src/features/playground/types.ts\<close>, \<open>constants.ts\<close>: messages, roles, statuses.
  \<^item> \<open>web/default/src/features/playground/lib/message-utils.ts\<close>: construction of messages, separation of
    reasoning from visible text, streaming, finalisation, repair of stored messages.
  \<^item> \<open>web/default/src/features/playground/lib/payload-builder.ts\<close>: the request sent to the server.

  The random identifiers of \<open>nanoid\<close> are arguments.  An absent optional field is \<^const>\<open>None\<close>; the
  error code keeps the difference between undefined, null and a value as a \<^typ>\<open>jsval\<close>.
\<close>

subsection \<open>Types and constants\<close>

datatype MessageRole = User | Assistant | System

datatype MessageStatus = Loading | Streaming | Complete | Error

record MessageVersion =
  v_id :: string
  v_content :: string

record Reasoning =
  r_content :: string
  r_duration :: rat

record Message =
  m_key :: string
  m_from :: MessageRole
  m_versions :: "MessageVersion list"
  m_sources :: "(string \<times> string) list option"
  m_reasoning :: "Reasoning option"
  isReasoningStreaming :: "bool option"
  isReasoningComplete :: "bool option"
  isContentComplete :: "bool option"
  m_status :: "MessageStatus option"
  m_errorCode :: jsval

definition API_REQUEST_ERROR :: string where
  "API_REQUEST_ERROR = ''Request error occurred''"

definition PARSE_ERROR :: string where
  "PARSE_ERROR = ''Error parsing response data''"

definition STREAM_START_ERROR :: string where
  "STREAM_START_ERROR = ''Error establishing connection''"

definition CONNECTION_CLOSED :: string where
  "CONNECTION_CLOSED = ''Connection closed''"

definition INTERRUPTED :: string where
  "INTERRUPTED = ''Generation was interrupted''"

subsection \<open>Construction of messages\<close>

definition createMessageVersion :: "string \<Rightarrow> string \<Rightarrow> MessageVersion" where
  "createMessageVersion nanoid content = \<lparr>v_id = nanoid, v_content = content\<rparr>"

definition getCurrentVersion :: "Message \<Rightarrow> MessageVersion" where
  "getCurrentVersion message = (case m_versions message of
       [] \<Rightarrow> \<lparr>v_id = ''default'', v_content = []\<rparr>
     | v # _ \<Rightarrow> v)"

definition updateCurrentVersionContent :: "Message \<Rightarrow> string \<Rightarrow> Message" where
  "updateCurrentVersionContent message content =
     message\<lparr>m_versions := [(getCurrentVersion message)\<lparr>v_content := content\<rparr>]\<rparr>"

definition createUserMessage :: "string \<Rightarrow> string \<Rightarrow> string \<Rightarrow> Message" where
  "createUserMessage key vid content =
     \<lparr>m_key = key, m_from = User, m_versions = [createMessageVersion vid content], m_sources = None,
      m_reasoning = None, isReasoningStreaming = None, isReasoningComplete = None,
      isContentComplete = None, m_status = None, m_errorCode = JUndef\<rparr>"

definition createLoadingAssistantMessage :: "string \<Rightarrow> string \<Rightarrow> Message" where
  "createLoadingAssistantMessage key vid =
     \<lparr>m_key = key, m_from = Assistant, m_versions = [createMessageVersion vid []], m_sources = None,
      m_reasoning = None, isReasoningStreaming = Some False, isReasoningComplete = Some False,
      isContentComplete = Some False, m_status = Some Loading, m_errorCode = JUndef\<rparr>"

datatype ContentPart = TextPart string | ImagePart string

datatype Content = Text string | Parts "ContentPart list"

definition buildMessageContent :: "string \<Rightarrow> string list \<Rightarrow> Content" where
  "buildMessageContent text imageUrls =
     (let validImages = filter (\<lambda>url. trim url \<noteq> []) imageUrls in
      if length validImages = 0 then Text text
      else Parts (TextPart text # map (\<lambda>url. ImagePart (trim url)) validImages))"

definition getTextContent :: "Content \<Rightarrow> string" where
  "getTextContent content = (case content of
       Text s \<Rightarrow> s
     | Parts ps \<Rightarrow>
         (case find (\<lambda>p. case p of TextPart _ \<Rightarrow> True | ImagePart _ \<Rightarrow> False) ps of
            Some (TextPart t) \<Rightarrow> t
          | _ \<Rightarrow> []))"

record ChatCompletionMessage =
  c_role :: MessageRole
  c_content :: Content

definition formatMessageForAPI :: "Message \<Rightarrow> ChatCompletionMessage" where
  "formatMessageForAPI message =
     \<lparr>c_role = m_from message, c_content = Text (v_content (getCurrentVersion message))\<rparr>"

definition isValidMessage :: "Message \<Rightarrow> bool" where
  "isValidMessage message = (case m_versions message of
       [] \<Rightarrow> False
     | v # _ \<Rightarrow> if m_from message = Assistant \<and> trim (v_content v) = [] then False else True)"

subsection \<open>Think tags\<close>

record ThinkResult =
  visibleContent :: string
  reasoning :: string
  hasUnclosedTag :: bool

lemma index_from_bounds: "index_from p i s = Some j \<Longrightarrow> i \<le> j \<and> (p \<noteq> [] \<longrightarrow> j < length s)"
proof -
  assume "index_from p i s = Some j"
  then obtain k where k: "index_of p (drop i s) = Some k" "j = i + k" by (auto simp: index_from_def)
  from index_of_bound [OF k(1)] k(2) show ?thesis by (cases p) auto
qed

text \<open>The loop of \<open>parseThinkTags\<close> from a position, over the parts collected so far.\<close>

function think_loop ::
  "string \<Rightarrow> nat \<Rightarrow> string list \<Rightarrow> string list \<Rightarrow> string list \<times> string list \<times> bool" where
  "think_loop content currentPos visibleParts reasoningParts =
     (case index_from ''<think>'' currentPos content of
        None \<Rightarrow>
          (if currentPos < length content then visibleParts @ [drop currentPos content]
           else visibleParts, reasoningParts, False)
      | Some openPos \<Rightarrow>
          let visible = (if currentPos < openPos
                         then visibleParts @ [slice currentPos openPos content] else visibleParts)
          in (case index_from ''</think>'' (openPos + 7) content of
                None \<Rightarrow> (visible, reasoningParts @ [drop (openPos + 7) content], True)
              | Some closePos \<Rightarrow>
                  think_loop content (closePos + 8) visible
                    (reasoningParts @ [slice (openPos + 7) closePos content])))"
  by pat_completeness auto

termination
proof (relation "measure (\<lambda>(content, pos, _, _). length content - pos)", goal_cases)
  case (2 content pos vis rea openPos visible closePos)
  from index_from_bounds [OF 2(1)] index_from_bounds [OF 2(3)]
  have "pos < length content \<and> pos < closePos + 8" by simp
  then show ?case by simp linarith
qed simp

declare think_loop.simps [simp del]

definition parseThinkTags :: "string \<Rightarrow> ThinkResult" where
  "parseThinkTags content =
     (if \<not> includes_str ''<think>'' content
      then \<lparr>visibleContent = content, reasoning = [], hasUnclosedTag = False\<rparr>
      else let (visibleParts, reasoningParts, hasUnclosed) = think_loop content 0 [] [] in
        \<lparr>visibleContent = trim (join [] visibleParts),
         reasoning = trim (join [CHR 0x0A, CHR 0x0A] reasoningParts),
         hasUnclosedTag = hasUnclosed\<rparr>)"

subsection \<open>Updates of the last assistant message\<close>

definition updateLastAssistantMessage :: "Message list \<Rightarrow> (Message \<Rightarrow> Message) \<Rightarrow> Message list" where
  "updateLastAssistantMessage messages updater =
     (if length messages = 0 then messages
      else if m_from (last messages) \<noteq> Assistant then messages
      else messages[length messages - 1 := updater (last messages)])"

definition error_updater :: "string \<Rightarrow> jsval \<Rightarrow> Message \<Rightarrow> Message" where
  "error_updater errorMessage errorCode message =
     (updateCurrentVersionContent message (API_REQUEST_ERROR @ '': '' @ errorMessage))
       \<lparr>m_status := Some Error, isReasoningStreaming := Some False,
        m_errorCode := (if truthy errorCode then errorCode else JNull)\<rparr>"

definition updateAssistantMessageWithError :: "Message list \<Rightarrow> string \<Rightarrow> jsval \<Rightarrow> Message list" where
  "updateAssistantMessageWithError messages errorMessage errorCode =
     updateLastAssistantMessage messages (error_updater errorMessage errorCode)"

definition processStreamingContent :: "Message \<Rightarrow> string \<Rightarrow> Message" where
  "processStreamingContent message contentChunk =
     (let currentVersion = getCurrentVersion message;
          fullContent = (if contentChunk \<noteq> [] then v_content currentVersion @ contentChunk
                         else v_content currentVersion);
          parsed = parseThinkTags fullContent;
          finalReasoning = (if reasoning parsed \<noteq> []
                            then Some \<lparr>r_content = reasoning parsed, r_duration = 0\<rparr>
                            else m_reasoning message)
      in (updateCurrentVersionContent message fullContent)
           \<lparr>m_reasoning := finalReasoning, isReasoningStreaming := Some (hasUnclosedTag parsed)\<rparr>)"

text \<open>A first string that is not empty, as \<open>a || b\<close> selects it.\<close>

definition or_str :: "string \<Rightarrow> string \<Rightarrow> string" where
  "or_str a b = (if a \<noteq> [] then a else b)"

definition reasoning_text :: "Message \<Rightarrow> string" where
  "reasoning_text message = (case m_reasoning message of None \<Rightarrow> [] | Some r \<Rightarrow> r_content r)"

definition finalizeMessage :: "Message \<Rightarrow> string \<Rightarrow> Message" where
  "finalizeMessage message apiReasoningContent =
     (let currentVersion = getCurrentVersion message;
          parsed = parseThinkTags (v_content currentVersion);
          finalReasoning = or_str apiReasoningContent (or_str (reasoning_text message) (reasoning parsed))
      in (updateCurrentVersionContent message (visibleContent parsed))
           \<lparr>m_reasoning := (if finalReasoning \<noteq> []
              then Some \<lparr>r_content = finalReasoning,
                         r_duration = (case m_reasoning message of None \<Rightarrow> 0 | Some r \<Rightarrow> r_duration r)\<rparr>
              else None),
            isReasoningStreaming := Some False\<rparr>)"

subsection \<open>Repair of stored messages\<close>

definition is_stuck :: "Message \<Rightarrow> bool" where
  "is_stuck m \<longleftrightarrow> m_from m = Assistant \<and> (m_status m = Some Loading \<or> m_status m = Some Streaming)"

text \<open>The search from the end: the index of the last stuck message before \<open>i\<close>.\<close>

fun stuck_index :: "Message list \<Rightarrow> nat \<Rightarrow> nat option" where
  "stuck_index messages 0 = None"
| "stuck_index messages (Suc i) =
     (if is_stuck (messages ! i) then Some i else stuck_index messages i)"

definition sanitize_one :: "Message \<Rightarrow> Message" where
  "sanitize_one message =
     (let finalized = finalizeMessage message [];
          hasContent = trim (v_content (getCurrentVersion finalized));
          hasReasoning = trim (reasoning_text finalized)
      in if hasContent \<noteq> [] \<or> hasReasoning \<noteq> []
         then finalized\<lparr>m_status := Some Complete, isReasoningStreaming := Some False\<rparr>
         else (updateCurrentVersionContent finalized (API_REQUEST_ERROR @ '': '' @ INTERRUPTED))
                \<lparr>m_status := Some Error, isReasoningStreaming := Some False\<rparr>)"

definition sanitizeMessagesOnLoad :: "Message list \<Rightarrow> Message list" where
  "sanitizeMessagesOnLoad messages =
     (case stuck_index messages (length messages) of
        None \<Rightarrow> messages
      | Some targetIndex \<Rightarrow> messages[targetIndex := sanitize_one (messages ! targetIndex)])"

subsection \<open>The request payload\<close>

record PlaygroundConfig =
  cfg_model :: string
  cfg_group :: string
  temperature :: rat
  top_p :: rat
  max_tokens :: rat
  frequency_penalty :: rat
  presence_penalty :: rat
  cfg_seed :: "rat option"
  cfg_stream :: bool

record ParameterEnabled =
  on_temperature :: bool
  on_top_p :: bool
  on_max_tokens :: bool
  on_frequency_penalty :: bool
  on_presence_penalty :: bool
  on_seed :: bool

record ChatCompletionRequest =
  req_model :: string
  req_group :: string
  req_messages :: "ChatCompletionMessage list"
  req_stream :: bool
  req_parameters :: "(string \<times> rat) list"

definition DEFAULT_CONFIG :: PlaygroundConfig where
  "DEFAULT_CONFIG = \<lparr>cfg_model = ''gpt-4o'', cfg_group = ''default'', temperature = 7 / 10, top_p = 1,
     max_tokens = 4096, frequency_penalty = 0, presence_penalty = 0, cfg_seed = None,
     cfg_stream = True\<rparr>"

definition DEFAULT_PARAMETER_ENABLED :: ParameterEnabled where
  "DEFAULT_PARAMETER_ENABLED = \<lparr>on_temperature = True, on_top_p = True, on_max_tokens = False,
     on_frequency_penalty = True, on_presence_penalty = True, on_seed = False\<rparr>"

text \<open>The optional parameters of the request, in the order they are set: present when enabled
  and not null.\<close>

definition enabled_parameters :: "PlaygroundConfig \<Rightarrow> ParameterEnabled \<Rightarrow> (string \<times> rat) list" where
  "enabled_parameters config enabled =
     concat (map (\<lambda>(key, on, value). case value of
          Some v \<Rightarrow> if on then [(key, v)] else []
        | None \<Rightarrow> [])
       [(''temperature'', on_temperature enabled, Some (temperature config)),
        (''top_p'', on_top_p enabled, Some (top_p config)),
        (''max_tokens'', on_max_tokens enabled, Some (max_tokens config)),
        (''frequency_penalty'', on_frequency_penalty enabled, Some (frequency_penalty config)),
        (''presence_penalty'', on_presence_penalty enabled, Some (presence_penalty config)),
        (''seed'', on_seed enabled, cfg_seed config)])"

definition buildChatCompletionPayload ::
  "Message list \<Rightarrow> PlaygroundConfig \<Rightarrow> ParameterEnabled \<Rightarrow> ChatCompletionRequest" where
  "buildChatCompletionPayload messages config parameterEnabled =
     \<lparr>req_model = cfg_model config, req_group = cfg_group config,
      req_messages = map formatMessageForAPI (filter isValidMessage messages),
      req_stream = cfg_stream config,
      req_parameters = enabled_parameters config parameterEnabled\<rparr>"

subsection \<open>What the tags separate\<close>

text \<open>A text with think tags: closed blocks, each with the text before it, and a tail that is
  visible or ends in an unclosed block.\<close>

datatype think_tail = Shown string | Thinking string string

type_synonym think_text = "(string \<times> string) list \<times> think_tail"

definition render_block :: "string \<times> string \<Rightarrow> string" where
  "render_block b = fst b @ ''<think>'' @ snd b @ ''</think>''"

definition render_tail :: "think_tail \<Rightarrow> string" where
  "render_tail t = (case t of Shown v \<Rightarrow> v | Thinking v r \<Rightarrow> v @ ''<think>'' @ r)"

definition render_think :: "think_text \<Rightarrow> string" where
  "render_think t = concat (map render_block (fst t)) @ render_tail (snd t)"

definition wf_think :: "think_text \<Rightarrow> bool" where
  "wf_think t \<longleftrightarrow>
     (\<forall>(v, r) \<in> set (fst t). \<not> includes_str ''<think>'' v \<and> \<not> includes_str ''</think>'' r) \<and>
     (case snd t of Shown v \<Rightarrow> \<not> includes_str ''<think>'' v
      | Thinking v r \<Rightarrow> \<not> includes_str ''<think>'' v \<and> \<not> includes_str ''</think>'' r)"

definition shown_text :: "think_text \<Rightarrow> string" where
  "shown_text t = concat (map fst (fst t)) @ (case snd t of Shown v \<Rightarrow> v | Thinking v r \<Rightarrow> v)"

definition think_parts :: "think_text \<Rightarrow> string list" where
  "think_parts t = map snd (fst t) @ (case snd t of Shown v \<Rightarrow> [] | Thinking v r \<Rightarrow> [r])"

definition still_thinking :: "think_text \<Rightarrow> bool" where
  "still_thinking t = (case snd t of Shown v \<Rightarrow> False | Thinking v r \<Rightarrow> True)"

lemma index_of_lead:
  "\<not> includes_str (x # q) a \<Longrightarrow> x \<notin> set q \<Longrightarrow> index_of (x # q) (a @ x # q @ b) = Some (length a)"
proof (induction a)
  case Nil
  show ?case using starts_with_append [of "x # q" b] by simp
next
  case (Cons c a)
  have "\<not> starts_with (x # q) (c # a @ x # q @ b)"
  proof
    assume "starts_with (x # q) (c # a @ x # q @ b)"
    then obtain t where t: "c = x" "a @ x # q @ b = q @ t" by (auto simp: starts_with_iff)
    from t(2) obtain u where "a = q @ u \<or> a @ u = q \<and> x # q @ b = u @ t"
      by (auto simp: append_eq_append_conv2)
    then consider "a = q @ u" | "a @ u = q" "x # q @ b = u @ t" "u \<noteq> []" by (cases u) auto
    then show False
    proof cases
      case 1
      then have "c # a = [] @ (x # q) @ u" using t(1) by simp
      with Cons.prems(1) show False unfolding includes_iff by blast
    next
      case 2
      then have "x \<in> set q" by (cases u) auto
      with Cons.prems(2) show False by simp
    qed
  qed
  moreover have "\<not> includes_str (x # q) a"
  proof
    assume "includes_str (x # q) a"
    then obtain l r where "a = l @ (x # q) @ r" by (auto simp: includes_iff)
    then have "c # a = (c # l) @ (x # q) @ r" by simp
    with Cons.prems(1) show False unfolding includes_iff by blast
  qed
  ultimately show ?case using Cons.IH Cons.prems(2) by simp
qed

lemma index_open:
  "\<not> includes_str ''<think>'' v \<Longrightarrow>
    index_from ''<think>'' (length pre) (pre @ v @ ''<think>'' @ rest) = Some (length pre + length v)"
  using index_of_lead [of "CHR ''<''" "''think>''" v rest] by (simp add: index_from_def)

lemma index_close:
  "\<not> includes_str ''</think>'' r \<Longrightarrow>
    index_from ''</think>'' (length pre) (pre @ r @ ''</think>'' @ rest) = Some (length pre + length r)"
  using index_of_lead [of "CHR ''<''" "''/think>''" r rest] by (simp add: index_from_def)

lemma index_absent: "\<not> includes_str p s \<Longrightarrow> index_from p (length pre) (pre @ s) = None"
  by (simp add: index_from_def includes_str_def)

lemma slice_middle [simp]: "slice (length a) (length a + length b) (a @ b @ c) = b"
  by (simp add: slice_def)

lemma think_loop_open:
  assumes "\<not> includes_str ''<think>'' v"
  shows "think_loop (pre @ v @ ''<think>'' @ rest) (length pre) vis rea =
      (case index_from ''</think>'' (length pre + length v + 7) (pre @ v @ ''<think>'' @ rest) of
         None \<Rightarrow> (if v \<noteq> [] then vis @ [v] else vis, rea @ [rest], True)
       | Some closePos \<Rightarrow>
           think_loop (pre @ v @ ''<think>'' @ rest) (closePos + 8) (if v \<noteq> [] then vis @ [v] else vis)
             (rea @ [slice (length pre + length v + 7) closePos (pre @ v @ ''<think>'' @ rest)]))"
proof -
  let ?c = "pre @ v @ ''<think>'' @ rest"
  have d: "drop (length pre + length v + 7) ?c = rest" by simp
  have n: "length pre < length pre + length v \<longleftrightarrow> v \<noteq> []" by simp
  show ?thesis
    by (subst think_loop.simps)
      (simp only: index_open [OF assms] option.case Let_def d n slice_middle)
qed

lemma think_loop_block:
  assumes "\<not> includes_str ''<think>'' v" "\<not> includes_str ''</think>'' r"
  shows "think_loop (pre @ render_block (v, r) @ rest) (length pre) vis rea =
    think_loop ((pre @ render_block (v, r)) @ rest) (length (pre @ render_block (v, r)))
      (if v \<noteq> [] then vis @ [v] else vis) (rea @ [r])"
proof -
  let ?p = "pre @ v @ ''<think>''" and ?c = "pre @ v @ ''<think>'' @ r @ ''</think>'' @ rest"
  have c: "pre @ render_block (v, r) @ rest = ?c" "(pre @ render_block (v, r)) @ rest = ?c"
    "?c = ?p @ r @ ''</think>'' @ rest" by (simp_all add: render_block_def)
  have l: "length pre + length v + 7 = length ?p"
    "length ?p + length r + 8 = length (pre @ render_block (v, r))" by (simp_all add: render_block_def)
  have i: "index_from ''</think>'' (length ?p) ?c = Some (length ?p + length r)"
    unfolding c(3) by (rule index_close [OF assms(2)])
  have s: "slice (length ?p) (length ?p + length r) ?c = r"
    unfolding c(3) by (rule slice_middle)
  show ?thesis
    unfolding c(1,2) think_loop_open [OF assms(1)] l(1) i option.case s l(2) ..
qed

lemma think_loop_tail:
  assumes "wf_think ([], t)"
  shows "\<exists>vs. think_loop (pre @ render_tail t) (length pre) vis rea =
     (vis @ vs, rea @ think_parts ([], t), still_thinking ([], t)) \<and> concat vs = shown_text ([], t)"
proof (cases t)
  case (Shown v)
  with assms show ?thesis
    by (subst think_loop.simps)
      (simp add: wf_think_def render_tail_def index_absent think_parts_def still_thinking_def shown_text_def)
next
  case (Thinking v r)
  let ?p = "pre @ v @ ''<think>''"
  from assms Thinking have "\<not> includes_str ''<think>'' v" "\<not> includes_str ''</think>'' r"
    by (auto simp: wf_think_def)
  note vr = this
  have l: "length pre + length v + 7 = length ?p" "pre @ v @ ''<think>'' @ r = ?p @ r" by simp_all
  have i: "index_from ''</think>'' (length pre + length v + 7) (pre @ v @ ''<think>'' @ r) = None"
    unfolding l by (rule index_absent [OF vr(2)])
  have "think_loop (pre @ v @ ''<think>'' @ r) (length pre) vis rea =
      (if v \<noteq> [] then vis @ [v] else vis, rea @ [r], True)"
    unfolding think_loop_open [OF vr(1)] i option.case ..
  with Thinking show ?thesis
    by (simp add: render_tail_def think_parts_def still_thinking_def shown_text_def)
qed

lemma think_loop_render:
  "wf_think (bs, t) \<Longrightarrow>
    \<exists>vs. think_loop (pre @ render_think (bs, t)) (length pre) vis rea =
      (vis @ vs, rea @ think_parts (bs, t), still_thinking (bs, t)) \<and> concat vs = shown_text (bs, t)"
proof (induction bs arbitrary: pre vis rea)
  case Nil
  from think_loop_tail [OF Nil] show ?case by (simp add: render_think_def)
next
  case (Cons b bs)
  obtain v r where b: "b = (v, r)" by fastforce
  from Cons.prems b have vr: "\<not> includes_str ''<think>'' v" "\<not> includes_str ''</think>'' r"
    and wf: "wf_think (bs, t)" by (auto simp: wf_think_def)
  let ?vis = "if v \<noteq> [] then vis @ [v] else vis"
  from Cons.IH [OF wf, of "pre @ render_block b" ?vis "rea @ [r]"] obtain vs where
    "think_loop ((pre @ render_block b) @ render_think (bs, t)) (length (pre @ render_block b)) ?vis (rea @ [r]) =
      (?vis @ vs, (rea @ [r]) @ think_parts (bs, t), still_thinking (bs, t))"
    "concat vs = shown_text (bs, t)" by blast
  with think_loop_block [OF vr, of pre "render_think (bs, t)" vis rea] b show ?case
    by (intro exI [of _ "if v \<noteq> [] then v # vs else vs"])
      (auto simp: render_think_def think_parts_def still_thinking_def shown_text_def)
qed

text \<open>Every text is the rendering of blocks and a tail.\<close>

lemma index_of_cut:
  assumes "index_of p s = Some i" "p \<noteq> []"
  shows "\<exists>a b. s = a @ p @ b \<and> \<not> includes_str p a"
proof -
  from index_of_Some [OF assms(1)] obtain a b where ab: "s = a @ p @ b" "length a = i" by blast
  have "\<not> includes_str p a"
  proof
    assume "includes_str p a"
    then obtain l r where lr: "a = l @ p @ r" by (auto simp: includes_iff)
    then have "length l < i" using ab(2) assms(2) by (cases p) auto
    from index_of_first [OF assms(1) this] ab(1) lr show False by simp
  qed
  with ab(1) show ?thesis by blast
qed

lemma render_think_total: "\<exists>t. wf_think t \<and> render_think t = s"
proof (induction s rule: length_induct)
  case (1 s)
  show ?case
  proof (cases "index_of ''<think>'' s")
    case None
    then have "wf_think ([], Shown s)" "render_think ([], Shown s) = s"
      by (simp_all add: wf_think_def render_think_def render_tail_def includes_str_def)
    then show ?thesis by blast
  next
    case (Some i)
    from index_of_cut [OF this] obtain v rest where s: "s = v @ ''<think>'' @ rest"
      and v: "\<not> includes_str ''<think>'' v" by auto
    show ?thesis
    proof (cases "index_of ''</think>'' rest")
      case None
      then have "wf_think ([], Thinking v rest)" "render_think ([], Thinking v rest) = s"
        using v s by (simp_all add: wf_think_def render_think_def render_tail_def includes_str_def)
      then show ?thesis by blast
    next
      case (Some j)
      from index_of_cut [OF this] obtain r more where rest: "rest = r @ ''</think>'' @ more"
        and r: "\<not> includes_str ''</think>'' r" by auto
      have "length more < length s" by (simp add: s rest)
      with 1 obtain t where "wf_think t" "render_think t = more" by blast
      then have "wf_think ((v, r) # fst t, snd t)" "render_think ((v, r) # fst t, snd t) = s"
        using v r s rest by (simp_all add: wf_think_def render_think_def render_block_def)
      then show ?thesis by blast
    qed
  qed
qed

lemma join_concat: "join [] xs = concat xs"
  by (induction "[] :: string" xs rule: join.induct) auto

lemma render_has_tag:
  assumes "wf_think t"
  shows "includes_str ''<think>'' (render_think t) \<longleftrightarrow> fst t \<noteq> [] \<or> still_thinking t"
proof -
  obtain bs l where t: "t = (bs, l)" by fastforce
  show ?thesis
  proof (cases bs)
    case (Cons b bs')
    have "render_think t = fst b @ ''<think>'' @ (snd b @ ''</think>'' @ render_think (bs', l))"
      by (simp add: t Cons render_think_def render_block_def)
    then have "includes_str ''<think>'' (render_think t)" unfolding includes_iff by blast
    with t Cons show ?thesis by simp
  next
    case Nil
    show ?thesis
    proof (cases l)
      case (Shown v)
      with assms t Nil show ?thesis
        by (simp add: render_think_def render_tail_def wf_think_def still_thinking_def)
    next
      case (Thinking v r)
      then have "render_think t = v @ ''<think>'' @ r"
        by (simp add: t Nil render_think_def render_tail_def)
      then have "includes_str ''<think>'' (render_think t)" unfolding includes_iff by blast
      with t Thinking show ?thesis by (simp add: still_thinking_def)
    qed
  qed
qed

definition think_result :: "think_text \<Rightarrow> ThinkResult" where
  "think_result t =
     \<lparr>visibleContent = (if fst t = [] \<and> \<not> still_thinking t then shown_text t else trim (shown_text t)),
      reasoning = trim (join [CHR 0x0A, CHR 0x0A] (think_parts t)),
      hasUnclosedTag = still_thinking t\<rparr>"

lemma parse_think_render:
  assumes "wf_think t"
  shows "parseThinkTags (render_think t) = think_result t"
proof (cases "fst t \<noteq> [] \<or> still_thinking t")
  case True
  obtain bs l where t: "t = (bs, l)" by fastforce
  with think_loop_render [of bs l "[]" "[]" "[]"] assms obtain vs where
    "think_loop (render_think t) 0 [] [] = (vs, think_parts t, still_thinking t)" "concat vs = shown_text t"
    by auto
  with True show ?thesis
    by (auto simp: parseThinkTags_def render_has_tag [OF assms] think_result_def join_concat)
next
  case False
  then obtain v where "t = ([], Shown v)"
    by (cases t; cases "snd t") (auto simp: still_thinking_def)
  with render_has_tag [OF assms] show ?thesis
    by (simp add: parseThinkTags_def think_result_def still_thinking_def shown_text_def
        think_parts_def render_think_def render_tail_def)
qed

text \<open>C24: The tags separate reasoning from visible text: every text is a sequence of closed think
  blocks and a tail, and the visible content is exactly what lies outside the blocks, the
  reasoning what lies inside them, an unclosed last block included.  Both are trimmed, except that
  a text without a tag is shown as it is.\<close>

theorem think_tags_separated:
  "(\<exists>t. wf_think t \<and> render_think t = s) \<and>
   (\<forall>t. wf_think t \<longrightarrow> render_think t = s \<longrightarrow> parseThinkTags s = think_result t)"
  using render_think_total parse_think_render by blast

theorem think_tags_separated_witness:
  "parseThinkTags ''a<think>b</think>c<think>d'' =
     \<lparr>visibleContent = ''ac'', reasoning = ''b'' @ [CHR 0x0A, CHR 0x0A] @ ''d'', hasUnclosedTag = True\<rparr>"
proof -
  let ?t = "([(''a'', ''b'')], Thinking ''c'' ''d'')"
  have "wf_think ?t" by (simp add: wf_think_def includes_str_def starts_with_def)
  moreover have "render_think ?t = ''a<think>b</think>c<think>d''"
    by (simp add: render_think_def render_block_def render_tail_def)
  moreover have "think_result ?t =
      \<lparr>visibleContent = ''ac'', reasoning = ''b'' @ [CHR 0x0A, CHR 0x0A] @ ''d'', hasUnclosedTag = True\<rparr>"
    by (simp add: think_result_def still_thinking_def shown_text_def think_parts_def trim_def is_space_def)
  ultimately show ?thesis using think_tags_separated [of "''a<think>b</think>c<think>d''"] by metis
qed

subsection \<open>Repair of stored messages\<close>

lemma stuck_index_Some:
  "stuck_index ms n = Some i \<Longrightarrow> i < n \<and> is_stuck (ms ! i)"
  by (induction ms n rule: stuck_index.induct) (auto split: if_splits)

lemma stuck_index_None: "stuck_index ms n = None \<Longrightarrow> i < n \<Longrightarrow> \<not> is_stuck (ms ! i)"
proof (induction ms n rule: stuck_index.induct)
  case (2 ms n)
  then show ?case by (cases "i = n") (auto split: if_splits)
qed simp

lemma finalize_from [simp]: "m_from (finalizeMessage m a) = m_from m"
  by (simp add: finalizeMessage_def Let_def updateCurrentVersionContent_def)

lemma sanitize_one_not_stuck: "\<not> is_stuck (sanitize_one m)"
  by (simp add: sanitize_one_def Let_def is_stuck_def)

definition stuck_count :: "Message list \<Rightarrow> nat" where
  "stuck_count ms = length (filter is_stuck ms)"

lemma stuck_count_update:
  "i < length ms \<Longrightarrow> is_stuck (ms ! i) \<Longrightarrow> \<not> is_stuck m \<Longrightarrow> stuck_count (ms[i := m]) = stuck_count ms - 1"
proof -
  assume i: "i < length ms" and st: "is_stuck (ms ! i)" "\<not> is_stuck m"
  have "stuck_count ms = stuck_count (take i ms @ ms ! i # drop (Suc i) ms)"
    using i by (simp add: id_take_nth_drop [symmetric])
  with st show ?thesis by (simp add: stuck_count_def upd_conv_take_nth_drop [OF i])
qed

lemma sanitize_count: "stuck_count (sanitizeMessagesOnLoad ms) = stuck_count ms - 1"
proof (cases "stuck_index ms (length ms)")
  case None
  then have "\<forall>m \<in> set ms. \<not> is_stuck m"
    using stuck_index_None [OF None] by (auto simp: in_set_conv_nth)
  with None show ?thesis by (simp add: sanitizeMessagesOnLoad_def stuck_count_def)
next
  case (Some i)
  with stuck_index_Some [OF Some] show ?thesis
    by (simp add: sanitizeMessagesOnLoad_def stuck_count_update sanitize_one_not_stuck)
qed

text \<open>A load of the stored messages repairs the last message that is still loading or streaming,
  and only that one: after n loads exactly n of the stuck messages are gone, and the keys and
  roles of all messages are as before.\<close>

lemma sanitize_repairs_one:
  "stuck_count ((sanitizeMessagesOnLoad ^^ n) ms) = stuck_count ms - n \<and>
   map m_key ((sanitizeMessagesOnLoad ^^ n) ms) = map m_key ms \<and>
   map m_from ((sanitizeMessagesOnLoad ^^ n) ms) = map m_from ms"
proof (induction n)
  case (Suc n)
  have "m_key (sanitize_one m) = m_key m" "m_from (sanitize_one m) = m_from m" for m
    by (simp_all add: sanitize_one_def finalizeMessage_def Let_def updateCurrentVersionContent_def)
  then have "map m_key (sanitizeMessagesOnLoad xs) = map m_key xs"
    "map m_from (sanitizeMessagesOnLoad xs) = map m_from xs" for xs
    using stuck_index_Some [of xs "length xs"]
    by (auto simp: sanitizeMessagesOnLoad_def map_update list_update_same_conv split: option.split)
  with Suc show ?case by (simp add: sanitize_count)
qed simp

end
