(* ===== verification/Playground_Chat.thy ===== *)
theory Playground_Chat
  imports Playground_Messages
begin

section \<open>Playground: the chat and its streams\<close>

text \<open>
  \<^item> \<open>web/default/src/features/playground/hooks/use-stream-request.ts\<close>: the handlers of a server-sent
    event stream.
  \<^item> \<open>web/default/src/features/playground/hooks/use-chat-handler.ts\<close>: updates, completion, errors, replies
    without streaming, stopping.
  \<^item> \<open>web/default/src/features/playground/index.tsx\<close>: sending, regenerating, editing, deleting.

  The state of the page is the record \<open>Chat\<close>: the messages, whether \<open>sseSourceRef\<close> holds a source,
  \<open>isStreamCompleteRef\<close>, the message being edited, and, as a log, the error toasts and the requests
  sent.  The stream library is the environment: any of its events may arrive at any moment, with
  the data, ready state and status the event handlers read.  The handlers run to completion one
  after the other.  All streams of a page share the two references and the handlers, so an event of
  an earlier source has the effect of the same event of the current one.
\<close>

subsection \<open>State\<close>

record Chat =
  chat_messages :: "Message list"
  sseSource :: bool
  isStreamComplete :: bool
  editingMessageKey :: "string option"
  toasts :: "string list"
  requests :: "ChatCompletionRequest list"

definition onMessageUpdate :: "(Message list \<Rightarrow> Message list) \<Rightarrow> Chat \<Rightarrow> Chat" where
  "onMessageUpdate updater c = c\<lparr>chat_messages := updater (chat_messages c)\<rparr>"

definition update_last :: "(Message \<Rightarrow> Message) \<Rightarrow> Chat \<Rightarrow> Chat" where
  "update_last updater = onMessageUpdate (\<lambda>prev. updateLastAssistantMessage prev updater)"

subsection \<open>Handlers of the chat\<close>

datatype update_type = ReasoningChunk | ContentChunk

definition stream_updater :: "update_type \<Rightarrow> string \<Rightarrow> Message \<Rightarrow> Message" where
  "stream_updater type chunk message =
     (if m_status message = Some Error then message
      else if type = ReasoningChunk then
        message\<lparr>m_reasoning := Some \<lparr>r_content = reasoning_text message @ chunk, r_duration = 0\<rparr>,
                isReasoningStreaming := Some True, m_status := Some Streaming\<rparr>
      else (processStreamingContent message chunk)\<lparr>m_status := Some Streaming\<rparr>)"

definition handleStreamUpdate :: "update_type \<Rightarrow> string \<Rightarrow> Chat \<Rightarrow> Chat" where
  "handleStreamUpdate type chunk = update_last (stream_updater type chunk)"

definition complete_updater :: "Message \<Rightarrow> Message" where
  "complete_updater message =
     (if m_status message = Some Complete \<or> m_status message = Some Error then message
      else (finalizeMessage message [])\<lparr>m_status := Some Complete\<rparr>)"

definition handleStreamComplete :: "Chat \<Rightarrow> Chat" where
  "handleStreamComplete = update_last complete_updater"

definition handleStreamError :: "string \<Rightarrow> jsval \<Rightarrow> Chat \<Rightarrow> Chat" where
  "handleStreamError error errorCode c =
     onMessageUpdate (\<lambda>prev. updateAssistantMessageWithError prev error errorCode)
       (c\<lparr>toasts := toasts c @ [error]\<rparr>)"

definition stop_updater :: "Message \<Rightarrow> Message" where
  "stop_updater message =
     (if m_status message = Some Loading \<or> m_status message = Some Streaming
      then (finalizeMessage message [])\<lparr>m_status := Some Complete\<rparr> else message)"

definition stopStream :: "Chat \<Rightarrow> Chat" where
  "stopStream c = (if sseSource c then c\<lparr>sseSource := False\<rparr> else c)"

definition stopGeneration :: "Chat \<Rightarrow> Chat" where
  "stopGeneration c = update_last stop_updater (stopStream c)"

subsection \<open>Stream events\<close>

definition closeSource :: "Chat \<Rightarrow> Chat" where
  "closeSource c = c\<lparr>sseSource := False\<rparr>"

definition handleError :: "string \<Rightarrow> jsval \<Rightarrow> Chat \<Rightarrow> Chat" where
  "handleError errorMessage errorCode c =
     (if \<not> isStreamComplete c then closeSource (handleStreamError errorMessage errorCode c) else c)"

text \<open>The value \<open>choices?.[0]\<close> of a value that is not null or undefined.\<close>

fun index0 :: "jsval \<Rightarrow> jsval" where
  "index0 (JArr (v # _)) = v"
| "index0 (JStr (ch # _)) = JStr [ch]"
| "index0 (JObj ob) = obj_get ob ''0''"
| "index0 _ = JUndef"

text \<open>The value \<open>chunk.choices?.[0]?.delta\<close>; reading a property of null throws.\<close>

definition chunk_delta :: "jsval \<Rightarrow> jsval option" where
  "chunk_delta chunk =
     (if nullish chunk then None
      else let choices = get_prop chunk ''choices'' in
           if nullish choices then Some JUndef
           else let first = index0 choices in
                Some (if nullish first then JUndef else get_prop first ''delta''))"

definition apply_delta :: "jsval \<Rightarrow> Chat \<Rightarrow> Chat" where
  "apply_delta delta c =
     (if \<not> truthy delta then c
      else let rc = get_prop delta ''reasoning_content'';
               ct = get_prop delta ''content'';
               c' = (if truthy rc then handleStreamUpdate ReasoningChunk (to_str rc) c else c)
           in if truthy ct then handleStreamUpdate ContentChunk (to_str ct) c' else c')"

definition DONE :: string where
  "DONE = ''[DONE]''"

definition on_message :: "string \<Rightarrow> Chat \<Rightarrow> Chat" where
  "on_message data c =
     (if data = DONE then handleStreamComplete (closeSource (c\<lparr>isStreamComplete := True\<rparr>))
      else case Option.bind (json_parse data) chunk_delta of
             None \<Rightarrow> handleError PARSE_ERROR JUndef c
           | Some delta \<Rightarrow> apply_delta delta c)"

text \<open>The message and the code of an error event: those of a JSON error object, the raw data
  otherwise.\<close>

definition error_details :: "string \<Rightarrow> string \<times> jsval" where
  "error_details data =
     (if data = [] then (API_REQUEST_ERROR, JUndef)
      else case json_parse data of
          None \<Rightarrow> (data, JUndef)
        | Some parsed \<Rightarrow>
            let err = get_prop parsed ''error'' in
            if truthy err
            then (if truthy (get_prop err ''message'') then to_str (get_prop err ''message'') else data,
                  if truthy (get_prop err ''code'') then get_prop err ''code'' else JUndef)
            else (data, JUndef))"

definition on_error :: "string \<Rightarrow> int \<Rightarrow> Chat \<Rightarrow> Chat" where
  "on_error data readyState c =
     (if readyState \<noteq> 2 then handleError (fst (error_details data)) (snd (error_details data)) c else c)"

definition on_readystatechange :: "int option \<Rightarrow> int option \<Rightarrow> Chat \<Rightarrow> Chat" where
  "on_readystatechange readyState status c =
     (case (readyState, status) of
        (Some r, Some s) \<Rightarrow>
          if 2 \<le> r \<and> s \<noteq> 200
          then handleError (''HTTP '' @ int_str s @ '': '' @ CONNECTION_CLOSED) JUndef c else c
      | _ \<Rightarrow> c)"

datatype sse_event =
    SseMessage string
  | SseError string int
  | SseReadyState "int option" "int option"

definition handle_event :: "Chat \<Rightarrow> sse_event \<Rightarrow> Chat" where
  "handle_event c e = (case e of
       SseMessage data \<Rightarrow> on_message data c
     | SseError data readyState \<Rightarrow> on_error data readyState c
     | SseReadyState readyState status \<Rightarrow> on_readystatechange readyState status c)"

definition run_events :: "Chat \<Rightarrow> sse_event list \<Rightarrow> Chat" where
  "run_events c es = foldl handle_event c es"

subsection \<open>Sending\<close>

text \<open>The flag tells whether \<open>source.stream()\<close> starts the stream or throws.\<close>

definition sendStreamRequest :: "bool \<Rightarrow> ChatCompletionRequest \<Rightarrow> Chat \<Rightarrow> Chat" where
  "sendStreamRequest starts payload c =
     (let c' = c\<lparr>requests := requests c @ [payload], sseSource := True, isStreamComplete := False\<rparr> in
      if starts then c' else closeSource (handleStreamError STREAM_START_ERROR JUndef c'))"

definition sendChat ::
  "PlaygroundConfig \<Rightarrow> ParameterEnabled \<Rightarrow> bool \<Rightarrow> Message list \<Rightarrow> Chat \<Rightarrow> Chat" where
  "sendChat config enabled starts messages c =
     (let payload = buildChatCompletionPayload messages config enabled in
      if cfg_stream config then sendStreamRequest starts payload c
      else c\<lparr>requests := requests c @ [payload]\<rparr>)"

text \<open>The outcome of a request without streaming.\<close>

record ReplyMessage =
  reply_content :: "string option"
  reply_reasoning :: "string option"

datatype reply =
    Choice "ReplyMessage option"
  | NoChoice
  | Failure "string option" "string option" jsval

definition opt_str :: "string option \<Rightarrow> string" where
  "opt_str s = (case s of None \<Rightarrow> [] | Some t \<Rightarrow> t)"

text \<open>The first version with another content; a message without versions gets one without an
  identifier, here the empty one.\<close>

definition with_content :: "Message \<Rightarrow> string \<Rightarrow> Message" where
  "with_content m content =
     m\<lparr>m_versions := [case m_versions m of [] \<Rightarrow> \<lparr>v_id = [], v_content = content\<rparr>
                      | v # _ \<Rightarrow> v\<lparr>v_content := content\<rparr>]\<rparr>"

definition reply_updater :: "ReplyMessage option \<Rightarrow> Message \<Rightarrow> Message" where
  "reply_updater r message =
     (finalizeMessage
        (with_content message (opt_str (Option.bind r reply_content)))
        (opt_str (Option.bind r reply_reasoning)))\<lparr>m_status := Some Complete\<rparr>"

definition on_reply :: "reply \<Rightarrow> Chat \<Rightarrow> Chat" where
  "on_reply r c = (case r of
       NoChoice \<Rightarrow> c
     | Choice msg \<Rightarrow> update_last (reply_updater msg) c
     | Failure dataMessage errMessage code \<Rightarrow>
         handleStreamError
           (or_str (opt_str dataMessage) (or_str (opt_str errMessage) API_REQUEST_ERROR))
           (if truthy code then code else JUndef) c)"

subsection \<open>The page\<close>

definition set_messages :: "Message list \<Rightarrow> Chat \<Rightarrow> Chat" where
  "set_messages ms = onMessageUpdate (\<lambda>_. ms)"

definition find_key :: "string \<Rightarrow> Message list \<Rightarrow> nat option" where
  "find_key k ms = find (\<lambda>i. m_key (ms ! i) = k) [0..<length ms]"

text \<open>The identifiers a handler draws: key and version identifier of each new message.\<close>

record Fresh =
  user_key :: string
  user_vid :: string
  reply_key :: string
  reply_vid :: string

definition handleSendMessage ::
  "PlaygroundConfig \<Rightarrow> ParameterEnabled \<Rightarrow> bool \<Rightarrow> Fresh \<Rightarrow> string \<Rightarrow> Chat \<Rightarrow> Chat" where
  "handleSendMessage config enabled starts ids text c =
     (let newMessages = chat_messages c @
            [createUserMessage (user_key ids) (user_vid ids) text,
             createLoadingAssistantMessage (reply_key ids) (reply_vid ids)]
      in sendChat config enabled starts newMessages (set_messages newMessages c))"

definition handleRegenerateMessage ::
  "PlaygroundConfig \<Rightarrow> ParameterEnabled \<Rightarrow> bool \<Rightarrow> Fresh \<Rightarrow> string \<Rightarrow> Chat \<Rightarrow> Chat" where
  "handleRegenerateMessage config enabled starts ids key c =
     (case find_key key (chat_messages c) of
        None \<Rightarrow> c
      | Some messageIndex \<Rightarrow>
          let newMessages = take messageIndex (chat_messages c) @
                [createLoadingAssistantMessage (reply_key ids) (reply_vid ids)]
          in sendChat config enabled starts newMessages (set_messages newMessages c))"

definition handleEditMessage :: "string \<Rightarrow> Chat \<Rightarrow> Chat" where
  "handleEditMessage key c = c\<lparr>editingMessageKey := Some key\<rparr>"

definition handleEditOpenChange :: "bool \<Rightarrow> Chat \<Rightarrow> Chat" where
  "handleEditOpenChange is_open c = (if \<not> is_open then c\<lparr>editingMessageKey := None\<rparr> else c)"

definition applyEdit ::
  "PlaygroundConfig \<Rightarrow> ParameterEnabled \<Rightarrow> bool \<Rightarrow> Fresh \<Rightarrow> string \<Rightarrow> bool \<Rightarrow> Chat \<Rightarrow> Chat" where
  "applyEdit config enabled starts ids newContent submit c =
     (case editingMessageKey c of
        None \<Rightarrow> c
      | Some key \<Rightarrow>
          if key = [] then c
          else case find_key key (chat_messages c) of
            None \<Rightarrow> c
          | Some index \<Rightarrow>
              let updated = map (\<lambda>m. if m_key m = key then with_content m newContent else m)
                    (chat_messages c);
                  c' = c\<lparr>editingMessageKey := None\<rparr>
              in if \<not> submit \<or> m_from (updated ! index) \<noteq> User then set_messages updated c'
                 else let toSubmit = take (index + 1) updated @
                            [createLoadingAssistantMessage (reply_key ids) (reply_vid ids)]
                      in sendChat config enabled starts toSubmit (set_messages toSubmit c'))"

definition handleDeleteMessage :: "string \<Rightarrow> Chat \<Rightarrow> Chat" where
  "handleDeleteMessage key c = set_messages (filter (\<lambda>m. m_key m \<noteq> key) (chat_messages c)) c"

text \<open>The effects that run when the lists of models and groups arrive.\<close>

definition sync_model :: "string list \<Rightarrow> PlaygroundConfig \<Rightarrow> PlaygroundConfig" where
  "sync_model models config =
     (if length models > 0 \<and> \<not> list_ex (\<lambda>m. m = cfg_model config) models
      then config\<lparr>cfg_model := models ! 0\<rparr> else config)"

definition sync_group :: "string list \<Rightarrow> PlaygroundConfig \<Rightarrow> PlaygroundConfig" where
  "sync_group groups config =
     (if \<not> list_ex (\<lambda>g. g = cfg_group config) groups \<and> length groups > 0
      then config\<lparr>cfg_group := (case find (\<lambda>g. g = ''default'') groups of
                                 Some g \<Rightarrow> g | None \<Rightarrow> groups ! 0)\<rparr>
      else config)"

subsection \<open>Steps of the chat\<close>

definition new_chat :: Chat where
  "new_chat = \<lparr>chat_messages = [], sseSource = False, isStreamComplete = False,
     editingMessageKey = None, toasts = [], requests = []\<rparr>"

text \<open>Every update of the messages is saved in the local storage, and a page starts with the saved messages,
  which \<open>loadMessages\<close> repairs.  Its argument is the array that was read, \<open>None\<close> if there is none.\<close>

definition loadMessages :: "Message list option \<Rightarrow> Message list option" where
  "loadMessages saved = map_option sanitizeMessagesOnLoad saved"

definition open_page :: "Message list option \<Rightarrow> Chat" where
  "open_page saved = new_chat\<lparr>chat_messages := (case loadMessages saved of Some ms \<Rightarrow> ms | None \<Rightarrow> [])\<rparr>"

definition clearMessages :: "Chat \<Rightarrow> Chat" where
  "clearMessages c = set_messages [] c"

inductive chat_step :: "PlaygroundConfig \<Rightarrow> ParameterEnabled \<Rightarrow> Chat \<Rightarrow> Chat \<Rightarrow> bool"
  for config enabled where
  step_event: "chat_step config enabled c (handle_event c e)"
| step_reply: "chat_step config enabled c (on_reply r c)"
| step_stop: "chat_step config enabled c (stopGeneration c)"
| step_send: "chat_step config enabled c (handleSendMessage config enabled starts ids text c)"
| step_regenerate: "chat_step config enabled c (handleRegenerateMessage config enabled starts ids key c)"
| step_edit: "chat_step config enabled c (handleEditMessage key c)"
| step_edit_close: "chat_step config enabled c (handleEditOpenChange is_open c)"
| step_apply: "chat_step config enabled c (applyEdit config enabled starts ids content submit c)"
| step_delete: "chat_step config enabled c (handleDeleteMessage key c)"
| step_clear: "chat_step config enabled c (clearMessages c)"

text \<open>A chat begins on a page without saved messages or on one that finds the messages of an earlier
  chat: of its last state, or of a former one when saving failed after it.  The configuration may
  change at any time.\<close>

inductive chat_reach :: "PlaygroundConfig \<Rightarrow> ParameterEnabled \<Rightarrow> Chat \<Rightarrow> bool" where
  reach_new: "chat_reach config enabled (open_page None)"
| reach_load: "chat_reach config enabled c \<Longrightarrow> chat_reach config enabled (open_page (Some (chat_messages c)))"
| reach_config: "chat_reach config enabled c \<Longrightarrow> chat_reach config' enabled' c"
| reach_step: "chat_reach config enabled c \<Longrightarrow> chat_step config enabled c c' \<Longrightarrow>
    chat_reach config enabled c'"

subsection \<open>Updates of the last message\<close>

named_theorems chat_defs \<open>definitions of the handlers\<close>

lemmas handler_defs [chat_defs] =
  handleStreamUpdate_def handleStreamComplete_def handleStreamError_def handleError_def
  closeSource_def update_last_def onMessageUpdate_def set_messages_def
  updateAssistantMessageWithError_def

lemma update_last_all:
  assumes "\<And>m. m_from m = Assistant \<Longrightarrow> P m \<Longrightarrow> P (f m)" "\<forall>m \<in> set ms. P m"
  shows "\<forall>m \<in> set (updateLastAssistantMessage ms f). P m"
proof (cases ms rule: rev_cases)
  case (snoc ys y)
  with assms show ?thesis by (simp add: updateLastAssistantMessage_def)
qed (simp add: updateLastAssistantMessage_def)

lemma update_last_butlast [simp]: "butlast (updateLastAssistantMessage ms f) = butlast ms"
  by (simp add: updateLastAssistantMessage_def butlast_list_update)

lemma update_last_length [simp]: "length (updateLastAssistantMessage ms f) = length ms"
  by (simp add: updateLastAssistantMessage_def)

lemma update_last_snoc:
  "m_from m = Assistant \<Longrightarrow> updateLastAssistantMessage (ms @ [m]) f = ms @ [f m]"
  by (simp add: updateLastAssistantMessage_def)

lemma update_last_skip:
  "ms = [] \<or> m_from (last ms) \<noteq> Assistant \<Longrightarrow> updateLastAssistantMessage ms f = ms"
  by (auto simp: updateLastAssistantMessage_def)

lemma update_last_map:
  assumes "\<And>m. g (f m) = g m"
  shows "map g (updateLastAssistantMessage ms f) = map g ms"
proof (cases ms rule: rev_cases)
  case (snoc ys y)
  with assms show ?thesis by (simp add: updateLastAssistantMessage_def)
qed (simp add: updateLastAssistantMessage_def)

lemmas updater_defs =
  stream_updater_def complete_updater_def error_updater_def stop_updater_def reply_updater_def
  processStreamingContent_def finalizeMessage_def updateCurrentVersionContent_def with_content_def

lemma updater_keys [simp]:
  "m_key (stream_updater t ch m) = m_key m" "m_from (stream_updater t ch m) = m_from m"
  "m_key (complete_updater m) = m_key m" "m_from (complete_updater m) = m_from m"
  "m_key (error_updater e code m) = m_key m" "m_from (error_updater e code m) = m_from m"
  "m_key (stop_updater m) = m_key m" "m_from (stop_updater m) = m_from m"
  "m_key (reply_updater r m) = m_key m" "m_from (reply_updater r m) = m_from m"
  "m_key (with_content m s) = m_key m" "m_from (with_content m s) = m_from m"
  by (simp_all add: updater_defs Let_def)

subsection \<open>Properties of every message\<close>

definition every_message :: "(Message \<Rightarrow> bool) \<Rightarrow> Chat \<Rightarrow> bool" where
  "every_message P c \<longleftrightarrow> (\<forall>m \<in> set (chat_messages c). P m)"

lemma every_message_fields [simp]:
  "every_message P (c\<lparr>sseSource := a\<rparr>) = every_message P c"
  "every_message P (c\<lparr>isStreamComplete := a\<rparr>) = every_message P c"
  "every_message P (c\<lparr>editingMessageKey := k\<rparr>) = every_message P c"
  "every_message P (c\<lparr>toasts := ts\<rparr>) = every_message P c"
  "every_message P (c\<lparr>requests := rs\<rparr>) = every_message P c"
  "every_message P (closeSource c) = every_message P c"
  by (simp_all add: every_message_def closeSource_def)

lemma every_message_set [simp]: "every_message P (set_messages ms c) \<longleftrightarrow> (\<forall>m \<in> set ms. P m)"
  by (simp add: every_message_def set_messages_def onMessageUpdate_def)

lemma error_update:
  "handleStreamError e code c = update_last (error_updater e code) (c\<lparr>toasts := toasts c @ [e]\<rparr>)"
  by (simp add: handleStreamError_def update_last_def updateAssistantMessageWithError_def)

text \<open>What new messages have and what every update keeps holds of every message of every
  reachable chat.\<close>

locale message_property =
  fixes P :: "Message \<Rightarrow> bool"
  assumes new_user: "P (createUserMessage k v text)"
    and new_reply: "P (createLoadingAssistantMessage k v)"
    and keep_stream: "m_from m = Assistant \<Longrightarrow> P m \<Longrightarrow> P (stream_updater t ch m)"
    and keep_complete: "m_from m = Assistant \<Longrightarrow> P m \<Longrightarrow> P (complete_updater m)"
    and keep_error: "m_from m = Assistant \<Longrightarrow> P m \<Longrightarrow> P (error_updater e code m)"
    and keep_stop: "m_from m = Assistant \<Longrightarrow> P m \<Longrightarrow> P (stop_updater m)"
    and keep_reply: "m_from m = Assistant \<Longrightarrow> P m \<Longrightarrow> P (reply_updater r m)"
    and keep_edit: "P m \<Longrightarrow> P (with_content m s)"
    and keep_load: "m_from m = Assistant \<Longrightarrow> P m \<Longrightarrow> P (sanitize_one m)"
begin

lemma every_update:
  assumes "\<And>m. m_from m = Assistant \<Longrightarrow> P m \<Longrightarrow> P (f m)" "every_message P c"
  shows "every_message P (update_last f c)"
  using update_last_all [of P f "chat_messages c", OF assms(1)] assms(2)
  by (simp add: update_last_def onMessageUpdate_def every_message_def)

lemma every_error: "every_message P c \<Longrightarrow> every_message P (handleStreamError e code c)"
  unfolding error_update by (rule every_update) (simp_all add: keep_error)

lemma every_handleError: "every_message P c \<Longrightarrow> every_message P (handleError e code c)"
  by (simp add: handleError_def every_error)

lemma every_chunk: "every_message P c \<Longrightarrow> every_message P (handleStreamUpdate t ch c)"
  unfolding handleStreamUpdate_def by (rule every_update) (simp_all add: keep_stream)

lemma every_message_event: "every_message P c \<Longrightarrow> every_message P (on_message data c)"
proof -
  assume c: "every_message P c"
  then have "every_message P (handleStreamComplete (closeSource (c\<lparr>isStreamComplete := True\<rparr>)))"
    unfolding handleStreamComplete_def by (intro every_update keep_complete) simp_all
  moreover from c have "every_message P (apply_delta d c)" for d
    by (simp add: apply_delta_def Let_def every_chunk)
  ultimately show ?thesis using c unfolding on_message_def
    by (simp add: every_handleError split: option.split)
qed

lemma every_event: "every_message P c \<Longrightarrow> every_message P (handle_event c e)"
  by (simp add: handle_event_def on_error_def on_readystatechange_def every_message_event
      every_handleError split: sse_event.split option.split)

lemma every_reply: "every_message P c \<Longrightarrow> every_message P (on_reply r c)"
  by (simp add: on_reply_def every_error every_update keep_reply split: reply.split)

lemma every_stop: "every_message P c \<Longrightarrow> every_message P (stopGeneration c)"
  unfolding stopGeneration_def by (rule every_update) (simp_all add: stopStream_def keep_stop)

lemma every_send: "every_message P (set_messages ms c) \<Longrightarrow>
    every_message P (sendChat config enabled starts ms (set_messages ms c))"
  by (simp add: sendChat_def sendStreamRequest_def Let_def every_error del: every_message_set)

lemma every_regenerate: "every_message P c \<Longrightarrow>
    every_message P (handleRegenerateMessage config enabled starts ids key c)"
proof -
  assume c: "every_message P c"
  have "\<forall>m \<in> set (take n (chat_messages c) @ [createLoadingAssistantMessage k v]). P m" for n k v
    using c new_reply by (auto simp: every_message_def dest: in_set_takeD)
  with c show ?thesis unfolding handleRegenerateMessage_def Let_def
    by (auto intro!: every_send split: option.split simp del: set_append)
qed

lemma every_apply: "every_message P c \<Longrightarrow>
    every_message P (applyEdit config enabled starts ids content submit c)"
proof -
  assume c: "every_message P c"
  have e: "\<forall>m \<in> set (map (\<lambda>m. if m_key m = key then with_content m content else m) (chat_messages c)). P m"
    for key using c by (auto simp: keep_edit every_message_def)
  have "\<forall>m \<in> set (take n (map (\<lambda>m. if m_key m = key then with_content m content else m)
      (chat_messages c)) @ [createLoadingAssistantMessage k v]). P m" for n key k v
    using e [of key] by (auto simp: new_reply dest: in_set_takeD)
  with c e show ?thesis unfolding applyEdit_def Let_def
    by (auto intro!: every_send split: option.split simp del: set_map set_append)
qed

lemma every_send_message: "every_message P c \<Longrightarrow>
    every_message P (handleSendMessage config enabled starts ids txt c)"
  unfolding handleSendMessage_def Let_def
  by (intro every_send) (auto simp: every_message_def [of P c] new_user new_reply)

lemma every_delete: "every_message P c \<Longrightarrow> every_message P (handleDeleteMessage key c)"
  by (simp add: handleDeleteMessage_def every_message_def [of P c])

lemma every_sanitized:
  assumes "\<forall>m \<in> set ms. P m"
  shows "\<forall>m \<in> set (sanitizeMessagesOnLoad ms). P m"
proof (cases "stuck_index ms (length ms)")
  case (Some i)
  then have "i < length ms" "is_stuck (ms ! i)" using stuck_index_Some by auto
  with assms have "P (sanitize_one (ms ! i))" by (simp add: keep_load is_stuck_def)
  with assms Some show ?thesis
    using set_update_subset_insert [of ms i "sanitize_one (ms ! i)"]
    by (auto simp: sanitizeMessagesOnLoad_def)
qed (use assms in \<open>simp add: sanitizeMessagesOnLoad_def\<close>)

lemma every_page: "every_message P c \<Longrightarrow> every_message P (open_page (Some (chat_messages c)))"
  using every_sanitized [of "chat_messages c"] by (simp add: open_page_def loadMessages_def every_message_def)

lemma every_step:
  assumes "chat_step config enabled c c'" "every_message P c"
  shows "every_message P c'"
  using assms(1)
  by cases (use assms(2) in \<open>simp_all add: every_event every_reply every_stop every_regenerate every_apply
    every_send_message every_delete clearMessages_def handleEditMessage_def handleEditOpenChange_def\<close>)

lemma every_reach: "chat_reach config enabled c \<Longrightarrow> every_message P c"
proof (induction rule: chat_reach.induct)
  case reach_new
  show ?case by (simp add: every_message_def open_page_def loadMessages_def new_chat_def)
next
  case (reach_load config enabled c)
  then show ?case by (blast intro: every_page)
next
  case (reach_config config enabled c)
  then show ?case by blast
next
  case (reach_step config enabled c c')
  then show ?case by (blast intro: every_step)
qed

end

text \<open>The shape of messages: one version, and a status exactly on replies.\<close>

definition wf_message :: "Message \<Rightarrow> bool" where
  "wf_message m \<longleftrightarrow> length (m_versions m) = 1 \<and> m_from m \<noteq> System \<and>
     (m_status m = None \<longleftrightarrow> m_from m = User)"

interpretation shape: message_property wf_message
  by unfold_locales
    (auto simp: wf_message_def createUserMessage_def createLoadingAssistantMessage_def updater_defs
      sanitize_one_def Let_def)

text \<open>A reasoning indicator only on a message that is still streaming.\<close>

definition spinner_ok :: "Message \<Rightarrow> bool" where
  "spinner_ok m \<longleftrightarrow> (isReasoningStreaming m = Some True \<longrightarrow> m_status m = Some Streaming)"

interpretation spinner: message_property spinner_ok
  by unfold_locales
    (auto simp: spinner_ok_def createUserMessage_def createLoadingAssistantMessage_def updater_defs
      sanitize_one_def Let_def)

text \<open>C25: In every reachable chat, also after the page was opened anew with saved messages and under
  changing configurations, every message has one version, it is a user message without a status or a
  reply with one, and it shows the reasoning indicator only while it is streaming.\<close>

theorem chat_messages_typed:
  "chat_reach config enabled c \<Longrightarrow> every_message wf_message c \<and> every_message spinner_ok c"
  by (blast intro: shape.every_reach spinner.every_reach)

subsection \<open>Streams\<close>

definition chat_frame ::
  "Chat \<Rightarrow> Message list \<times> string list \<times> MessageRole list \<times> string option \<times> ChatCompletionRequest list" where
  "chat_frame c = (butlast (chat_messages c), map m_key (chat_messages c), map m_from (chat_messages c),
     editingMessageKey c, requests c)"

lemma frame_fields [simp]:
  "chat_frame (c\<lparr>sseSource := a\<rparr>) = chat_frame c"
  "chat_frame (c\<lparr>isStreamComplete := a\<rparr>) = chat_frame c"
  "chat_frame (c\<lparr>toasts := ts\<rparr>) = chat_frame c"
  "chat_frame (closeSource c) = chat_frame c"
  by (simp_all add: chat_frame_def closeSource_def)

lemma frame_update:
  assumes "\<And>m. m_key (f m) = m_key m" "\<And>m. m_from (f m) = m_from m"
  shows "chat_frame (update_last f c) = chat_frame c"
  using update_last_map [of m_key f, OF assms(1)] update_last_map [of m_from f, OF assms(2)]
  by (simp add: chat_frame_def update_last_def onMessageUpdate_def)

lemma frame_handlers [simp]:
  "chat_frame (handleStreamUpdate t ch c) = chat_frame c"
  "chat_frame (handleStreamComplete c) = chat_frame c"
  "chat_frame (handleStreamError e code c) = chat_frame c"
  "chat_frame (handleError e code c) = chat_frame c"
  by (simp_all add: handleStreamUpdate_def handleStreamComplete_def error_update handleError_def frame_update)

lemma frame_event: "chat_frame (handle_event c e) = chat_frame c"
proof -
  have "chat_frame (apply_delta d c) = chat_frame c" for d by (simp add: apply_delta_def Let_def)
  then have "chat_frame (on_message d c) = chat_frame c" for d
    by (simp add: on_message_def split: option.split)
  then show ?thesis
    by (simp add: handle_event_def on_error_def on_readystatechange_def split: sse_event.split option.split)
qed

lemma frame_run: "chat_frame (run_events c es) = chat_frame c"
  by (induction es arbitrary: c) (simp_all add: run_events_def frame_event)

text \<open>C30: Whatever a stream delivers, in whatever order, it touches no message but the last: the
  messages before it, the keys and roles of all, the edited message and the requests sent stay.\<close>

theorem stream_touches_last_only:
  "butlast (chat_messages (run_events c es)) = butlast (chat_messages c) \<and>
   map m_key (chat_messages (run_events c es)) = map m_key (chat_messages c) \<and>
   map m_from (chat_messages (run_events c es)) = map m_from (chat_messages c) \<and>
   editingMessageKey (run_events c es) = editingMessageKey c \<and>
   requests (run_events c es) = requests c"
  using frame_run [of c es] by (simp add: chat_frame_def)

definition awaits_reply :: "Chat \<Rightarrow> bool" where
  "awaits_reply c \<longleftrightarrow> chat_messages c \<noteq> [] \<and> m_from (last (chat_messages c)) = Assistant"

definition settled :: "Chat \<Rightarrow> bool" where
  "settled c \<longleftrightarrow> \<not> sseSource c \<and>
     (m_status (last (chat_messages c)) = Some Complete \<or> m_status (last (chat_messages c)) = Some Error)"

lemma awaits_frame: "chat_frame c = chat_frame c' \<Longrightarrow> awaits_reply c = awaits_reply c'"
proof -
  assume "chat_frame c = chat_frame c'"
  then have m: "map m_from (chat_messages c) = map m_from (chat_messages c')" by (simp add: chat_frame_def)
  then have "chat_messages c = [] \<longleftrightarrow> chat_messages c' = []" by (metis map_is_Nil_conv)
  moreover have "m_from (last (chat_messages c)) = m_from (last (chat_messages c'))"
    if "chat_messages c \<noteq> []" "chat_messages c' \<noteq> []"
    using m that by (metis last_map)
  ultimately show ?thesis by (auto simp: awaits_reply_def)
qed

lemma update_last_last:
  "awaits_reply c \<Longrightarrow> last (chat_messages (update_last f c)) = f (last (chat_messages c))"
proof -
  assume "awaits_reply c"
  then obtain ys y where "chat_messages c = ys @ [y]" "m_from y = Assistant"
    by (cases "chat_messages c" rule: rev_cases) (auto simp: awaits_reply_def)
  then show ?thesis by (simp add: update_last_def onMessageUpdate_def update_last_snoc)
qed

lemma update_last_fields [simp]:
  "sseSource (update_last f c) = sseSource c" "isStreamComplete (update_last f c) = isStreamComplete c"
  by (simp_all add: update_last_def onMessageUpdate_def)

lemma settled_done:
  assumes "awaits_reply c"
  shows "settled (handle_event c (SseMessage DONE))"
proof -
  let ?c = "closeSource (c\<lparr>isStreamComplete := True\<rparr>)"
  have "awaits_reply ?c" using assms by (simp add: awaits_reply_def closeSource_def)
  from update_last_last [OF this, of complete_updater] show ?thesis
    by (simp add: settled_def handle_event_def on_message_def handleStreamComplete_def
        complete_updater_def closeSource_def)
qed

lemma settled_error:
  assumes "awaits_reply c" "settled c"
  shows "settled (handleError e code c)"
proof -
  have "awaits_reply (c\<lparr>toasts := toasts c @ [e]\<rparr>)" using assms(1) by (simp add: awaits_reply_def)
  from update_last_last [OF this, of "error_updater e code"] assms(2) show ?thesis
    by (simp add: handleError_def error_update settled_def closeSource_def error_updater_def)
qed

lemma settled_quiet:
  assumes "awaits_reply c" "settled c" "\<And>d. ev = SseMessage d \<Longrightarrow> d = DONE"
  shows "settled (handle_event c ev)"
proof (cases ev)
  case (SseMessage d)
  with assms(3) settled_done [OF assms(1)] show ?thesis by simp
next
  case (SseError d r)
  with settled_error [OF assms(1,2)] assms(2) show ?thesis by (simp add: handle_event_def on_error_def)
next
  case (SseReadyState r st)
  with settled_error [OF assms(1,2)] assms(2) show ?thesis
    by (simp add: handle_event_def on_readystatechange_def split: option.split)
qed

lemma settled_run:
  "awaits_reply c \<Longrightarrow> settled c \<Longrightarrow> (\<And>d. SseMessage d \<in> set ds \<Longrightarrow> d = DONE) \<Longrightarrow> settled (run_events c ds)"
proof (induction ds arbitrary: c)
  case (Cons e ds)
  have "awaits_reply (handle_event c e)" using Cons.prems(1) awaits_frame [OF frame_event] by simp
  moreover have "settled (handle_event c e)"
    using Cons.prems(1,2) by (rule settled_quiet) (use Cons.prems(3) in auto)
  ultimately show ?case using Cons.IH [of "handle_event c e"] Cons.prems(3) by (simp add: run_events_def)
qed (simp add: run_events_def)

text \<open>C3: A stream settles its reply: when the end marker arrives, after any events whatsoever, and no
  data follows it, the source is released and the reply is complete or has failed, whatever further
  errors and state changes arrive.\<close>

theorem stream_settles:
  assumes "chat_messages c \<noteq> []" "m_from (last (chat_messages c)) = Assistant"
    "\<forall>d. SseMessage d \<in> set ds \<longrightarrow> d = DONE"
  shows "\<not> sseSource (run_events c (es @ SseMessage DONE # ds)) \<and>
    m_status (last (chat_messages (run_events c (es @ SseMessage DONE # ds)))) \<in> {Some Complete, Some Error}"
proof -
  let ?c = "handle_event (run_events c es) (SseMessage DONE)"
  have "awaits_reply c" using assms by (simp add: awaits_reply_def)
  then have a: "awaits_reply (run_events c es)" using awaits_frame [OF frame_run] by blast
  then have "awaits_reply ?c" using awaits_frame [OF frame_event] by blast
  then have "settled (run_events ?c ds)" using settled_done [OF a] assms(3) by (intro settled_run) auto
  moreover have "run_events c (es @ SseMessage DONE # ds) = run_events ?c ds" by (simp add: run_events_def)
  ultimately show ?thesis by (auto simp: settled_def)
qed

subsection \<open>Chunks of content\<close>

text \<open>The event of a content chunk, as the server sends it.\<close>

definition delta_json :: "string \<Rightarrow> jsval" where
  "delta_json t = JObj [(''choices'', JArr [JObj [(''delta'', JObj [(''content'', JStr t)])]])]"

definition delta_event :: "string \<Rightarrow> sse_event" where
  "delta_event t = SseMessage (json_stringify (delta_json t))"

lemma delta_json_read: "json_parse (json_stringify (delta_json t)) = Some (delta_json t)"
  by (rule json_roundtrip) (simp add: delta_json_def wf_obj_def)

lemma delta_not_done: "json_stringify (delta_json t) \<noteq> DONE"
  by (simp add: delta_json_def DONE_def)

lemma delta_event_update:
  "handle_event c (delta_event t) = (if t = [] then c else handleStreamUpdate ContentChunk t c)"
proof -
  have "chunk_delta (delta_json t) = Some (JObj [(''content'', JStr t)])"
    by (simp add: chunk_delta_def delta_json_def nullish_def obj_get_def)
  then show ?thesis
    by (simp add: delta_event_def handle_event_def on_message_def delta_not_done delta_json_read
        apply_delta_def obj_get_def Let_def)
qed

lemma process_content:
  "getCurrentVersion (processStreamingContent m ch) =
     (getCurrentVersion m)\<lparr>v_content := v_content (getCurrentVersion m) @ ch\<rparr>"
  by (simp add: processStreamingContent_def Let_def updateCurrentVersionContent_def getCurrentVersion_def)

lemma run_deltas:
  "chat_messages c = ms @ [m] \<Longrightarrow> m_from m = Assistant \<Longrightarrow>
    m_status m = Some Loading \<or> m_status m = Some Streaming \<Longrightarrow>
    \<exists>m'. chat_messages (run_events c (map delta_event cs)) = ms @ [m'] \<and> m_from m' = Assistant \<and>
      (m_status m' = Some Loading \<or> m_status m' = Some Streaming) \<and>
      v_content (getCurrentVersion m') = v_content (getCurrentVersion m) @ concat cs"
proof (induction cs arbitrary: c m)
  case (Cons t cs)
  show ?case
  proof (cases "t = []")
    case True
    with Cons show ?thesis by (simp add: run_events_def delta_event_update)
  next
    case False
    let ?m = "stream_updater ContentChunk t m"
    have c: "chat_messages (handle_event c (delta_event t)) = ms @ [?m]"
      using Cons.prems False
      by (simp add: delta_event_update handleStreamUpdate_def update_last_def onMessageUpdate_def update_last_snoc)
    have "m_status ?m = Some Streaming"
      "v_content (getCurrentVersion ?m) = v_content (getCurrentVersion m) @ t"
      using Cons.prems(3) process_content [of m t]
      by (auto simp: stream_updater_def getCurrentVersion_def split: list.splits)
    with Cons.IH [OF c] Cons.prems(2) show ?thesis by (simp add: run_events_def)
  qed
qed (simp add: run_events_def)

lemma send_messages:
  "chat_messages (handleSendMessage config enabled True ids txt c) = chat_messages c @
     [createUserMessage (user_key ids) (user_vid ids) txt, createLoadingAssistantMessage (reply_key ids) (reply_vid ids)]"
  by (simp add: handleSendMessage_def Let_def sendChat_def sendStreamRequest_def set_messages_def onMessageUpdate_def)

lemma done_messages:
  "chat_messages c = ms @ [m] \<Longrightarrow> m_from m = Assistant \<Longrightarrow>
    chat_messages (handle_event c (SseMessage DONE)) = ms @ [complete_updater m]"
  by (simp add: handle_event_def on_message_def handleStreamComplete_def closeSource_def update_last_def
      onMessageUpdate_def update_last_snoc)

text \<open>C4: How the server cuts its answer into chunks does not matter for what is shown: after a message
  is sent and the chunks and the end marker arrive, the chat is extended by the question and a
  completed reply whose content is the visible part of the whole answer.\<close>

theorem chunking_irrelevant:
  "\<exists>m. chat_messages (run_events (handleSendMessage config enabled True ids txt c)
          (map delta_event cs @ [SseMessage DONE])) =
      chat_messages c @ [createUserMessage (user_key ids) (user_vid ids) txt, m] \<and>
     m_key m = reply_key ids \<and> m_status m = Some Complete \<and>
     map v_content (m_versions m) = [visibleContent (parseThinkTags (concat cs))]"
proof -
  let ?c = "handleSendMessage config enabled True ids txt c"
  let ?u = "createUserMessage (user_key ids) (user_vid ids) txt"
  let ?l = "createLoadingAssistantMessage (reply_key ids) (reply_vid ids)"
  have "chat_messages ?c = (chat_messages c @ [?u]) @ [?l]" by (simp add: send_messages)
  from run_deltas [OF this, of cs] obtain m where m:
    "chat_messages (run_events ?c (map delta_event cs)) = (chat_messages c @ [?u]) @ [m]"
    "m_from m = Assistant" "m_status m = Some Loading \<or> m_status m = Some Streaming"
    "v_content (getCurrentVersion m) = concat cs"
    by (auto simp: createLoadingAssistantMessage_def getCurrentVersion_def createMessageVersion_def)
  let ?r = "run_events ?c (map delta_event cs @ [SseMessage DONE])"
  have r: "chat_messages ?r = chat_messages c @ [?u, complete_updater m]"
    using done_messages [OF m(1,2)] by (simp add: run_events_def)
  have "map m_key (chat_messages ?r) = map m_key (chat_messages ?c)"
    using frame_run by (simp add: chat_frame_def)
  then have "m_key (complete_updater m) = reply_key ids"
    unfolding r send_messages by (simp add: createLoadingAssistantMessage_def)
  moreover have "m_status (complete_updater m) = Some Complete"
    "map v_content (m_versions (complete_updater m)) = [visibleContent (parseThinkTags (concat cs))]"
    using m(3,4) by (auto simp: complete_updater_def finalizeMessage_def Let_def updateCurrentVersionContent_def)
  ultimately show ?thesis using r by (intro exI [of _ "complete_updater m"] conjI)
qed

subsection \<open>Reasoning kept from a cut tag\<close>

lemma parse_cut_close:
  assumes "p @ q = ''</think>''" "p \<noteq> []" "q \<noteq> []"
  shows "reasoning (parseThinkTags (''<think>'' @ p)) = p"
proof -
  have "\<not> includes_str ''</think>'' p"
  proof
    assume "includes_str ''</think>'' p"
    then have "length ''</think>'' \<le> length p" by (auto simp: includes_iff)
    also have "\<dots> < length (p @ q)" using assms(3) by simp
    finally show False unfolding assms(1) by simp
  qed
  then have wf: "wf_think ([], Thinking [] p)" by (simp add: wf_think_def includes_str_def)
  have "c \<in> set ''</think>''" if "c \<in> set p" for c using that assms(1) by (metis Un_iff set_append)
  then have "trim p = p" by (intro trim_no_space) (auto simp: is_space_def)
  with parse_think_render [OF wf] show ?thesis
    by (simp add: render_think_def render_tail_def think_result_def think_parts_def)
qed

lemma parse_empty_block:
  assumes "\<not> includes_str ''<think>'' v"
  shows "reasoning (parseThinkTags (''<think></think>'' @ v)) = []"
proof -
  have "wf_think ([([], [])], Shown v)" using assms by (simp add: wf_think_def includes_str_def)
  from parse_think_render [OF this] show ?thesis
    by (simp add: render_think_def render_tail_def render_block_def think_result_def think_parts_def)
qed

text \<open>The reasoning of the reply a list of chunks leaves behind.\<close>

definition final_reasoning :: "Chat \<Rightarrow> string list \<Rightarrow> string" where
  "final_reasoning c cs =
     reasoning_text (last (chat_messages (run_events c (map delta_event cs @ [SseMessage DONE]))))"

lemma final_reasoning_updates:
  assumes "chat_messages c = ms @ [m]" "m_from m = Assistant" "[] \<notin> set cs"
  shows "final_reasoning c cs = reasoning_text (complete_updater (foldl (\<lambda>m t. stream_updater ContentChunk t m) m cs))"
  using assms
proof (induction cs arbitrary: c m)
  case Nil
  then show ?case by (simp add: final_reasoning_def run_events_def done_messages)
next
  case (Cons t cs)
  have "chat_messages (handle_event c (delta_event t)) = ms @ [stream_updater ContentChunk t m]"
    using Cons.prems
    by (auto simp: delta_event_update handleStreamUpdate_def update_last_def onMessageUpdate_def update_last_snoc)
  from Cons.IH [OF this] Cons.prems show ?case by (simp add: final_reasoning_def run_events_def)
qed

text \<open>C40: The chunks do matter for the reasoning: an empty think block shows no reasoning when it
  arrives in one chunk, but when the closing tag is cut in two the first piece of the tag stays
  behind as the reasoning of the completed reply.\<close>

theorem cut_tag_becomes_reasoning:
  assumes "p @ q = ''</think>''" "p \<noteq> []" "q \<noteq> []" "\<not> includes_str ''<think>'' v"
  shows "final_reasoning (handleSendMessage config enabled True ids txt c) [''<think>'' @ p, q @ v] = p \<and>
    final_reasoning (handleSendMessage config enabled True ids txt c) [''<think>'' @ p @ q @ v] = []"
proof -
  let ?l = "createLoadingAssistantMessage (reply_key ids) (reply_vid ids)"
  let ?c = "handleSendMessage config enabled True ids txt c"
  have c: "chat_messages ?c =
      (chat_messages c @ [createUserMessage (user_key ids) (user_vid ids) txt]) @ [?l]" "m_from ?l = Assistant"
    by (simp_all add: send_messages createLoadingAssistantMessage_def)
  have full: "p @ q @ v = ''</think>'' @ v" using assms(1) by (metis append.assoc)
  note parse = parse_cut_close [OF assms(1-3)] parse_empty_block [OF assms(4)]
  let ?m = "stream_updater ContentChunk (''<think>'' @ p) ?l"
  have m: "v_content (getCurrentVersion ?m) = ''<think>'' @ p" "reasoning_text ?m = p" "m_status ?m = Some Streaming"
    "m_from ?m = Assistant"
    using assms(2) parse(1)
    by (simp_all add: stream_updater_def createLoadingAssistantMessage_def processStreamingContent_def Let_def
        getCurrentVersion_def updateCurrentVersionContent_def createMessageVersion_def reasoning_text_def)
  let ?n = "stream_updater ContentChunk (q @ v) ?m"
  have n: "reasoning_text ?n = p" "m_status ?n = Some Streaming"
    using m assms(3) parse(2)
    by (simp_all add: full stream_updater_def [of _ "q @ v"] processStreamingContent_def Let_def
        updateCurrentVersionContent_def reasoning_text_def)
  have "reasoning_text (complete_updater ?n) = p"
    using n assms(2) by (simp add: complete_updater_def finalizeMessage_def Let_def or_str_def reasoning_text_def)
  moreover have "reasoning_text (complete_updater (stream_updater ContentChunk (''<think></think>'' @ v) ?l)) = []"
    using parse(2)
    by (simp add: stream_updater_def createLoadingAssistantMessage_def processStreamingContent_def Let_def
        getCurrentVersion_def updateCurrentVersionContent_def createMessageVersion_def reasoning_text_def
        complete_updater_def finalizeMessage_def or_str_def)
  ultimately show ?thesis
    using final_reasoning_updates [OF c, of "[''<think>'' @ p, q @ v]"]
      final_reasoning_updates [OF c, of "[''<think>'' @ p @ q @ v]"] assms(3) by (simp add: full)
qed

subsection \<open>Requests and replies without streaming\<close>

text \<open>Sending a message sends exactly one request, with the valid earlier messages in order and the
  new question last; the placeholder of the reply is not part of it.\<close>

lemma send_requests:
  "requests (handleSendMessage config enabled starts ids txt c) = requests c @
     [\<lparr>req_model = cfg_model config, req_group = cfg_group config,
       req_messages = map formatMessageForAPI (filter isValidMessage (chat_messages c)) @
         [\<lparr>c_role = User, c_content = Text txt\<rparr>],
       req_stream = cfg_stream config, req_parameters = enabled_parameters config enabled\<rparr>]"
proof -
  let ?u = "createUserMessage (user_key ids) (user_vid ids) txt"
  let ?l = "createLoadingAssistantMessage (reply_key ids) (reply_vid ids)"
  have "isValidMessage ?u" "\<not> isValidMessage ?l"
    "formatMessageForAPI ?u = \<lparr>c_role = User, c_content = Text txt\<rparr>"
    by (simp_all add: isValidMessage_def createUserMessage_def createLoadingAssistantMessage_def
        createMessageVersion_def formatMessageForAPI_def getCurrentVersion_def)
  then show ?thesis
    by (simp add: handleSendMessage_def Let_def sendChat_def sendStreamRequest_def set_messages_def
        onMessageUpdate_def buildChatCompletionPayload_def handleStreamError_def closeSource_def)
qed

text \<open>Without streaming, a reply that holds no choice leaves the placeholder loading, while the
  page no longer counts as generating: neither an error nor a way to stop is offered.\<close>

lemma no_choice_stays_loading:
  assumes "\<not> cfg_stream config" "\<not> sseSource c"
  shows "is_stuck (last (chat_messages (on_reply NoChoice (handleSendMessage config enabled starts ids txt c)))) \<and>
    \<not> sseSource (on_reply NoChoice (handleSendMessage config enabled starts ids txt c)) \<and>
    toasts (on_reply NoChoice (handleSendMessage config enabled starts ids txt c)) = toasts c"
  using assms
  by (simp add: on_reply_def handleSendMessage_def Let_def sendChat_def set_messages_def onMessageUpdate_def
      is_stuck_def createLoadingAssistantMessage_def)

lemma find_eq: "find (\<lambda>y. y = x) ys = (if x \<in> set ys then Some x else None)"
  by (induction ys) auto

text \<open>Once the models and groups of the account are known and not empty, the configuration names
  one of each, a valid choice is kept, and the default group is preferred to replace an invalid one.\<close>

theorem config_selects_available:
  assumes "models \<noteq> []" "groups \<noteq> []"
  shows "cfg_model (sync_model models (sync_group groups config)) \<in> set models \<and>
    cfg_group (sync_model models (sync_group groups config)) \<in> set groups \<and>
    (cfg_model config \<in> set models \<longrightarrow> cfg_model (sync_model models (sync_group groups config)) = cfg_model config) \<and>
    (cfg_group config \<in> set groups \<longrightarrow> cfg_group (sync_model models (sync_group groups config)) = cfg_group config) \<and>
    (cfg_group config \<notin> set groups \<longrightarrow> ''default'' \<in> set groups \<longrightarrow>
      cfg_group (sync_model models (sync_group groups config)) = ''default'')"
proof -
  have g: "cfg_group (sync_model models k) = cfg_group k" "cfg_model (sync_group groups k) = cfg_model k" for k
    by (simp_all add: sync_model_def sync_group_def)
  have m: "cfg_model (sync_model models k) = (if cfg_model k \<in> set models then cfg_model k else models ! 0)" for k
    using assms(1) by (auto simp: sync_model_def list_ex_iff)
  have "cfg_group (sync_group groups config) = (if cfg_group config \<in> set groups then cfg_group config
      else if ''default'' \<in> set groups then ''default'' else groups ! 0)"
    using assms(2) by (auto simp: sync_group_def list_ex_iff find_eq)
  with g m assms show ?thesis by simp
qed

subsection \<open>Instances\<close>

definition sample_ids :: Fresh where
  "sample_ids = \<lparr>user_key = ''u'', user_vid = ''1'', reply_key = ''a'', reply_vid = ''2''\<rparr>"

definition sample_chat :: Chat where
  "sample_chat = handleSendMessage DEFAULT_CONFIG DEFAULT_PARAMETER_ENABLED True sample_ids ''hello'' new_chat"

lemma open_empty: "open_page None = new_chat"
  by (simp add: open_page_def loadMessages_def new_chat_def)

lemma sample_reach: "chat_reach DEFAULT_CONFIG DEFAULT_PARAMETER_ENABLED sample_chat"
  unfolding sample_chat_def
  by (intro reach_step [OF reach_new [unfolded open_empty]] step_send)

theorem chat_messages_typed_witness:
  "chat_reach DEFAULT_CONFIG DEFAULT_PARAMETER_ENABLED (open_page (Some (chat_messages sample_chat))) \<and>
   every_message wf_message (open_page (Some (chat_messages sample_chat))) \<and>
   map m_status (chat_messages (open_page (Some (chat_messages sample_chat)))) = [None, Some Error]"
proof -
  have "chat_reach DEFAULT_CONFIG DEFAULT_PARAMETER_ENABLED (open_page (Some (chat_messages sample_chat)))"
    by (rule reach_load [OF sample_reach])
  moreover have "map m_status (chat_messages (open_page (Some (chat_messages sample_chat)))) = [None, Some Error]"
    by code_simp
  ultimately show ?thesis using chat_messages_typed by blast
qed

theorem stream_settles_witness:
  "m_status (last (chat_messages (run_events sample_chat
     ([SseMessage ''garbage''] @ SseMessage DONE # [SseError [] 2])))) \<in> {Some Complete, Some Error}"
  using stream_settles [of sample_chat "[SseError [] 2]" "[SseMessage ''garbage'']"]
  by (simp add: sample_chat_def send_messages createLoadingAssistantMessage_def)

theorem cut_tag_becomes_reasoning_witness:
  "final_reasoning sample_chat [''<think></thi'', ''nk>ok''] = ''</thi'' \<and>
   final_reasoning sample_chat [''<think></think>ok''] = []"
  using cut_tag_becomes_reasoning [of "''</thi''" "''nk>''" "''ok''" DEFAULT_CONFIG
      DEFAULT_PARAMETER_ENABLED sample_ids "''hello''" new_chat]
  by (simp add: sample_chat_def includes_str_def starts_with_def)

end
