(* ===== verification/Log_Pages.thy ===== *)
theory Log_Pages
  imports Js_Json "HOL-Library.AList"
begin

section \<open>Usage logs: cursor pages\<close>

text \<open>
  \<open>web/default/src/features/usage-logs/lib/cursor-pages.ts\<close>: the cache of page cursors of the log table.

  A JavaScript \<open>Map\<close> is an association list in insertion order (\<^const>\<open>AList.update\<close> keeps the place of a
  key it finds and appends otherwise).  Windows are objects with identity: the cache holds addresses
  into a store of windows, and \<open>remember\<close> compares addresses as the code compares references.
  Request parameters are an object; the numbers among them are finite, as their type says.
  \<open>localeCompare\<close> is a parameter.
\<close>

subsection \<open>Bounded maps\<close>

definition evict :: "nat \<Rightarrow> ('k \<times> 'v) list \<Rightarrow> ('k \<times> 'v) list" where
  "evict limit m =
     (if limit \<le> length m then case m of [] \<Rightarrow> m | (oldest, _) # _ \<Rightarrow> AList.delete oldest m else m)"

definition put :: "nat \<Rightarrow> 'k \<Rightarrow> 'v \<Rightarrow> ('k \<times> 'v) list \<Rightarrow> ('k \<times> 'v) list" where
  "put limit k v m = AList.update k v (evict limit m)"

subsection \<open>The cache\<close>

record CursorWindow =
  cursors :: "(rat \<times> rat) list"
  win_start :: rat
  win_end :: rat
  expires :: rat

record LogCursorPages =
  windows :: "(string \<times> nat) list"
  store :: "CursorWindow list"

record PageRequest =
  rq_key :: string
  rq_window :: nat
  rq_page :: rat
  rq_params :: "jsval jsobj"

text \<open>The value \<open>v || d\<close> of an optional number.\<close>

definition num_or :: "jsval \<Rightarrow> rat \<Rightarrow> rat" where
  "num_or v d = (case v of JNum (Fin q) \<Rightarrow> if q = 0 then d else q | _ \<Rightarrow> d)"

definition key_filters :: "(string \<Rightarrow> string \<Rightarrow> int) \<Rightarrow> jsval jsobj \<Rightarrow> (string \<times> jsval) list" where
  "key_filters localeCompare params =
     sort_by (\<lambda>(a, _) (b, _). localeCompare a b \<le> 0)
       (filter (\<lambda>(_, v). v \<noteq> JUndef) (filter (\<lambda>(k, _). k \<notin> {''p'', ''before_id''}) params))"

definition page_key :: "(string \<Rightarrow> string \<Rightarrow> int) \<Rightarrow> rat \<Rightarrow> jsval jsobj \<Rightarrow> string" where
  "page_key localeCompare identity params =
     json_stringify (JArr [JNum (Fin identity), JNum (Fin (num_or (obj_get params ''page_size'') 20)),
       JArr (map (\<lambda>(k, v). JArr [JStr k, v]) (key_filters localeCompare params))])"

definition new_window :: "jsval jsobj \<Rightarrow> rat \<Rightarrow> CursorWindow" where
  "new_window params now =
     (let end_ts = num_or (obj_get params ''end_timestamp'') (rat_of_int \<lfloor>now / 1000\<rfloor>) in
      \<lparr>cursors = [],
       win_start = num_or (obj_get params ''start_timestamp'') (end_ts - 45 * 86400),
       win_end = end_ts,
       expires = now + 30 * 60 * 1000\<rparr>)"

text \<open>The window of a request and the cache that holds it.\<close>

definition open_window ::
  "string \<Rightarrow> rat \<Rightarrow> jsval jsobj \<Rightarrow> rat \<Rightarrow> LogCursorPages \<Rightarrow> nat \<times> LogCursorPages" where
  "open_window key page params now pages =
     (case map_of (windows pages) key of
        Some w \<Rightarrow>
          if expires (store pages ! w) \<le> now \<or> page = 1
          then (length (store pages),
                \<lparr>windows = put 64 key (length (store pages)) (windows pages),
                 store = store pages @ [new_window params now]\<rparr>)
          else (w, pages)
      | None \<Rightarrow>
          (length (store pages),
           \<lparr>windows = put 64 key (length (store pages)) (windows pages),
            store = store pages @ [new_window params now]\<rparr>))"

definition request_params :: "jsval jsobj \<Rightarrow> rat \<Rightarrow> rat \<Rightarrow> CursorWindow \<Rightarrow> jsval jsobj" where
  "request_params params page pageSize window =
     (let before = obj_get params ''before_id'';
          cursor = (case map_of (cursors window) page of None \<Rightarrow> JUndef | Some n \<Rightarrow> JNum (Fin n))
      in obj_set ''before_id'' (if nullish before then cursor else before)
           (obj_set ''end_timestamp'' (JNum (Fin (win_end window)))
             (obj_set ''start_timestamp'' (JNum (Fin (win_start window)))
               (obj_set ''page_size'' (JNum (Fin pageSize))
                 (obj_set ''p'' (JNum (Fin page)) params)))))"

definition prepare ::
  "(string \<Rightarrow> string \<Rightarrow> int) \<Rightarrow> rat \<Rightarrow> jsval jsobj \<Rightarrow> rat \<Rightarrow> LogCursorPages \<Rightarrow> PageRequest \<times> LogCursorPages" where
  "prepare localeCompare identity params now pages =
     (let page = num_or (obj_get params ''p'') 1;
          pageSize = num_or (obj_get params ''page_size'') 20;
          key = page_key localeCompare identity params;
          (w, pages') = open_window key page params now pages
      in (\<lparr>rq_key = key, rq_window = w, rq_page = page,
           rq_params = request_params params page pageSize (store pages' ! w)\<rparr>, pages'))"

definition remember :: "PageRequest \<Rightarrow> rat \<Rightarrow> LogCursorPages \<Rightarrow> LogCursorPages" where
  "remember request nextCursor pages =
     (if map_of (windows pages) (rq_key request) \<noteq> Some (rq_window request) \<or> nextCursor \<le> 0 then pages
      else let w = rq_window request; window = store pages ! w
           in pages\<lparr>store := (store pages)
                [w := window\<lparr>cursors := put 2048 (rq_page request + 1) nextCursor (cursors window)\<rparr>]\<rparr>)"

definition no_pages :: LogCursorPages where
  "no_pages = \<lparr>windows = [], store = []\<rparr>"

inductive pages_step :: "(string \<Rightarrow> string \<Rightarrow> int) \<Rightarrow> LogCursorPages \<Rightarrow> LogCursorPages \<Rightarrow> bool"
  for localeCompare where
  step_prepare: "pages_step localeCompare pages (snd (prepare localeCompare identity params now pages))"
| step_remember: "pages_step localeCompare pages (remember request nextCursor pages)"

subsection \<open>Its bounded maps meet their contract\<close>

lemma evict_map_of: "map_of (evict n m) k = Some v \<Longrightarrow> map_of m k = Some v"
  by (auto simp: evict_def delete_conv split: if_splits list.splits)

lemma length_delete_head: "m \<noteq> [] \<Longrightarrow> length (AList.delete (fst (hd m)) m) < length m"
  by (cases m) (auto simp: AList.delete_eq le_imp_less_Suc)

lemma length_update: "length (AList.update k v m) \<le> Suc (length m)"
  by (induction m) auto

lemma length_evict: "0 < n \<Longrightarrow> length m \<le> n \<Longrightarrow> length (evict n m) < n"
  using length_delete_head [of m] by (auto simp: evict_def split: list.split)

lemma put_bounded_map: "0 < n \<Longrightarrow> bounded_map (put n) n"
proof
  fix m :: "('k \<times> 'v) list" and k k' :: 'k and u v :: 'v
  assume n: "0 < n"
  show "length (put n k v m) \<le> n" if "length m \<le> n"
    using length_update [of k v "evict n m"] length_evict [OF n that] by (simp add: put_def)
  show "distinct (map fst (put n k v m))" if "distinct (map fst m)"
  proof -
    have "evict n m = m \<or> (\<exists>x. evict n m = AList.delete x m)"
      by (auto simp: evict_def simp del: AList.delete_simps split: list.split)
    with that have "distinct (map fst (evict n m))" using distinct_delete by fastforce
    then show ?thesis by (simp add: put_def distinct_update)
  qed
  show "map_of (put n k v m) k = Some v" by (simp add: put_def update_conv')
  show "map_of m k' = Some u" if "k' \<noteq> k" "map_of (put n k v m) k' = Some u"
    using that by (auto simp: put_def update_conv' intro: evict_map_of)
qed

interpretation window_map: bounded_map "put 64 :: string \<Rightarrow> nat \<Rightarrow> (string \<times> nat) list \<Rightarrow> (string \<times> nat) list" 64
  by (rule put_bounded_map) simp

interpretation cursor_map: bounded_map "put 2048 :: rat \<Rightarrow> rat \<Rightarrow> (rat \<times> rat) list \<Rightarrow> (rat \<times> rat) list" 2048
  by (rule put_bounded_map) simp

subsection \<open>Invariant of the cache\<close>

definition wf_pages :: "LogCursorPages \<Rightarrow> bool" where
  "wf_pages pages \<longleftrightarrow> length (windows pages) \<le> 64 \<and> distinct (map fst (windows pages)) \<and>
     (\<forall>key w. map_of (windows pages) key = Some w \<longrightarrow> w < length (store pages)) \<and>
     (\<forall>window \<in> set (store pages). length (cursors window) \<le> 2048)"

lemma wf_no_pages: "wf_pages no_pages"
  by (simp add: wf_pages_def no_pages_def)

lemma wf_add_window:
  assumes "wf_pages pages"
  shows "wf_pages \<lparr>windows = put 64 key (length (store pages)) (windows pages),
    store = store pages @ [new_window params now]\<rparr>"
proof -
  have "w < Suc (length (store pages))"
    if "map_of (put 64 key (length (store pages)) (windows pages)) k = Some w" for k w
    using window_map.values_from [OF that] assms by (auto simp: wf_pages_def intro: less_SucI)
  moreover have "cursors (new_window params now) = []" by (simp add: new_window_def Let_def)
  ultimately show ?thesis
    using assms by (simp add: wf_pages_def window_map.size_bound window_map.keys_distinct)
qed

lemma wf_open_window: "wf_pages pages \<Longrightarrow> wf_pages (snd (open_window key page params now pages))"
  by (simp add: open_window_def wf_add_window split: option.split)

lemma snd_prepare:
  "snd (prepare lc i params now pages) =
     snd (open_window (page_key lc i params) (num_or (obj_get params ''p'') 1) params now pages)"
  by (simp add: prepare_def Let_def split: prod.split)

lemma prepare_request:
  "rq_key (fst (prepare lc i params now pages)) = page_key lc i params"
  "rq_page (fst (prepare lc i params now pages)) = num_or (obj_get params ''p'') 1"
  "rq_window (fst (prepare lc i params now pages)) =
     fst (open_window (page_key lc i params) (num_or (obj_get params ''p'') 1) params now pages)"
  by (simp_all add: prepare_def Let_def split: prod.split)

lemma wf_remember: "wf_pages pages \<Longrightarrow> wf_pages (remember request n pages)"
proof (cases "map_of (windows pages) (rq_key request) \<noteq> Some (rq_window request) \<or> n \<le> 0")
  case False
  assume wf: "wf_pages pages"
  with False have w: "rq_window request < length (store pages)" by (auto simp: wf_pages_def)
  let ?win = "store pages ! rq_window request"
  have "length (cursors ?win) \<le> 2048" using wf w by (auto simp: wf_pages_def)
  then have "length (put 2048 (rq_page request + 1) n (cursors ?win)) \<le> 2048" by (rule cursor_map.size_bound)
  then show ?thesis using wf False unfolding remember_def wf_pages_def Let_def
    by (auto dest!: set_update_subset_insert [THEN subsetD])
qed (simp add: remember_def)

lemma wf_step: "pages_step lc pages pages' \<Longrightarrow> wf_pages pages \<Longrightarrow> wf_pages pages'"
  by (erule pages_step.cases) (simp_all add: snd_prepare wf_open_window wf_remember)

lemma wf_steps: "(pages_step lc)\<^sup>*\<^sup>* pages pages' \<Longrightarrow> wf_pages pages \<Longrightarrow> wf_pages pages'"
  by (induction rule: rtranclp_induct) (auto intro: wf_step)

lemma store_grows: "pages_step lc pages pages' \<Longrightarrow> length (store pages) \<le> length (store pages')"
  by (erule pages_step.cases)
    (auto simp: snd_prepare open_window_def remember_def Let_def split: option.split)

lemma store_grows_steps: "(pages_step lc)\<^sup>*\<^sup>* pages pages' \<Longrightarrow> length (store pages) \<le> length (store pages')"
  by (induction rule: rtranclp_induct) (auto dest: store_grows)

text \<open>C26: However many filters are opened and however many pages are read, the cache holds at most 64
  windows, each with at most 2048 cursors, and every cached key leads to a window of the store.\<close>

theorem log_pages_bounded:
  assumes "(pages_step lc)\<^sup>*\<^sup>* no_pages pages"
  shows "length (windows pages) \<le> 64 \<and> (\<forall>window \<in> set (store pages). length (cursors window) \<le> 2048) \<and>
    (\<forall>key w. map_of (windows pages) key = Some w \<longrightarrow> w < length (store pages))"
  using wf_steps [OF assms wf_no_pages] by (simp add: wf_pages_def)

subsection \<open>Late responses\<close>

lemma request_window_bound:
  "wf_pages pages \<Longrightarrow>
    rq_window (fst (prepare lc i params now pages)) < length (store (snd (prepare lc i params now pages)))"
  by (auto simp: prepare_request snd_prepare open_window_def wf_pages_def split: option.split)

lemma page_one_window:
  "num_or (obj_get params ''p'') 1 = 1 \<Longrightarrow>
    map_of (windows (snd (prepare lc i params now pages))) (page_key lc i params) = Some (length (store pages))"
  by (simp add: snd_prepare open_window_def window_map.get_set split: option.split)

text \<open>C19: A response that arrives after its first page was requested again is dropped: for a request
  issued in any reachable cache, after any further steps and a new request for page one with the same
  key, remembering the cursor of the old response changes nothing.\<close>

theorem late_response_ignored:
  assumes "(pages_step lc)\<^sup>*\<^sup>* no_pages pages"
    "(pages_step lc)\<^sup>*\<^sup>* (snd (prepare lc i params now pages)) pages'"
    "page_key lc i' params' = page_key lc i params" "num_or (obj_get params' ''p'') 1 = 1"
  shows "remember (fst (prepare lc i params now pages)) n (snd (prepare lc i' params' now' pages')) =
    snd (prepare lc i' params' now' pages')"
proof -
  have "wf_pages pages" by (rule wf_steps [OF assms(1) wf_no_pages])
  from request_window_bound [OF this] store_grows_steps [OF assms(2)]
  have "rq_window (fst (prepare lc i params now pages)) < length (store pages')"
    by (meson less_le_trans)
  moreover have "map_of (windows (snd (prepare lc i' params' now' pages')))
      (rq_key (fst (prepare lc i params now pages))) = Some (length (store pages'))"
    using page_one_window [OF assms(4), of lc i' now' pages'] assms(3) by (simp add: prepare_request)
  ultimately show ?thesis by (simp add: remember_def)
qed

subsection \<open>Keys of different requests\<close>

text \<open>Requests whose parameters are undefined, null, flags, strings or integers.\<close>

definition plain_request :: "rat \<Rightarrow> jsval jsobj \<Rightarrow> bool" where
  "plain_request identity params \<longleftrightarrow> json_int (Fin identity) \<and> distinct (map fst params) \<and>
     (\<forall>(k, v) \<in> set params. v = JUndef \<or> json_ok v)"

lemma json_int_20: "json_int (Fin 20)"
  unfolding json_int_def by (rule exI [of _ 20]) simp

lemma plain_size: "plain_request i params \<Longrightarrow> json_int (Fin (num_or (obj_get params k) 20))"
proof (cases "obj_get params k")
  case (JNum n)
  assume p: "plain_request i params"
  from JNum have "(k, JNum n) \<in> set params"
    by (auto simp: obj_get_def dest: map_of_SomeD split: option.splits)
  with p have "json_int n" by (auto simp: plain_request_def)
  with JNum show ?thesis by (cases n) (auto simp: num_or_def json_int_20)
qed (simp_all add: num_or_def json_int_20)

lemma key_filters_mem:
  assumes "distinct (map fst params)" "v \<noteq> JUndef"
  shows "(k, v) \<in> set (key_filters lc params) \<longleftrightarrow> k \<notin> {''p'', ''before_id''} \<and> obj_get params k = v"
proof -
  have "(k, v) \<in> set params \<longleftrightarrow> map_of params k = Some v"
    using assms(1) by (metis map_of_eq_Some_iff)
  also have "\<dots> \<longleftrightarrow> obj_get params k = v"
    using assms(2) by (auto simp: obj_get_def split: option.splits)
  finally show ?thesis using assms(2) by (auto simp: key_filters_def)
qed

definition key_value :: "(string \<Rightarrow> string \<Rightarrow> int) \<Rightarrow> rat \<Rightarrow> jsval jsobj \<Rightarrow> jsval" where
  "key_value lc identity params =
     JArr [JNum (Fin identity), JNum (Fin (num_or (obj_get params ''page_size'') 20)),
       JArr (map (\<lambda>(k, v). JArr [JStr k, v]) (key_filters lc params))]"

lemma key_value_ok: "plain_request i params \<Longrightarrow> json_ok (key_value lc i params)"
  using plain_size [of i params "''page_size''"]
  by (auto simp: key_value_def plain_request_def key_filters_def list_all_iff)

lemma pairs_inject:
  "map (\<lambda>(k, v). JArr [JStr k, v]) xs = map (\<lambda>(k, v). JArr [JStr k, v]) ys \<Longrightarrow> xs = ys"
  by (rule map_injective) (auto simp: inj_def)

text \<open>C20: Requests share a window of cursors only when they agree in the user, in the page size and in
  every filter: equal cache keys come from equal identities and equal parameters, up to the page and
  the cursor.\<close>

theorem cursor_keys_separate:
  assumes "plain_request i params" "plain_request i' params'"
    "page_key lc i params = page_key lc i' params'"
  shows "i = i' \<and>
    num_or (obj_get params ''page_size'') 20 = num_or (obj_get params' ''page_size'') 20 \<and>
    (\<forall>k. k \<notin> {''p'', ''before_id''} \<longrightarrow> obj_get params k = obj_get params' k)"
proof -
  have "key_value lc i params = key_value lc i' params'"
    using assms json.enc_inject [OF key_value_ok key_value_ok, of i params i' params' lc lc]
    by (simp add: page_key_def key_value_def)
  then have eq: "i = i'" "num_or (obj_get params ''page_size'') 20 = num_or (obj_get params' ''page_size'') 20"
    "key_filters lc params = key_filters lc params'"
    by (auto simp: key_value_def dest: pairs_inject)
  have "obj_get params k = obj_get params' k" if k: "k \<notin> {''p'', ''before_id''}" for k
  proof (cases "obj_get params k = JUndef")
    case True
    then show ?thesis
      using key_filters_mem [of params "obj_get params' k" k lc] key_filters_mem [of params' "obj_get params' k" k lc]
        assms(1,2) k eq(3) by (metis plain_request_def)
  next
    case False
    then show ?thesis
      using key_filters_mem [of params "obj_get params k" k lc] key_filters_mem [of params' "obj_get params k" k lc]
        assms(1,2) k eq(3) by (metis plain_request_def)
  qed
  with eq show ?thesis by blast
qed

subsection \<open>The next page\<close>

lemma filter_obj_set:
  "k \<in> S \<Longrightarrow> filter (\<lambda>(k', _). k' \<notin> S) (obj_set k v ob) = filter (\<lambda>(k', _). k' \<notin> S) ob"
  by (induction k v ob rule: obj_set.induct) auto

lemma page_key_page: "page_key lc i (obj_set ''p'' v params) = page_key lc i params"
proof -
  have "key_filters lc (obj_set ''p'' v params) = key_filters lc params"
    unfolding key_filters_def by (subst filter_obj_set) simp_all
  then show ?thesis by (simp add: page_key_def)
qed

lemma open_window_cached:
  "map_of (windows (snd (open_window key page params now pages))) key =
     Some (fst (open_window key page params now pages))"
  by (simp add: open_window_def window_map.get_set split: option.split)

text \<open>Paging forward follows the cursor: after a page was read and the cursor of its response
  remembered, the request for the next page under the same filters, before the window expires,
  starts at that cursor, within the same time range, and leaves the cache as it is.\<close>

lemma next_page_follows_cursor:
  assumes "wf_pages pages" "0 < n" "0 < page" "nullish (obj_get params ''before_id'')"
    and r_def: "r = prepare lc i (obj_set ''p'' (JNum (Fin page)) params) now pages"
    and r'_def: "r' = prepare lc i (obj_set ''p'' (JNum (Fin (page + 1))) params) now'
      (remember (fst r) n (snd r))"
    and alive: "now' < expires (store (snd r) ! rq_window (fst r))"
  shows "obj_get (rq_params (fst r')) ''before_id'' = JNum (Fin n) \<and>
    obj_get (rq_params (fst r')) ''start_timestamp'' = obj_get (rq_params (fst r)) ''start_timestamp'' \<and>
    obj_get (rq_params (fst r')) ''end_timestamp'' = obj_get (rq_params (fst r)) ''end_timestamp'' \<and>
    snd r' = remember (fst r) n (snd r)"
proof -
  let ?key = "page_key lc i params"
  let ?p1 = "snd r" and ?w = "rq_window (fst r)"
  let ?win = "store ?p1 ! ?w"
  let ?new = "?win\<lparr>cursors := put 2048 (page + 1) n (cursors ?win)\<rparr>"
  have page: "rq_page (fst r) = page" "rq_key (fst r) = ?key"
    using assms(3) by (simp_all add: r_def prepare_request page_key_page num_or_def)
  have cached: "map_of (windows ?p1) ?key = Some ?w"
    using open_window_cached by (simp add: r_def snd_prepare prepare_request page_key_page)
  have w: "?w < length (store ?p1)" using request_window_bound [OF assms(1)] by (simp add: r_def)
  let ?p2 = "remember (fst r) n ?p1"
  have p2: "?p2 = ?p1\<lparr>store := (store ?p1)[?w := ?new]\<rparr>"
    using cached assms(2) page by (simp add: remember_def Let_def)
  have ow: "open_window ?key (page + 1) (obj_set ''p'' (JNum (Fin (page + 1))) params) now' ?p2 = (?w, ?p2)"
    using cached assms(3) alive w by (simp add: p2 open_window_def)
  have win: "store ?p2 ! ?w = ?new" using w by (simp add: p2)
  have num: "num_or (JNum (Fin (page + 1))) 1 = page + 1" using assms(3) by (simp add: num_or_def)
  have r': "r' = (\<lparr>rq_key = ?key, rq_window = ?w, rq_page = page + 1,
      rq_params = request_params (obj_set ''p'' (JNum (Fin (page + 1))) params) (page + 1)
        (num_or (obj_get params ''page_size'') 20) ?new\<rparr>, ?p2)"
    unfolding r'_def prepare_def by (simp add: Let_def page_key_page num ow win)
  have ts: "obj_get (rq_params (fst r)) ''start_timestamp'' = JNum (Fin (win_start ?win))"
    "obj_get (rq_params (fst r)) ''end_timestamp'' = JNum (Fin (win_end ?win))"
    by (simp_all add: r_def prepare_def Let_def request_params_def split: prod.split)
  show ?thesis using assms(4) ts
    by (simp add: r' request_params_def Let_def cursor_map.get_set)
qed

subsection \<open>Instances\<close>

definition code_unit_order :: "string \<Rightarrow> string \<Rightarrow> int" where
  "code_unit_order a b = (if a = b then 0 else if lexordp (\<lambda>c d. (of_char c :: nat) < of_char d) a b then - 1 else 1)"

definition sample_params :: "jsval jsobj" where
  "sample_params = [(''type'', JNum (Fin 2))]"

definition sample_pages :: LogCursorPages where
  "sample_pages = snd (prepare code_unit_order 7 sample_params 5000 no_pages)"

lemma sample_steps: "(pages_step code_unit_order)\<^sup>*\<^sup>* no_pages sample_pages"
  unfolding sample_pages_def by (rule r_into_rtranclp) (rule step_prepare)

theorem log_pages_bounded_witness:
  "(pages_step code_unit_order)\<^sup>*\<^sup>* no_pages sample_pages \<and> length (windows sample_pages) \<le> 64"
  using sample_steps log_pages_bounded [OF sample_steps] by simp

theorem late_response_ignored_witness:
  "remember (fst (prepare code_unit_order 7 sample_params 5000 no_pages)) 99
     (snd (prepare code_unit_order 7 sample_params 6000 sample_pages)) =
   snd (prepare code_unit_order 7 sample_params 6000 sample_pages)"
  by (rule late_response_ignored [of code_unit_order no_pages])
    (simp_all add: sample_pages_def sample_params_def num_or_def obj_get_def)

lemma plain_sample: "plain_request 7 sample_params" "plain_request 8 sample_params"
proof -
  have "json_int (Fin (rat_of_int i))" if "\<bar>i\<bar> < 10 ^ 21" for i
    using that by (auto simp: json_int_def)
  from this [of 7] this [of 8] this [of 2]
  show "plain_request 7 sample_params" "plain_request 8 sample_params"
    by (simp_all add: plain_request_def sample_params_def)
qed

theorem cursor_keys_separate_witness:
  "page_key code_unit_order 7 sample_params \<noteq> page_key code_unit_order 8 sample_params"
proof
  assume "page_key code_unit_order 7 sample_params = page_key code_unit_order 8 sample_params"
  from cursor_keys_separate [OF plain_sample this] show False by simp
qed

end
