(* ===== verification/Usage_Logs.thy ===== *)
theory Usage_Logs
  imports Billing_Expr
begin

section \<open>Usage logs: requests and billing summaries\<close>

text \<open>
  \<^item> \<open>web/default/src/features/usage-logs/lib/utils.ts\<close>: the parameters of a log request and the endpoint it
    goes to, from the access scope, the search parameters and the column filters.
  \<^item> \<open>web/default/src/features/usage-logs/lib/filter.ts\<close>: search parameters from the filter dialog.
  \<^item> \<open>web/default/src/features/usage-logs/lib/format.ts\<close>: audit lines, durations, colours, the tier a log
    entry was billed by.

  Search parameters and results are JavaScript objects.  The default time range (today until one
  hour from now), the clock and the browser's base64 and text decoders are arguments.
\<close>

subsection \<open>Log types\<close>

definition LOG_TYPES :: "(nat \<times> string \<times> string) list" where
  "LOG_TYPES =
     [(0, ''Unknown'', ''default''), (1, ''Top-up'', ''cyan''), (2, ''Consume'', ''green''),
      (3, ''Manage'', ''orange''), (4, ''System'', ''purple''), (5, ''Error'', ''red''),
      (6, ''Refund'', ''blue'')]"

definition getLogTypeConfig :: "nat \<Rightarrow> nat \<times> string \<times> string" where
  "getLogTypeConfig type =
     (case find (\<lambda>t. fst t = type) LOG_TYPES of Some t \<Rightarrow> t | None \<Rightarrow> LOG_TYPES ! 0)"

definition isPerCallBilling :: "rat option \<Rightarrow> bool" where
  "isPerCallBilling modelPrice \<longleftrightarrow> (case modelPrice of None \<Rightarrow> 0 | Some p \<Rightarrow> p) > 0"

subsection \<open>Query parameters\<close>

definition timestampToSeconds :: "jsval \<Rightarrow> jsval" where
  "timestampToSeconds ms = (case to_number ms of
       Fin q \<Rightarrow> JNum (Fin (rat_of_int \<lfloor>q / 1000\<rfloor>))
     | n \<Rightarrow> JNum n)"

definition empty_param :: "jsval \<Rightarrow> bool" where
  "empty_param v \<longleftrightarrow> v = JUndef \<or> v = JNull \<or> v = JStr []"

definition buildQueryParams :: "jsval jsobj \<Rightarrow> (string \<times> string) list" where
  "buildQueryParams params =
     map (\<lambda>(k, v). (k, to_str v)) (filter (\<lambda>(k, v). \<not> empty_param v) params)"

definition getTimestamp :: "bool \<Rightarrow> jsval \<Rightarrow> jsval \<Rightarrow> jsval" where
  "getTimestamp useMilliseconds paramTime defaultTime =
     (let time = (if truthy paramTime then paramTime else defaultTime) in
      if truthy time then (if useMilliseconds then time else timestampToSeconds time) else JUndef)"

definition buildTimeRangeParams :: "jsval \<times> jsval \<Rightarrow> jsval jsobj \<Rightarrow> bool \<Rightarrow> (string \<times> jsval) list" where
  "buildTimeRangeParams defaultRange searchParams useMilliseconds =
     (let startTime = obj_get searchParams ''startTime'';
          endTime = obj_get searchParams ''endTime'';
          hasTimeParams = (if nullish startTime then endTime else startTime);
          defaults = (if truthy hasTimeParams then (JUndef, JUndef) else defaultRange)
      in [(''start_timestamp'', getTimestamp useMilliseconds startTime (fst defaults)),
          (''end_timestamp'', getTimestamp useMilliseconds endTime (snd defaults))])"

text \<open>An entry of an object literal that is spread only under a condition.\<close>

definition only_if :: "bool \<Rightarrow> string \<Rightarrow> jsval \<Rightarrow> (string \<times> jsval) list" where
  "only_if b k v = (if b then [(k, v)] else [])"

definition buildBaseParams ::
  "jsval \<times> jsval \<Rightarrow> rat \<Rightarrow> rat \<Rightarrow> jsval jsobj \<Rightarrow> bool \<Rightarrow> jsval jsobj" where
  "buildBaseParams defaultRange page pageSize searchParams useMilliseconds =
     obj_of ([(''p'', JNum (Fin page)), (''page_size'', JNum (Fin pageSize))] @
       only_if (truthy (obj_get searchParams ''channel'')) ''channel_id''
         (JStr (to_str (obj_get searchParams ''channel''))) @
       buildTimeRangeParams defaultRange searchParams useMilliseconds)"

definition exclude_fields :: "string list" where
  "exclude_fields = [''model_name'', ''token_name'', ''group'', ''username'']"

fun valid_exclude :: "jsval \<Rightarrow> bool" where
  "valid_exclude (JObj ob) =
     (case (obj_get ob ''field'', obj_get ob ''value'') of
        (JStr field, JStr v) \<Rightarrow> field \<in> set exclude_fields \<and> trim v \<noteq> []
      | _ \<Rightarrow> False)"
| "valid_exclude _ = False"

fun exclude_object :: "jsval \<Rightarrow> jsval" where
  "exclude_object item =
     (case get_prop item ''value'' of
        JStr v \<Rightarrow> JObj [(''field'', get_prop item ''field''), (''value'', JStr (trim v))]
      | _ \<Rightarrow> JUndef)"

definition serializeExcludeFilters :: "jsval jsobj \<Rightarrow> string option" where
  "serializeExcludeFilters searchParams = (case obj_get searchParams ''excludeFilters'' of
       JArr raw \<Rightarrow>
         (let valid = filter valid_exclude raw in
          if raw = [] \<or> valid = [] then None
          else Some (json_stringify (JArr (map exclude_object valid))))
     | _ \<Rightarrow> None)"

definition processType :: "jsval \<Rightarrow> jsval" where
  "processType v = (case v of JArr [x] \<Rightarrow> JNum (to_number x) | _ \<Rightarrow> JUndef)"

text \<open>The value \<open>Number(v) || 0\<close>.\<close>

definition number_or_0 :: "jsval \<Rightarrow> jsval" where
  "number_or_0 v = JNum (if num_truthy (to_number v) then to_number v else Fin 0)"

definition base_api_params ::
  "jsval \<times> jsval \<Rightarrow> rat \<Rightarrow> rat \<Rightarrow> jsval jsobj \<Rightarrow> bool \<Rightarrow> jsval jsobj" where
  "base_api_params defaultRange page pageSize sp isAdmin =
     (let get = obj_get sp; str = (\<lambda>k. JStr (to_str (obj_get sp k))) in
      obj_of ([(''p'', JNum (Fin page)), (''page_size'', JNum (Fin pageSize))] @
        only_if (truthy (get ''type'')) ''type'' (processType (get ''type'')) @
        only_if (truthy (get ''model'')) ''model_name'' (str ''model'') @
        only_if (truthy (get ''token'')) ''token_name'' (str ''token'') @
        only_if (truthy (get ''group'')) ''group'' (str ''group'') @
        only_if (isAdmin \<and> truthy (get ''channel'')) ''channel'' (number_or_0 (get ''channel'')) @
        only_if (isAdmin \<and> truthy (get ''username'')) ''username'' (str ''username'') @
        only_if (truthy (get ''requestId'')) ''request_id'' (str ''requestId'') @
        only_if (truthy (get ''upstreamRequestId'')) ''upstream_request_id'' (str ''upstreamRequestId'') @
        only_if (truthy (get ''account'')) ''account'' (str ''account'') @
        only_if (truthy (get ''billingMode'')) ''billing_mode'' (str ''billingMode'') @
        only_if (\<not> nullish (get ''billingType'')) ''billing_type'' (JNum (to_number (get ''billingType''))) @
        only_if (\<not> nullish (get ''stream'')) ''stream''
          (JBool (get ''stream'' = JBool True \<or> get ''stream'' = JStr ''true'')) @
        (case serializeExcludeFilters sp of
           Some s \<Rightarrow> only_if (s \<noteq> []) ''exclude_filters'' (JStr s) | None \<Rightarrow> []) @
        buildTimeRangeParams defaultRange sp False))"

definition apply_column_filter :: "bool \<Rightarrow> jsval jsobj \<Rightarrow> string \<times> jsval \<Rightarrow> jsval jsobj" where
  "apply_column_filter isAdmin params = (\<lambda>(id, v).
     if empty_param v then params
     else if id = ''type'' then obj_set ''type'' (processType v) params
     else if id = ''model_name'' then obj_set ''model_name'' (JStr (to_str v)) params
     else if id = ''token_name'' then obj_set ''token_name'' (JStr (to_str v)) params
     else if id = ''group'' then obj_set ''group'' (JStr (to_str v)) params
     else if id = ''channel'' then (if isAdmin then obj_set ''channel'' (number_or_0 v) params else params)
     else if id = ''username'' then (if isAdmin then obj_set ''username'' (JStr (to_str v)) params else params)
     else params)"

definition buildApiParams ::
  "jsval \<times> jsval \<Rightarrow> rat \<Rightarrow> rat \<Rightarrow> jsval jsobj \<Rightarrow> (string \<times> jsval) list \<Rightarrow> bool \<Rightarrow> jsval jsobj" where
  "buildApiParams defaultRange page pageSize searchParams columnFilters isAdmin =
     foldl (apply_column_filter isAdmin)
       (base_api_params defaultRange page pageSize searchParams isAdmin) columnFilters"

datatype log_category = CommonLogs | DrawingLogs | TaskLogs

datatype access_scope = AdminScope | AgentScope | UserScope

datatype log_endpoint =
    AllLogs | AgentLogs | UserLogs | AllMidjourneyLogs | UserMidjourneyLogs | AllTaskLogs | UserTaskLogs

definition fetchLogsByCategory ::
  "jsval \<times> jsval \<Rightarrow> log_category \<Rightarrow> access_scope \<Rightarrow> rat \<Rightarrow> rat \<Rightarrow> jsval jsobj \<Rightarrow>
   (string \<times> jsval) list \<Rightarrow> log_endpoint \<times> jsval jsobj" where
  "fetchLogsByCategory defaultRange logCategory accessScope page pageSize searchParams columnFilters =
     (let isManagedScope = (accessScope = AdminScope \<or> accessScope = AgentScope) in
      if logCategory = CommonLogs then
        (case accessScope of AdminScope \<Rightarrow> AllLogs | AgentScope \<Rightarrow> AgentLogs | UserScope \<Rightarrow> UserLogs,
         buildApiParams defaultRange page pageSize searchParams columnFilters isManagedScope)
      else
        let baseParams = buildBaseParams defaultRange page pageSize searchParams (logCategory = DrawingLogs);
            id = obj_get searchParams ''filter'';
            params = (if logCategory = DrawingLogs then obj_set ''mj_id'' id baseParams
                      else obj_set ''task_id'' id baseParams)
        in (if logCategory = DrawingLogs
            then (if accessScope = AdminScope then AllMidjourneyLogs else UserMidjourneyLogs)
            else (if accessScope = AdminScope then AllTaskLogs else UserTaskLogs), params))"

subsection \<open>Search parameters of the filter dialog\<close>

text \<open>The dates of the dialog are given by their time values, the other fields by an object.\<close>

definition if_truthy :: "jsval jsobj \<Rightarrow> string \<Rightarrow> string \<Rightarrow> (string \<times> jsval) list" where
  "if_truthy filters field key = only_if (truthy (obj_get filters field)) key (obj_get filters field)"

definition buildSearchParams ::
  "rat option \<Rightarrow> rat option \<Rightarrow> jsval jsobj \<Rightarrow> log_category \<Rightarrow> jsval jsobj" where
  "buildSearchParams startTime endTime filters logCategory =
     (let date = (\<lambda>key t. case t of None \<Rightarrow> [] | Some ms \<Rightarrow> [(key, JNum (Fin ms))]);
          baseParams = date ''startTime'' startTime @ date ''endTime'' endTime @
            if_truthy filters ''channel'' ''channel''
      in case logCategory of
           CommonLogs \<Rightarrow> obj_of (baseParams @
             if_truthy filters ''model'' ''model'' @
             if_truthy filters ''token'' ''token'' @
             if_truthy filters ''group'' ''group'' @
             if_truthy filters ''username'' ''username'' @
             if_truthy filters ''requestId'' ''requestId'' @
             if_truthy filters ''upstreamRequestId'' ''upstreamRequestId'' @
             (case obj_get filters ''excludeFilters'' of
                JArr (x # xs) \<Rightarrow> [(''excludeFilters'', JArr (x # xs))] | _ \<Rightarrow> []))
         | DrawingLogs \<Rightarrow> obj_of (baseParams @ if_truthy filters ''mjId'' ''filter'')
         | TaskLogs \<Rightarrow> obj_of (baseParams @ if_truthy filters ''taskId'' ''filter''))"

subsection \<open>Log entries\<close>

definition PARAM_OVERRIDE_ACTION_MAP :: "(string \<times> string) list" where
  "PARAM_OVERRIDE_ACTION_MAP =
    [(''set'', ''Set''), (''delete'', ''Delete''), (''copy'', ''Copy''), (''move'', ''Move''),
    (''append'', ''Append''), (''prepend'', ''Prepend''), (''trim_prefix'', ''Trim Prefix''),
    (''trim_suffix'', ''Trim Suffix''), (''ensure_prefix'', ''Ensure Prefix''),
    (''ensure_suffix'', ''Ensure Suffix''), (''trim_space'', ''Trim Space''),
    (''to_lower'', ''To Lower''), (''to_upper'', ''To Upper''), (''replace'', ''Replace''),
    (''regex_replace'', ''Regex Replace''), (''set_header'', ''Set Header''),
    (''delete_header'', ''Delete Header''), (''copy_header'', ''Copy Header''),
    (''move_header'', ''Move Header''), (''pass_headers'', ''Pass Headers''),
    (''sync_fields'', ''Sync Fields''), (''return_error'', ''Return Error'')]"

definition getParamOverrideActionLabel :: "string \<Rightarrow> (string \<Rightarrow> string) \<Rightarrow> string" where
  "getParamOverrideActionLabel action t =
     (case map_of PARAM_OVERRIDE_ACTION_MAP (to_lower action) of Some key \<Rightarrow> t key | None \<Rightarrow> action)"

definition parseAuditLine :: "string \<Rightarrow> string \<times> string" where
  "parseAuditLine line = (case index_of '' '' line of
       None \<Rightarrow> (line, line)
     | Some firstSpace \<Rightarrow>
         if firstSpace = 0 then (line, line) else (take firstSpace line, drop (firstSpace + 1) line))"

definition isViolationFeeLog :: "jsval jsobj option \<Rightarrow> bool" where
  "isViolationFeeLog other = (case other of
       None \<Rightarrow> False
     | Some ob \<Rightarrow> obj_get ob ''violation_fee'' = JBool True \<or>
         truthy (obj_get ob ''violation_fee_code'') \<or> truthy (obj_get ob ''violation_fee_marker''))"

definition parseLogOther :: "string \<Rightarrow> jsval" where
  "parseLogOther other =
     (if other = [] then JNull else case json_parse other of Some v \<Rightarrow> v | None \<Rightarrow> JNull)"

definition getLogUseTimeSeconds :: "jsnum \<Rightarrow> jsnum option \<Rightarrow> jsnum" where
  "getLogUseTimeSeconds use_time use_time_ms =
     (case use_time_ms of
        Some (Fin ms) \<Rightarrow>
          if 0 \<le> ms then Fin (ms / 1000)
          else (case use_time of Fin s \<Rightarrow> if 0 \<le> s then Fin s else Fin 0 | _ \<Rightarrow> Fin 0)
      | _ \<Rightarrow> (case use_time of Fin s \<Rightarrow> if 0 \<le> s then Fin s else Fin 0 | _ \<Rightarrow> Fin 0))"

datatype time_color = ColorSuccess | ColorWarning | ColorDanger

definition getTimeColor :: "rat \<Rightarrow> time_color" where
  "getTimeColor seconds =
     (if seconds < 10 then ColorSuccess else if seconds < 30 then ColorWarning else ColorDanger)"

definition getFirstResponseTimeColor :: "rat \<Rightarrow> time_color" where
  "getFirstResponseTimeColor seconds =
     (if seconds < 5 then ColorSuccess else if seconds < 10 then ColorWarning else ColorDanger)"

definition getThroughputColor :: "rat \<Rightarrow> time_color" where
  "getThroughputColor tokensPerSecond =
     (if tokensPerSecond \<ge> 30 then ColorSuccess else if tokensPerSecond \<ge> 15 then ColorWarning else ColorDanger)"

definition getResponseTimeColor :: "rat \<Rightarrow> rat \<Rightarrow> time_color" where
  "getResponseTimeColor seconds completionTokens =
     (if completionTokens < 100 \<or> seconds \<le> 0 then getTimeColor seconds
      else getThroughputColor (completionTokens / seconds))"

definition formatDuration :: "rat option \<Rightarrow> rat option \<Rightarrow> bool \<Rightarrow> (rat \<times> string) option" where
  "formatDuration submitTime finishTime milliseconds =
     (case (submitTime, finishTime) of
        (Some s, Some f) \<Rightarrow>
          if s = 0 \<or> f = 0 then None
          else let durationSec = (if milliseconds then (f - s) / 1000 else f - s)
               in Some (durationSec, if durationSec > 60 then ''red'' else ''green'')
      | _ \<Rightarrow> None)"

subsection \<open>Tiered billing of a log entry\<close>

definition resolveMatchedTier :: "ParsedTier list \<Rightarrow> string \<Rightarrow> ParsedTier option" where
  "resolveMatchedTier tiers matchedLabel =
     (if tiers = [] \<or> matchedLabel = [] then None
      else find (\<lambda>tier. normalizeTierLabel (pt_label tier) = normalizeTierLabel matchedLabel \<and>
                   normalizeTierLabel (pt_label tier) \<noteq> []) tiers)"

text \<open>The test \<open>(v || 0) > 0\<close> of a token count.\<close>

definition positive_count :: "jsval \<Rightarrow> bool" where
  "positive_count v = num_less (Fin 0) (to_number (if truthy v then v else JNum (Fin 0)))"

definition hasAnyCacheTokens :: "jsval jsobj option \<Rightarrow> bool" where
  "hasAnyCacheTokens other = (case other of
       None \<Rightarrow> False
     | Some ob \<Rightarrow> positive_count (obj_get ob ''cache_tokens'') \<or>
         positive_count (obj_get ob ''cache_creation_tokens'') \<or>
         positive_count (obj_get ob ''cache_creation_tokens_5m'') \<or>
         positive_count (obj_get ob ''cache_creation_tokens_1h''))"

record PriceEntry =
  pe_field :: string
  pe_shortLabel :: string
  pe_price :: rat

record TieredBillingSummary =
  tbs_tiers :: "ParsedTier list"
  tbs_tier :: ParsedTier
  tbs_priceEntries :: "PriceEntry list"

definition price_entry :: "ParsedTier \<Rightarrow> bool \<Rightarrow> BillingVar \<Rightarrow> PriceEntry list" where
  "price_entry tier cacheTokensPresent v = (case bv_field v of
       None \<Rightarrow> []
     | Some field \<Rightarrow>
         if field = [] \<or> bv_group v = Some ''cache'' \<and> \<not> cacheTokensPresent then []
         else case map_of (pt_fields tier) field of
                Some (Fin price) \<Rightarrow>
                  if price > 0
                  then [\<lparr>pe_field = field, pe_shortLabel = bv_shortLabel v, pe_price = price\<rparr>] else []
              | _ \<Rightarrow> [])"

definition str_value :: "jsval \<Rightarrow> string" where
  "str_value v = (case v of JStr s \<Rightarrow> s | _ \<Rightarrow> [])"

text \<open>The decoder of the expression is an argument; it returns the empty string on failure.\<close>

definition getTieredBillingSummary ::
  "(string \<Rightarrow> string) \<Rightarrow> jsval jsobj option \<Rightarrow> TieredBillingSummary option" where
  "getTieredBillingSummary decodeBillingExprB64 other = (case other of
       None \<Rightarrow> None
     | Some ob \<Rightarrow>
         if obj_get ob ''billing_mode'' \<noteq> JStr ''tiered_expr'' then None
         else let exprStr = decodeBillingExprB64 (str_value (obj_get ob ''expr_b64'')) in
           if exprStr = [] then None
           else let tiers = parseTiersFromExpr exprStr in
             (case resolveMatchedTier tiers (str_value (obj_get ob ''matched_tier'')) of
                None \<Rightarrow> None
              | Some tier \<Rightarrow> Some
                  \<lparr>tbs_tiers = tiers, tbs_tier = tier,
                   tbs_priceEntries =
                     concat (map (price_entry tier (hasAnyCacheTokens other)) BILLING_PRICING_VARS)\<rparr>))"

subsection \<open>Scopes\<close>

lemma keys_obj_of: "fst ` set (obj_of ps) = fst ` set ps"
proof -
  have "fst ` set (foldl (\<lambda>ob (k, v). obj_set k v ob) ob ps) = fst ` set ob \<union> fst ` set ps" for ob
  proof (induction ps arbitrary: ob)
    case (Cons p ps)
    obtain k v where "p = (k, v)" by fastforce
    with Cons keys_obj_set [of k v ob] show ?case by auto
  qed simp
  then show ?thesis by (simp add: obj_of_def)
qed

lemma keys_only_if: "fst ` set (only_if b k v) = (if b then {k} else {})"
  by (simp add: only_if_def)

lemma user_base_keys:
  "fst ` set (base_api_params r page psize sp False) \<inter> {''channel'', ''username''} = {}"
  by (cases "serializeExcludeFilters sp")
    (simp_all add: base_api_params_def Let_def keys_obj_of keys_only_if image_Un buildTimeRangeParams_def)

lemma user_column_keys:
  "fst ` set ps \<inter> {''channel'', ''username''} = {} \<Longrightarrow>
    fst ` set (apply_column_filter False ps f) \<inter> {''channel'', ''username''} = {}"
  using keys_obj_set [of _ _ ps] by (cases f) (auto simp: apply_column_filter_def)

lemma base_params_channel:
  "''channel_id'' \<in> fst ` set (buildBaseParams r page psize sp ms) \<longleftrightarrow> truthy (obj_get sp ''channel'')"
  by (auto simp: buildBaseParams_def keys_obj_of keys_only_if image_Un buildTimeRangeParams_def Let_def)


subsection \<open>Prices of a log entry\<close>

lemma price_entry_mem:
  "e \<in> set (price_entry tier present v) \<longleftrightarrow>
     bv_field v = Some (pe_field e) \<and> pe_field e \<noteq> [] \<and> pe_shortLabel e = bv_shortLabel v \<and>
     map_of (pt_fields tier) (pe_field e) = Some (Fin (pe_price e)) \<and> 0 < pe_price e \<and>
     (bv_group v = Some ''cache'' \<longrightarrow> present)"
proof (cases "bv_field v")
  case (Some f)
  show ?thesis
  proof (cases "map_of (pt_fields tier) f")
    case None
    with Some show ?thesis by (auto simp: price_entry_def)
  next
    case (Some n)
    with \<open>bv_field v = Some f\<close> show ?thesis by (cases n; cases e) (auto simp: price_entry_def)
  qed
qed (simp add: price_entry_def)

lemma resolve_matched:
  "resolveMatchedTier tiers label = Some tier \<Longrightarrow>
    tier \<in> set tiers \<and> normalizeTierLabel (pt_label tier) = normalizeTierLabel label \<and>
    normalizeTierLabel label \<noteq> []"
  by (auto simp: resolveMatchedTier_def find_Some_iff split: if_splits)

text \<open>C32: The prices shown for a log entry are not guessed: a summary shows a tier of the logged
  expression whose label is the logged label up to normalisation, and its entries are exactly the
  positive prices of that tier, cache prices only when the entry reports cache tokens.\<close>

theorem billing_summary_exact:
  assumes "getTieredBillingSummary decode (Some ob) = Some s"
  shows "tbs_tier s \<in> set (parseTiersFromExpr (decode (str_value (obj_get ob ''expr_b64'')))) \<and>
    normalizeTierLabel (pt_label (tbs_tier s)) = normalizeTierLabel (str_value (obj_get ob ''matched_tier'')) \<and>
    (\<forall>e. e \<in> set (tbs_priceEntries s) \<longleftrightarrow>
      (\<exists>v \<in> set BILLING_PRICING_VARS. bv_field v = Some (pe_field e) \<and> pe_field e \<noteq> [] \<and>
         pe_shortLabel e = bv_shortLabel v \<and>
         map_of (pt_fields (tbs_tier s)) (pe_field e) = Some (Fin (pe_price e)) \<and> 0 < pe_price e \<and>
         (bv_group v = Some ''cache'' \<longrightarrow> hasAnyCacheTokens (Some ob))))"
proof -
  let ?expr = "decode (str_value (obj_get ob ''expr_b64''))"
  let ?label = "str_value (obj_get ob ''matched_tier'')"
  from assms obtain tier where t: "resolveMatchedTier (parseTiersFromExpr ?expr) ?label = Some tier"
    and s: "s = \<lparr>tbs_tiers = parseTiersFromExpr ?expr, tbs_tier = tier, tbs_priceEntries =
      concat (map (price_entry tier (hasAnyCacheTokens (Some ob))) BILLING_PRICING_VARS)\<rparr>"
    by (auto simp: getTieredBillingSummary_def Let_def split: if_splits option.splits)
  have "e \<in> set (tbs_priceEntries s) \<longleftrightarrow>
      (\<exists>v \<in> set BILLING_PRICING_VARS. e \<in> set (price_entry tier (hasAnyCacheTokens (Some ob)) v))" for e
    by (simp add: s)
  then show ?thesis using resolve_matched [OF t] unfolding price_entry_mem by (simp add: s)
qed

definition sample_expr :: string where
  "sample_expr = ''tier('' @ [CHR 0x22, CHR ''a'', CHR 0x22] @ '',p*2)''"

definition sample_other :: "jsval jsobj" where
  "sample_other = [(''billing_mode'', JStr ''tiered_expr''), (''expr_b64'', JStr ''x''), (''matched_tier'', JStr ''A'')]"

theorem billing_summary_exact_witness:
  "\<exists>s. getTieredBillingSummary (\<lambda>_. sample_expr) (Some sample_other) = Some s \<and>
     normalizeTierLabel (pt_label (tbs_tier s)) = ''a''"
proof -
  have "list_ex (\<lambda>t. normalizeTierLabel (pt_label t) = ''a'') (parseTiersFromExpr sample_expr)" by code_simp
  moreover have nA: "normalizeTierLabel ''A'' = ''a''" by code_simp
  ultimately have "resolveMatchedTier (parseTiersFromExpr sample_expr) ''A'' \<noteq> None"
    by (auto simp: resolveMatchedTier_def list_ex_iff find_None_iff simp del: not_None_eq split: if_splits)
  then obtain tier where "resolveMatchedTier (parseTiersFromExpr sample_expr) ''A'' = Some tier" by blast
  then obtain s where s: "getTieredBillingSummary (\<lambda>_. sample_expr) (Some sample_other) = Some s"
    by (simp add: getTieredBillingSummary_def sample_other_def obj_get_def str_value_def sample_expr_def Let_def)
  from billing_summary_exact [OF s] have "normalizeTierLabel (pt_label (tbs_tier s)) = normalizeTierLabel ''A''"
    by (simp add: sample_other_def obj_get_def str_value_def)
  with nA s show ?thesis by simp
qed

end
