(* ===== verification/Navigation.thy ===== *)
theory Navigation
  imports Js_Json
begin

section \<open>Navigation: modules, sidebar and roles\<close>

text \<open>
  \<^item> \<open>web/default/src/features/system-settings/maintenance/config.ts\<close>: the administrator's configuration of
    header and sidebar modules, as the settings page reads and writes it.
  \<^item> \<open>web/default/src/lib/nav-modules.ts\<close>: access to header modules and the guard of routes.
  \<^item> \<open>web/default/src/hooks/use-sidebar-config.ts\<close>: the sidebar a user sees.
  \<^item> \<open>web/default/src/lib/roles.ts\<close>: roles.

  A section of a configuration is an object from module names to flags.  The sidebar reads the stored
  text without checking it, so there sections are arbitrary values.  The cached status is the text the
  browser stores.  Look-ups in tables see own properties only.
\<close>

subsection \<open>Roles\<close>

definition ROLE_GUEST :: int where "ROLE_GUEST = 0"

definition ROLE_USER :: int where "ROLE_USER = 1"

definition ROLE_AGENT :: int where "ROLE_AGENT = 5"

definition ROLE_ADMIN :: int where "ROLE_ADMIN = 10"

definition ROLE_SUPER_ADMIN :: int where "ROLE_SUPER_ADMIN = 100"

definition getRoleLabelKey :: "int option \<Rightarrow> string" where
  "getRoleLabelKey role =
     (case Option.bind role (map_of [(ROLE_SUPER_ADMIN, ''Super Admin''), (ROLE_ADMIN, ''Admin''),
        (ROLE_AGENT, ''Agent''), (ROLE_USER, ''User''), (ROLE_GUEST, ''Guest'')]) of
        Some label \<Rightarrow> label | None \<Rightarrow> ''Guest'')"

subsection \<open>Configuration of the modules\<close>

record ModuleAccess =
  ac_enabled :: bool
  ac_requireAuth :: bool

text \<open>The header modules: the two with access rules, and flags for the others.\<close>

record HeaderNavModules =
  hn_pricing :: ModuleAccess
  hn_rankings :: ModuleAccess
  hn_flags :: "bool jsobj"

definition open_access :: ModuleAccess where
  "open_access = \<lparr>ac_enabled = True, ac_requireAuth = False\<rparr>"

definition HEADER_NAV_DEFAULT :: HeaderNavModules where
  "HEADER_NAV_DEFAULT = \<lparr>hn_pricing = open_access, hn_rankings = open_access,
     hn_flags = [(''home'', True), (''console'', True), (''docs'', True), (''about'', True)]\<rparr>"

definition SIDEBAR_MODULES_DEFAULT :: "bool jsobj jsobj" where
  "SIDEBAR_MODULES_DEFAULT =
     [(''imageWorkbench'', [(''enabled'', False), (''workbench'', False)]),
      (''chat'', [(''enabled'', True), (''playground'', True), (''chat'', True)]),
      (''console'', [(''enabled'', True), (''detail'', True), (''token'', True),
        (''log'', True), (''usageDetails'', True), (''midjourney'', True), (''task'', True)]),
      (''personal'', [(''enabled'', True), (''topup'', True), (''personal'', True)]),
      (''admin'', [(''enabled'', True), (''channel'', True), (''models'', True),
        (''redemption'', True), (''topupRecords'', True), (''user'', True),
        (''setting'', True), (''subscription'', True)])]"

fun str_flag :: "string \<Rightarrow> bool \<Rightarrow> bool" where
  "str_flag s fallback =
     (let normalized = to_lower (trim s) in
      if normalized = ''true'' \<or> normalized = ''1'' then True
      else if normalized = ''false'' \<or> normalized = ''0'' then False
      else fallback)"

fun toBoolean :: "jsval \<Rightarrow> bool \<Rightarrow> bool" where
  "toBoolean (JBool b) fallback = b"
| "toBoolean (JNum n) fallback = (n = Fin 1)"
| "toBoolean (JStr s) fallback = str_flag s fallback"
| "toBoolean _ fallback = fallback"

fun scalar :: "jsval \<Rightarrow> bool" where
  "scalar (JBool _) = True"
| "scalar (JNum _) = True"
| "scalar (JStr _) = True"
| "scalar _ = False"

fun object_value :: "jsval \<Rightarrow> bool" where
  "object_value (JObj _) = True"
| "object_value (JArr _) = True"
| "object_value _ = False"

definition parseAccessModule :: "jsval \<Rightarrow> ModuleAccess \<Rightarrow> ModuleAccess" where
  "parseAccessModule raw fallback =
     (if scalar raw then
        \<lparr>ac_enabled = toBoolean raw (ac_enabled fallback), ac_requireAuth = ac_requireAuth fallback\<rparr>
      else if object_value raw then
        \<lparr>ac_enabled = toBoolean (get_prop raw ''enabled'') (ac_enabled fallback),
         ac_requireAuth = toBoolean (get_prop raw ''requireAuth'') (ac_requireAuth fallback)\<rparr>
      else fallback)"

definition flag_of :: "bool jsobj \<Rightarrow> string \<Rightarrow> bool" where
  "flag_of flags key = (case map_of flags key of Some b \<Rightarrow> b | None \<Rightarrow> False)"

definition header_step :: "HeaderNavModules \<Rightarrow> HeaderNavModules \<Rightarrow> string \<times> jsval \<Rightarrow> HeaderNavModules" where
  "header_step base result = (\<lambda>(key, raw).
     if key = ''pricing'' then result\<lparr>hn_pricing := parseAccessModule raw (hn_pricing base)\<rparr>
     else if key = ''rankings'' then result\<lparr>hn_rankings := parseAccessModule raw (hn_rankings base)\<rparr>
     else case raw of
         JBool b \<Rightarrow> result\<lparr>hn_flags := obj_set key b (hn_flags result)\<rparr>
       | JStr _ \<Rightarrow> result\<lparr>hn_flags := obj_set key (toBoolean raw (flag_of (hn_flags base) key)) (hn_flags result)\<rparr>
       | JNum _ \<Rightarrow> result\<lparr>hn_flags := obj_set key (toBoolean raw (flag_of (hn_flags base) key)) (hn_flags result)\<rparr>
       | _ \<Rightarrow> result)"

definition parseHeaderNavConfig :: "string option \<Rightarrow> HeaderNavModules" where
  "parseHeaderNavConfig v =
     (case Option.bind (Option.bind v (\<lambda>s. if s = [] then None else json_parse s)) js_entries of
        None \<Rightarrow> HEADER_NAV_DEFAULT
      | Some entries \<Rightarrow> foldl (header_step HEADER_NAV_DEFAULT) HEADER_NAV_DEFAULT entries)"

definition access_js :: "ModuleAccess \<Rightarrow> jsval" where
  "access_js a = JObj [(''enabled'', JBool (ac_enabled a)), (''requireAuth'', JBool (ac_requireAuth a))]"

subsection \<open>Sidebar configuration of the settings page\<close>

definition default_section :: "string \<Rightarrow> bool jsobj" where
  "default_section sectionKey =
     (case map_of SIDEBAR_MODULES_DEFAULT sectionKey of Some d \<Rightarrow> d | None \<Rightarrow> [(''enabled'', True)])"

definition flag_or_true :: "bool jsobj \<Rightarrow> string \<Rightarrow> bool" where
  "flag_or_true flags key = (case map_of flags key of Some b \<Rightarrow> b | None \<Rightarrow> True)"

definition module_step :: "bool jsobj \<Rightarrow> bool jsobj \<Rightarrow> string \<times> jsval \<Rightarrow> bool jsobj" where
  "module_step dflt sectionConfig = (\<lambda>(moduleKey, v).
     if moduleKey = ''enabled'' then sectionConfig
     else obj_set moduleKey (toBoolean v (flag_or_true dflt moduleKey)) sectionConfig)"

definition parse_section :: "string \<Rightarrow> jsval \<Rightarrow> bool jsobj" where
  "parse_section sectionKey raw =
     (let dflt = default_section sectionKey in
      foldl (module_step dflt)
        [(''enabled'', toBoolean (get_prop raw ''enabled'') (flag_or_true dflt ''enabled''))]
        (case js_entries raw of Some es \<Rightarrow> es | None \<Rightarrow> []))"

definition section_step :: "bool jsobj jsobj \<Rightarrow> string \<times> jsval \<Rightarrow> bool jsobj jsobj" where
  "section_step result = (\<lambda>(sectionKey, raw).
     if \<not> object_value raw then result else obj_set sectionKey (parse_section sectionKey raw) result)"

definition add_missing_modules :: "bool jsobj \<Rightarrow> bool jsobj \<Rightarrow> bool jsobj" where
  "add_missing_modules config sec =
     foldl (\<lambda>acc (k, b). if k \<in> fst ` set acc then acc else obj_set k b acc) sec config"

definition merge_default_section :: "bool jsobj jsobj \<Rightarrow> string \<times> bool jsobj \<Rightarrow> bool jsobj jsobj" where
  "merge_default_section result = (\<lambda>(sectionKey, config). case map_of result sectionKey of
       None \<Rightarrow> obj_set sectionKey config result
     | Some sec \<Rightarrow> obj_set sectionKey (add_missing_modules config sec) result)"

definition parseSidebarModulesAdmin :: "string option \<Rightarrow> bool jsobj jsobj" where
  "parseSidebarModulesAdmin v = (case v of
       None \<Rightarrow> SIDEBAR_MODULES_DEFAULT
     | Some s \<Rightarrow>
         if s = [] \<or> trim s = [] then SIDEBAR_MODULES_DEFAULT
         else (case Option.bind (json_parse s) js_entries of
             None \<Rightarrow> SIDEBAR_MODULES_DEFAULT
           | Some entries \<Rightarrow>
               foldl merge_default_section (foldl section_step [] entries) SIDEBAR_MODULES_DEFAULT))"

definition sidebar_js :: "bool jsobj jsobj \<Rightarrow> jsval jsobj" where
  "sidebar_js config = map (\<lambda>(s, sec). (s, JObj (map (\<lambda>(m, b). (m, JBool b)) sec))) config"

definition serializeSidebarModulesAdmin :: "bool jsobj jsobj \<Rightarrow> string" where
  "serializeSidebarModulesAdmin config = json_stringify (JObj (sidebar_js config))"

subsection \<open>Header modules and the guard of routes\<close>

fun parseHeaderNavBoolean :: "jsval \<Rightarrow> bool \<Rightarrow> bool" where
  "parseHeaderNavBoolean (JBool b) fallback = b"
| "parseHeaderNavBoolean (JNum n) fallback =
     (if n = Fin 1 then True else if n = Fin 0 then False else fallback)"
| "parseHeaderNavBoolean (JStr s) fallback = str_flag s fallback"
| "parseHeaderNavBoolean _ fallback = fallback"

definition parseAccess :: "jsval \<Rightarrow> ModuleAccess \<Rightarrow> ModuleAccess" where
  "parseAccess raw fallback =
     (if scalar raw then
        \<lparr>ac_enabled = parseHeaderNavBoolean raw (ac_enabled fallback),
         ac_requireAuth = ac_requireAuth fallback\<rparr>
      else if object_value raw then
        \<lparr>ac_enabled = parseHeaderNavBoolean (get_prop raw ''enabled'') (ac_enabled fallback),
         ac_requireAuth = parseHeaderNavBoolean (get_prop raw ''requireAuth'') (ac_requireAuth fallback)\<rparr>
      else fallback)"

definition parseHeaderNavRecord :: "jsval \<Rightarrow> jsval" where
  "parseHeaderNavRecord raw =
     (if \<not> truthy raw \<or> trim (to_str raw) = [] then JNull
      else if object_value raw then raw
      else case json_parse (to_str raw) of Some v \<Rightarrow> v | None \<Rightarrow> JNull)"

definition nav_step :: "HeaderNavModules \<Rightarrow> string \<times> jsval \<Rightarrow> HeaderNavModules" where
  "nav_step result = (\<lambda>(key, v).
     if key = ''pricing'' then result\<lparr>hn_pricing := parseAccess v (hn_pricing result)\<rparr>
     else if key = ''rankings'' then result\<lparr>hn_rankings := parseAccess v (hn_rankings result)\<rparr>
     else let fallback = map_of (hn_flags result) key in
       if fallback \<noteq> None \<or> scalar v
       then result\<lparr>hn_flags := obj_set key
              (parseHeaderNavBoolean v (case fallback of Some b \<Rightarrow> b | None \<Rightarrow> True)) (hn_flags result)\<rparr>
       else result)"

definition parseHeaderNavModules :: "jsval \<Rightarrow> HeaderNavModules" where
  "parseHeaderNavModules raw =
     (let parsed = parseHeaderNavRecord raw in
      if \<not> truthy parsed then HEADER_NAV_DEFAULT
      else foldl nav_step HEADER_NAV_DEFAULT (case js_entries parsed of Some es \<Rightarrow> es | None \<Rightarrow> []))"

definition parseHeaderNavModulesFromStatus :: "jsval \<Rightarrow> HeaderNavModules" where
  "parseHeaderNavModulesFromStatus status = parseHeaderNavModules (get_prop status ''HeaderNavModules'')"

datatype HeaderNavModule = Rankings | Pricing

definition getModuleAccessFromStatus :: "jsval \<Rightarrow> HeaderNavModule \<Rightarrow> ModuleAccess" where
  "getModuleAccessFromStatus status modul = (case modul of
       Rankings \<Rightarrow> hn_rankings (parseHeaderNavModulesFromStatus status)
     | Pricing \<Rightarrow> hn_pricing (parseHeaderNavModulesFromStatus status))"

definition getCachedStatus :: "string option \<Rightarrow> jsval" where
  "getCachedStatus raw = (case raw of
       None \<Rightarrow> JNull
     | Some s \<Rightarrow> if s = [] then JNull else case json_parse s of Some v \<Rightarrow> v | None \<Rightarrow> JNull)"

definition getModuleAccess :: "string option \<Rightarrow> HeaderNavModule \<Rightarrow> ModuleAccess" where
  "getModuleAccess cached modul = getModuleAccessFromStatus (getCachedStatus cached) modul"

text \<open>The setting of the sidebar in a status: a text, by its type.\<close>

definition sidebar_setting :: "jsval \<Rightarrow> string option" where
  "sidebar_setting status = (case get_prop status ''SidebarModulesAdmin'' of JStr s \<Rightarrow> Some s | _ \<Rightarrow> None)"

definition section_allows :: "bool jsobj jsobj \<Rightarrow> string \<Rightarrow> string \<Rightarrow> bool" where
  "section_allows config section modul = (case map_of config section of
       None \<Rightarrow> False
     | Some sec \<Rightarrow> map_of sec ''enabled'' = Some True \<and> map_of sec modul = Some True)"

definition isSidebarModuleEnabled :: "string option \<Rightarrow> string \<Rightarrow> string \<Rightarrow> bool" where
  "isSidebarModuleEnabled cached section modul =
     section_allows (parseSidebarModulesAdmin (sidebar_setting (getCachedStatus cached))) section modul"

subsection \<open>The sidebar\<close>

definition DEFAULT_SIDEBAR_MODULES :: "bool jsobj jsobj" where
  "DEFAULT_SIDEBAR_MODULES =
     [(''imageWorkbench'', [(''enabled'', False), (''workbench'', False)]),
      (''chat'', [(''enabled'', True), (''playground'', True), (''chat'', True)]),
      (''console'', [(''enabled'', True), (''detail'', True), (''token'', True),
        (''log'', True), (''usageDetails'', True), (''midjourney'', True), (''task'', True)]),
      (''personal'', [(''enabled'', True), (''topup'', True), (''affiliate'', True),
        (''personal'', True)]),
      (''agent'', [(''enabled'', True), (''user'', True), (''topupRecords'', True),
        (''log'', True), (''affiliateRecords'', True)]),
      (''admin'', [(''enabled'', True), (''monitor'', True), (''channel'', True),
        (''models'', True), (''redemption'', True), (''topupRecords'', True),
        (''user'', True), (''affiliateRecords'', True), (''setting'', True),
        (''subscription'', True)])]"

definition URL_TO_CONFIG_MAP :: "(string \<times> string \<times> string) list" where
  "URL_TO_CONFIG_MAP =
     [(''/image-workbench'', (''imageWorkbench'', ''workbench'')),
      (''/playground'', (''chat'', ''playground'')),
      (''/dashboard'', (''console'', ''detail'')),
      (''/dashboard/overview'', (''console'', ''detail'')),
      (''/dashboard/models'', (''console'', ''detail'')),
      (''/dashboard/users'', (''console'', ''detail'')),
      (''/keys'', (''console'', ''token'')),
      (''/usage-logs'', (''console'', ''log'')),
      (''/usage-logs/common'', (''console'', ''log'')),
      (''/usage-logs/drawing'', (''console'', ''midjourney'')),
      (''/usage-logs/task'', (''console'', ''task'')),
      (''/usage-details'', (''console'', ''usageDetails'')),
      (''/wallet'', (''personal'', ''topup'')),
      (''/affiliate'', (''personal'', ''affiliate'')),
      (''/profile'', (''personal'', ''personal'')),
      (''/business-monitor'', (''admin'', ''monitor'')),
      (''/channels'', (''admin'', ''channel'')),
      (''/models'', (''admin'', ''models'')),
      (''/models/metadata'', (''admin'', ''models'')),
      (''/models/deployments'', (''admin'', ''models'')),
      (''/users'', (''admin'', ''user'')),
      (''/redemption-codes'', (''admin'', ''redemption'')),
      (''/topup-records'', (''admin'', ''topupRecords'')),
      (''/affiliate-records'', (''admin'', ''affiliateRecords'')),
      (''/subscriptions'', (''admin'', ''subscription'')),
      (''/system-settings'', (''admin'', ''setting'')),
      (''/system-settings/site'', (''admin'', ''setting''))]"

text \<open>The entries that spreading a value copies.\<close>

definition spread_entries :: "jsval \<Rightarrow> (string \<times> jsval) list" where
  "spread_entries v = (case js_entries v of Some es \<Rightarrow> es | None \<Rightarrow> [])"

definition set_all :: "jsval jsobj \<Rightarrow> (string \<times> jsval) list \<Rightarrow> jsval jsobj" where
  "set_all ob kvs = foldl (\<lambda>acc (k, v). obj_set k v acc) ob kvs"

definition section_js :: "bool jsobj \<Rightarrow> jsval jsobj" where
  "section_js sec = map (\<lambda>(m, b). (m, JBool b)) sec"

definition fill_undefined :: "bool jsobj \<Rightarrow> jsval jsobj \<Rightarrow> jsval jsobj" where
  "fill_undefined defaultSection sec =
     foldl (\<lambda>acc (k, b). if obj_get acc k = JUndef then obj_set k (JBool b) acc else acc) sec defaultSection"

definition sidebar_merge_step :: "jsval jsobj \<Rightarrow> string \<times> bool jsobj \<Rightarrow> jsval jsobj" where
  "sidebar_merge_step merged = (\<lambda>(sectionKey, defaultSection).
     let existingSection = obj_get merged sectionKey in
     if \<not> truthy existingSection then obj_set sectionKey (JObj (section_js defaultSection)) merged
     else obj_set sectionKey
            (JObj (fill_undefined defaultSection
              (set_all (section_js defaultSection) (spread_entries existingSection)))) merged)"

definition mergeWithDefaultSidebarModules :: "jsval \<Rightarrow> jsval jsobj" where
  "mergeWithDefaultSidebarModules config =
     foldl sidebar_merge_step (set_all [] (spread_entries config)) DEFAULT_SIDEBAR_MODULES"

definition parseSidebarConfig :: "string option \<Rightarrow> jsval jsobj" where
  "parseSidebarConfig v = (case v of
       None \<Rightarrow> sidebar_js DEFAULT_SIDEBAR_MODULES
     | Some s \<Rightarrow>
         if s = [] \<or> trim s = [] then sidebar_js DEFAULT_SIDEBAR_MODULES
         else (case json_parse s of
             None \<Rightarrow> sidebar_js DEFAULT_SIDEBAR_MODULES
           | Some parsed \<Rightarrow> mergeWithDefaultSidebarModules parsed))"

definition parseUserSidebarConfig :: "string option \<Rightarrow> jsval option" where
  "parseUserSidebarConfig v = (case v of
       None \<Rightarrow> None
     | Some s \<Rightarrow>
         if s = [] \<or> trim s = [] then None
         else (case json_parse s of
             None \<Rightarrow> None
           | Some parsed \<Rightarrow> if object_value parsed then Some parsed else None))"

text \<open>The two layers of one section: the administrator allows, the user may hide.\<close>

definition admin_allows :: "jsval jsobj \<Rightarrow> string \<Rightarrow> string \<Rightarrow> bool" where
  "admin_allows adminConfig section modul =
     (let adminSection = obj_get adminConfig section in
      truthy adminSection \<and> truthy (get_prop adminSection ''enabled'') \<and>
      get_prop adminSection modul = JBool True)"

definition user_shows :: "jsval option \<Rightarrow> string \<Rightarrow> string \<Rightarrow> bool" where
  "user_shows userConfig section modul = (case userConfig of
       None \<Rightarrow> True
     | Some config \<Rightarrow>
         let userSection = get_prop config section in
         if \<not> truthy userSection then True
         else if get_prop userSection ''enabled'' = JBool False then False
         else get_prop userSection modul \<noteq> JBool False)"

definition isModuleEnabled :: "string \<Rightarrow> jsval jsobj \<Rightarrow> jsval option \<Rightarrow> string option \<Rightarrow> bool" where
  "isModuleEnabled url adminConfig userConfig groupId = (case map_of URL_TO_CONFIG_MAP url of
       None \<Rightarrow> True
     | Some (mappedSection, modul) \<Rightarrow>
         let section = (if groupId = Some ''agent'' \<and> (mappedSection = ''admin'' \<or> mappedSection = ''console'')
                        then ''agent'' else mappedSection)
         in if \<not> admin_allows adminConfig section modul then False
            else user_shows userConfig section modul)"

record NavSub =
  sub_title :: string
  sub_url :: string
  sub_adminOnly :: bool
  sub_rootOnly :: bool
  sub_configUrls :: "string list option"

datatype NavKind =
    NavLink string
  | NavCollapsible "NavSub list"
  | NavChatPresets

record NavItem =
  nav_title :: string
  nav_adminOnly :: bool
  nav_rootOnly :: bool
  nav_configUrls :: "string list option"
  nav_kind :: NavKind

record NavGroup =
  group_id :: "string option"
  group_items :: "NavItem list"

definition isNavItemVisible ::
  "NavItem \<Rightarrow> string option \<Rightarrow> jsval jsobj \<Rightarrow> jsval option \<Rightarrow> int \<Rightarrow> bool" where
  "isNavItemVisible item groupId adminConfig userConfig userRole =
     (if nav_adminOnly item \<and> userRole < ROLE_ADMIN then False
      else if nav_rootOnly item \<and> userRole \<noteq> ROLE_SUPER_ADMIN then False
      else case nav_kind item of
          NavChatPresets \<Rightarrow>
            if \<not> admin_allows adminConfig ''chat'' ''chat'' then False
            else user_shows userConfig ''chat'' ''chat''
        | NavLink url \<Rightarrow>
            if url = [] then True
            else list_ex (\<lambda>u. isModuleEnabled u adminConfig userConfig groupId)
                   (case nav_configUrls item of Some us \<Rightarrow> us | None \<Rightarrow> [url])
        | NavCollapsible subs \<Rightarrow>
            list_ex (\<lambda>sub. isModuleEnabled (sub_url sub) adminConfig userConfig groupId) subs)"

definition filter_subs ::
  "jsval jsobj \<Rightarrow> jsval option \<Rightarrow> int \<Rightarrow> string option \<Rightarrow> NavItem \<Rightarrow> NavItem" where
  "filter_subs adminConfig userConfig userRole groupId item = (case nav_kind item of
       NavCollapsible subs \<Rightarrow>
         item\<lparr>nav_kind := NavCollapsible (filter (\<lambda>sub.
           (\<not> sub_rootOnly sub \<or> userRole = ROLE_SUPER_ADMIN) \<and>
           isModuleEnabled (sub_url sub) adminConfig userConfig groupId) subs)\<rparr>
     | _ \<Rightarrow> item)"

definition filterNavItems ::
  "NavItem list \<Rightarrow> jsval jsobj \<Rightarrow> jsval option \<Rightarrow> int \<Rightarrow> string option \<Rightarrow> NavItem list" where
  "filterNavItems items adminConfig userConfig userRole groupId =
     filter (\<lambda>item. isNavItemVisible item groupId adminConfig userConfig userRole)
       (map (filter_subs adminConfig userConfig userRole groupId) items)"

definition group_allowed :: "int \<Rightarrow> NavGroup \<Rightarrow> bool" where
  "group_allowed userRole g =
     (if group_id g = Some ''agent'' then userRole = ROLE_AGENT
      else if group_id g = Some ''admin'' then userRole \<ge> ROLE_ADMIN
      else True)"

definition filter_group :: "jsval jsobj \<Rightarrow> jsval option \<Rightarrow> int \<Rightarrow> NavGroup \<Rightarrow> NavGroup" where
  "filter_group adminConfig userConfig userRole g =
     (let items = filterNavItems (group_items g) adminConfig userConfig userRole (group_id g)
      in g\<lparr>group_items :=
           if userRole = ROLE_AGENT \<and> group_id g = Some ''general''
           then filter (\<lambda>item. nav_kind item \<noteq> NavLink ''/usage-logs/common'') items else items\<rparr>)"

definition sidebar_groups :: "jsval jsobj \<Rightarrow> jsval option \<Rightarrow> int \<Rightarrow> NavGroup list \<Rightarrow> NavGroup list" where
  "sidebar_groups adminConfig userConfig userRole navGroups =
     filter (\<lambda>g. length (group_items g) > 0)
       (map (filter_group adminConfig userConfig userRole) (filter (group_allowed userRole) navGroups))"

text \<open>What the hook reads of the signed-in user.\<close>

record NavUser =
  user_role :: int
  user_sidebar_modules :: "string option"
  user_sidebar_settings :: "bool option"

definition user_layer :: "NavUser option \<Rightarrow> jsval option" where
  "user_layer user = (case user of
       None \<Rightarrow> parseUserSidebarConfig None
     | Some u \<Rightarrow> if user_sidebar_settings u = Some False then None
                 else parseUserSidebarConfig (user_sidebar_modules u))"

definition useSidebarConfig :: "string option \<Rightarrow> NavUser option \<Rightarrow> NavGroup list \<Rightarrow> NavGroup list" where
  "useSidebarConfig sidebarModulesAdmin user navGroups =
     sidebar_groups (parseSidebarConfig sidebarModulesAdmin) (user_layer user)
       (case user of None \<Rightarrow> ROLE_GUEST | Some u \<Rightarrow> user_role u) navGroups"

subsection \<open>The user layer only narrows\<close>

definition item_links :: "NavItem \<Rightarrow> string list" where
  "item_links item = (case nav_kind item of
       NavLink url \<Rightarrow> [url] | NavCollapsible subs \<Rightarrow> map sub_url subs | NavChatPresets \<Rightarrow> [''chat-presets''])"

definition sidebar_links :: "NavGroup list \<Rightarrow> (string option \<times> string \<times> string) set" where
  "sidebar_links groups =
     (\<Union>g \<in> set groups. \<Union>item \<in> set (group_items g). (\<lambda>l. (group_id g, nav_title item, l)) ` set (item_links item))"

lemma enabled_mono: "isModuleEnabled url a u g \<Longrightarrow> isModuleEnabled url a None g"
  by (auto simp: isModuleEnabled_def user_shows_def Let_def split: option.splits if_splits)

lemma some_enabled_mono:
  "list_ex (\<lambda>x. isModuleEnabled x a u g) xs \<Longrightarrow> list_ex (\<lambda>x. isModuleEnabled x a None g) xs"
  by (induction xs) (auto dest: enabled_mono)

lemma some_sub_mono:
  "list_ex (\<lambda>x. isModuleEnabled (sub_url x) a u g) (filter (\<lambda>x. R x \<and> isModuleEnabled (sub_url x) a u g) xs) \<Longrightarrow>
   list_ex (\<lambda>x. isModuleEnabled (sub_url x) a None g) (filter (\<lambda>x. R x \<and> isModuleEnabled (sub_url x) a None g) xs)"
  by (induction xs) (auto dest: enabled_mono split: if_splits)

lemma visible_mono:
  assumes "isNavItemVisible (filter_subs a u r g item) g a u r"
  shows "isNavItemVisible (filter_subs a None r g item) g a None r"
proof (cases "nav_kind item")
  case (NavLink url)
  with assms show ?thesis
    by (auto simp: isNavItemVisible_def filter_subs_def dest: some_enabled_mono split: if_splits)
next
  case (NavCollapsible subs)
  with assms show ?thesis
    by (auto simp: isNavItemVisible_def filter_subs_def dest: some_sub_mono split: if_splits)
next
  case NavChatPresets
  with assms show ?thesis
    by (auto simp: isNavItemVisible_def filter_subs_def user_shows_def split: if_splits)
qed

lemma links_mono:
  "set (item_links (filter_subs a u r g item)) \<subseteq> set (item_links (filter_subs a None r g item))"
  using enabled_mono by (auto simp: item_links_def filter_subs_def split: NavKind.split)

lemma filter_subs_fields [simp]:
  "nav_title (filter_subs a u r g item) = nav_title item"
  "nav_adminOnly (filter_subs a u r g item) = nav_adminOnly item"
  "nav_rootOnly (filter_subs a u r g item) = nav_rootOnly item"
  "nav_kind (filter_subs a u r g item) = NavLink l \<longleftrightarrow> nav_kind item = NavLink l"
  by (auto simp: filter_subs_def split: NavKind.split)

lemma group_items_mono:
  assumes "item \<in> set (group_items (filter_group a u r g))"
  shows "\<exists>item' \<in> set (group_items (filter_group a None r g)).
    nav_title item' = nav_title item \<and> set (item_links item) \<subseteq> set (item_links item')"
proof -
  from assms obtain i where i: "i \<in> set (group_items g)" "item = filter_subs a u r (group_id g) i"
    "isNavItemVisible item (group_id g) a u r"
    "\<not> (r = ROLE_AGENT \<and> group_id g = Some ''general'' \<and> nav_kind item = NavLink ''/usage-logs/common'')"
    by (auto simp: filter_group_def filterNavItems_def Let_def split: if_splits)
  let ?i = "filter_subs a None r (group_id g) i"
  have "?i \<in> set (group_items (filter_group a None r g))"
    using i visible_mono [of a u r "group_id g" i] by (auto simp: filter_group_def filterNavItems_def Let_def)
  moreover have "nav_title ?i = nav_title item \<and> set (item_links item) \<subseteq> set (item_links ?i)"
    using i(2) links_mono by simp
  ultimately show ?thesis by blast
qed

lemma filter_group_id [simp]: "group_id (filter_group a u r g) = group_id g"
  by (simp add: filter_group_def Let_def)

lemma links_of_groups:
  "x \<in> sidebar_links (sidebar_groups a u r gs) \<longleftrightarrow>
    (\<exists>g \<in> set gs. group_allowed r g \<and> (\<exists>item \<in> set (group_items (filter_group a u r g)).
      \<exists>l \<in> set (item_links item). x = (group_id g, nav_title item, l)))"
  by (fastforce simp: sidebar_links_def sidebar_groups_def)

lemma sidebar_mono: "sidebar_links (sidebar_groups a u r gs) \<subseteq> sidebar_links (sidebar_groups a None r gs)"
proof
  fix x
  assume "x \<in> sidebar_links (sidebar_groups a u r gs)"
  then obtain g item l where x: "g \<in> set gs" "group_allowed r g"
    "item \<in> set (group_items (filter_group a u r g))" "l \<in> set (item_links item)"
    "x = (group_id g, nav_title item, l)"
    unfolding links_of_groups by blast
  from group_items_mono [OF x(3)] obtain item' where "item' \<in> set (group_items (filter_group a None r g))"
    "nav_title item' = nav_title item" "l \<in> set (item_links item')" using x(4) by blast
  with x show "x \<in> sidebar_links (sidebar_groups a None r gs)"
    unfolding links_of_groups by metis
qed

text \<open>C21: The sidebar preferences of a user only hide links: whatever text they hold, every link shown is
  shown to the same user without preferences; and a user who may not edit them sees the full sidebar.\<close>

theorem user_layer_narrows:
  "sidebar_links (useSidebarConfig v (Some user) gs) \<subseteq>
     sidebar_links (useSidebarConfig v (Some (user\<lparr>user_sidebar_modules := None\<rparr>)) gs) \<and>
   useSidebarConfig v (Some (user\<lparr>user_sidebar_settings := Some False\<rparr>)) gs =
     useSidebarConfig v (Some (user\<lparr>user_sidebar_modules := None\<rparr>)) gs"
  using sidebar_mono by (simp add: useSidebarConfig_def user_layer_def parseUserSidebarConfig_def)

subsection \<open>Roles\<close>

text \<open>C33: Roles gate the sidebar: whatever the two configurations say, the agent group is shown only
  to agents and the administration group only to administrators; an item marked adminOnly only to
  administrators and one marked rootOnly only to the super administrator; a sub-item marked rootOnly
  only to the super administrator.  Nothing is claimed for a sub-item marked adminOnly: the code does
  not read that mark of a sub-item.\<close>

theorem sidebar_respects_roles:
  assumes "g \<in> set (useSidebarConfig v (Some user) gs)"
  shows "(group_id g = Some ''agent'' \<longrightarrow> user_role user = ROLE_AGENT) \<and>
    (group_id g = Some ''admin'' \<longrightarrow> ROLE_ADMIN \<le> user_role user) \<and>
    (\<forall>item \<in> set (group_items g).
       (nav_adminOnly item \<longrightarrow> ROLE_ADMIN \<le> user_role user) \<and>
       (nav_rootOnly item \<longrightarrow> user_role user = ROLE_SUPER_ADMIN) \<and>
       (\<forall>subs. nav_kind item = NavCollapsible subs \<longrightarrow>
          (\<forall>sub \<in> set subs. sub_rootOnly sub \<longrightarrow> user_role user = ROLE_SUPER_ADMIN)))"
proof -
  let ?a = "parseSidebarConfig v" and ?u = "user_layer (Some user)" and ?r = "user_role user"
  from assms obtain g0 where g0: "group_allowed ?r g0" "g = filter_group ?a ?u ?r g0"
    by (auto simp: useSidebarConfig_def sidebar_groups_def)
  have "(nav_adminOnly item \<longrightarrow> ROLE_ADMIN \<le> ?r) \<and> (nav_rootOnly item \<longrightarrow> ?r = ROLE_SUPER_ADMIN) \<and>
      (\<forall>subs. nav_kind item = NavCollapsible subs \<longrightarrow>
         (\<forall>sub \<in> set subs. sub_rootOnly sub \<longrightarrow> ?r = ROLE_SUPER_ADMIN))"
    if "item \<in> set (group_items g)" for item
  proof -
    from that g0(2) obtain i where i: "item = filter_subs ?a ?u ?r (group_id g0) i"
      "isNavItemVisible item (group_id g0) ?a ?u ?r"
      by (auto simp: filter_group_def filterNavItems_def Let_def split: if_splits)
    have "nav_kind item = NavCollapsible subs \<Longrightarrow> sub \<in> set subs \<Longrightarrow> sub_rootOnly sub \<Longrightarrow> ?r = ROLE_SUPER_ADMIN"
      for subs sub by (cases "nav_kind i") (auto simp: i(1) filter_subs_def)
    with i(2) show ?thesis by (auto simp: isNavItemVisible_def split: if_splits)
  qed
  moreover have "group_id g = Some ''agent'' \<longrightarrow> ?r = ROLE_AGENT" "group_id g = Some ''admin'' \<longrightarrow> ROLE_ADMIN \<le> ?r"
    using g0 by (simp_all add: group_allowed_def split: if_splits)
  ultimately show ?thesis by blast
qed

definition sample_user :: NavUser where
  "sample_user = \<lparr>user_role = 10, user_sidebar_modules = None, user_sidebar_settings = None\<rparr>"

definition sample_group :: NavGroup where
  "sample_group = \<lparr>group_id = Some ''admin'', group_items =
     [\<lparr>nav_title = ''Extra'', nav_adminOnly = True, nav_rootOnly = False, nav_configUrls = None,
       nav_kind = NavLink ''/extra''\<rparr>]\<rparr>"

theorem sidebar_respects_roles_witness:
  "sample_group \<in> set (useSidebarConfig None (Some sample_user) [sample_group]) \<and> ROLE_ADMIN \<le> user_role sample_user"
proof -
  have "sample_group \<in> set (useSidebarConfig None (Some sample_user) [sample_group])" by code_simp
  from sidebar_respects_roles [OF this] this show ?thesis by (simp add: sample_group_def)
qed

subsection \<open>The sidebar and the guard of routes\<close>

definition wf_sidebar :: "bool jsobj jsobj \<Rightarrow> bool" where
  "wf_sidebar c \<longleftrightarrow> wf_obj c \<and> (\<forall>(s, sec) \<in> set c. wf_obj sec)"

lemma map_of_map_snd: "map_of (map (\<lambda>(k, v). (k, f v)) xs) k = map_option f (map_of xs k)"
  by (induction xs) auto

lemma fst_map_snd: "map fst (map (\<lambda>(k, v). (k, f v)) xs) = map fst xs"
  by (induction xs) auto

lemma wf_obj_map: "wf_obj (map (\<lambda>(k, v). (k, f v)) xs) \<longleftrightarrow> wf_obj xs"
  unfolding wf_obj_def fst_map_snd ..

lemma section_ok: "wf_obj sec \<Longrightarrow> json_ok (JObj (map (\<lambda>(m, b). (m, JBool b)) sec))"
  by (auto simp: wf_obj_map list_all_iff)

lemma sidebar_js_ok: "wf_sidebar c \<Longrightarrow> json_ok (JObj (sidebar_js c))"
  unfolding sidebar_js_def wf_sidebar_def using section_ok
  by (auto simp: wf_obj_map list_all_iff simp del: json_ok.simps(7)) (auto simp: wf_obj_map list_all_iff)

lemma serialize_read:
  "wf_sidebar c \<Longrightarrow> json_parse (serializeSidebarModulesAdmin c) = Some (JObj (sidebar_js c))"
  unfolding serializeSidebarModulesAdmin_def by (rule json_roundtrip [OF sidebar_js_ok])

lemma serialize_not_blank: "serializeSidebarModulesAdmin c \<noteq> []" "trim (serializeSidebarModulesAdmin c) \<noteq> []"
  by (simp_all add: serializeSidebarModulesAdmin_def trim_eq_Nil is_space_def)

text \<open>What the settings page reads back.\<close>

lemma map_of_modules:
  "distinct (map fst sec) \<Longrightarrow>
    map_of (foldl (module_step d) acc (section_js sec)) m =
      (if m = ''enabled'' \<or> map_of sec m = None then map_of acc m else map_of sec m)"
proof (induction sec arbitrary: acc)
  case (Cons p sec)
  obtain k b where p: "p = (k, b)" by fastforce
  from Cons.prems p have k: "map_of sec k = None" by (simp add: map_of_eq_None_iff)
  with Cons p show ?case by (auto simp: section_js_def module_step_def)
qed (simp add: section_js_def)

lemma get_section_js: "obj_get (section_js sec) m = (case map_of sec m of None \<Rightarrow> JUndef | Some b \<Rightarrow> JBool b)"
  by (simp add: obj_get_def section_js_def map_of_map_snd split: option.split)

lemma parse_section_lookup:
  assumes "distinct (map fst sec)"
  shows "map_of (parse_section s (JObj (section_js sec))) m =
    (case map_of sec m of Some b \<Rightarrow> Some b
     | None \<Rightarrow> if m = ''enabled'' then Some (flag_or_true (default_section s) ''enabled'') else None)"
  using map_of_modules [OF assms]
  by (simp add: parse_section_def Let_def get_section_js split: option.split)

lemma map_of_sections:
  "distinct (map fst c) \<Longrightarrow>
    map_of (foldl section_step acc (sidebar_js c)) s =
      (case map_of c s of None \<Rightarrow> map_of acc s | Some sec \<Rightarrow> Some (parse_section s (JObj (section_js sec))))"
proof (induction c arbitrary: acc)
  case (Cons p c)
  obtain k sec where p: "p = (k, sec)" by fastforce
  from Cons.prems p have "map_of c k = None" by (simp add: map_of_eq_None_iff)
  with Cons p show ?case
    by (auto simp: sidebar_js_def section_step_def section_js_def split: option.split)
qed (simp add: sidebar_js_def)

lemma add_missing_lookup:
  "map_of (add_missing_modules config sec) m = (case map_of sec m of None \<Rightarrow> map_of config m | Some b \<Rightarrow> Some b)"
proof -
  have "map_of (foldl (\<lambda>acc (k, b). if k \<in> fst ` set acc then acc else obj_set k b acc) acc config) m =
      (case map_of acc m of None \<Rightarrow> map_of config m | Some b \<Rightarrow> Some b)" for acc
  proof (induction config arbitrary: acc)
    case (Cons p config)
    obtain k b where "p = (k, b)" by fastforce
    moreover have "k \<in> fst ` set acc \<longleftrightarrow> map_of acc k \<noteq> None" by (simp add: map_of_eq_None_iff)
    ultimately show ?case using Cons by (auto split: option.split)
  qed (simp split: option.split)
  then show ?thesis by (simp add: add_missing_modules_def)
qed

lemma merge_default_lookup:
  "distinct (map fst ds) \<Longrightarrow>
    map_of (foldl merge_default_section r ds) s = (case map_of ds s of
       None \<Rightarrow> map_of r s
     | Some d \<Rightarrow> Some (case map_of r s of None \<Rightarrow> d | Some sec \<Rightarrow> add_missing_modules d sec))"
proof (induction ds arbitrary: r)
  case (Cons p ds)
  obtain k d where p: "p = (k, d)" by fastforce
  from Cons.prems p have "map_of ds k = None" by (simp add: map_of_eq_None_iff)
  with Cons p show ?case by (auto simp: merge_default_section_def split: option.split)
qed simp

text \<open>What the sidebar reads.\<close>

lemma map_of_set_all:
  "distinct (map fst kvs) \<Longrightarrow>
    obj_get (set_all ob kvs) k = (case map_of kvs k of None \<Rightarrow> obj_get ob k | Some v \<Rightarrow> v)"
proof (induction kvs arbitrary: ob)
  case (Cons p kvs)
  obtain k' v where p: "p = (k', v)" by fastforce
  from Cons.prems p have "map_of kvs k' = None" by (simp add: map_of_eq_None_iff)
  with Cons p show ?case by (auto simp: set_all_def split: option.split)
qed (simp add: set_all_def)

lemma fill_lookup:
  "obj_get sec m \<noteq> JUndef \<Longrightarrow> obj_get (fill_undefined d sec) m = obj_get sec m"
proof (induction d arbitrary: sec)
  case (Cons p d)
  obtain k b where p: "p = (k, b)" by fastforce
  show ?case
  proof (cases "obj_get sec k = JUndef")
    case True
    with Cons.prems have "obj_get (obj_set k (JBool b) sec) m = obj_get sec m" by auto
    with Cons.IH [of "obj_set k (JBool b) sec"] Cons.prems True p show ?thesis by (simp add: fill_undefined_def)
  next
    case False
    with Cons p show ?thesis by (simp add: fill_undefined_def)
  qed
qed (simp add: fill_undefined_def)

lemma merged_section:
  "distinct (map fst ds) \<Longrightarrow>
    obj_get (foldl sidebar_merge_step ob ds) s = (case map_of ds s of
       None \<Rightarrow> obj_get ob s
     | Some d \<Rightarrow> if \<not> truthy (obj_get ob s) then JObj (section_js d)
         else JObj (fill_undefined d (set_all (section_js d) (spread_entries (obj_get ob s)))))"
proof (induction ds arbitrary: ob)
  case (Cons p ds)
  obtain k d where p: "p = (k, d)" by fastforce
  from Cons.prems p have "map_of ds k = None" by (simp add: map_of_eq_None_iff)
  with Cons p show ?case by (auto simp: sidebar_merge_step_def Let_def split: option.split)
qed simp

lemma sidebar_lookup:
  assumes "wf_sidebar c" "map_of DEFAULT_SIDEBAR_MODULES s = Some d" "map_of d m \<noteq> None"
  shows "get_prop (obj_get (parseSidebarConfig (Some (serializeSidebarModulesAdmin c))) s) m =
    JBool (case Option.bind (map_of c s) (\<lambda>sec. map_of sec m) of Some b \<Rightarrow> b | None \<Rightarrow> the (map_of d m))"
proof -
  let ?m = "parseSidebarConfig (Some (serializeSidebarModulesAdmin c))"
  let ?top = "set_all [] (sidebar_js c)"
  have m: "?m = foldl sidebar_merge_step ?top DEFAULT_SIDEBAR_MODULES"
    by (simp add: parseSidebarConfig_def serialize_not_blank serialize_read [OF assms(1)]
        mergeWithDefaultSidebarModules_def spread_entries_def)
  have dd: "distinct (map fst DEFAULT_SIDEBAR_MODULES)" by (simp add: DEFAULT_SIDEBAR_MODULES_def)
  have dc: "distinct (map fst (sidebar_js c))"
    using assms(1) by (simp add: sidebar_js_def fst_map_snd wf_sidebar_def wf_obj_def del: map_map)
  have top: "obj_get ?top s = (case map_of c s of None \<Rightarrow> JUndef | Some sec \<Rightarrow> JObj (section_js sec))"
    unfolding map_of_set_all [OF dc]
    by (simp add: sidebar_js_def map_of_map_snd section_js_def obj_get_def split: option.split)
  note merged = merged_section [OF dd, of ?top s, unfolded m [symmetric] assms(2) option.case top]
  show ?thesis
  proof (cases "map_of c s")
    case None
    with merged assms(3) show ?thesis by (auto simp: get_section_js)
  next
    case (Some sec)
    then have "wf_obj sec" using assms(1) map_of_SomeD [OF Some] by (auto simp: wf_sidebar_def)
    then have ds: "distinct (map fst (section_js sec))"
      by (simp add: section_js_def fst_map_snd wf_obj_def del: map_map)
    have "obj_get (set_all (section_js d) (section_js sec)) m =
        JBool (case map_of sec m of Some b \<Rightarrow> b | None \<Rightarrow> the (map_of d m))"
      unfolding map_of_set_all [OF ds] get_section_js using assms(3)
      by (auto simp: section_js_def map_of_map_snd split: option.split)
    with merged Some fill_lookup [of "set_all (section_js d) (section_js sec)" m d] show ?thesis
      by (simp add: spread_entries_def)
  qed
qed

lemma settings_lookup:
  assumes "wf_sidebar c" "map_of SIDEBAR_MODULES_DEFAULT s = Some d" "map_of d ''enabled'' \<noteq> None" "map_of d m \<noteq> None"
  shows "\<exists>sec'. map_of (parseSidebarModulesAdmin (Some (serializeSidebarModulesAdmin c))) s = Some sec' \<and>
    map_of sec' m = Some (case Option.bind (map_of c s) (\<lambda>sec. map_of sec m) of Some b \<Rightarrow> b | None \<Rightarrow> the (map_of d m))"
proof -
  have dd: "distinct (map fst SIDEBAR_MODULES_DEFAULT)" by (simp add: SIDEBAR_MODULES_DEFAULT_def)
  have dc: "distinct (map fst c)" using assms(1) by (simp add: wf_sidebar_def wf_obj_def)
  have p: "parseSidebarModulesAdmin (Some (serializeSidebarModulesAdmin c)) =
      foldl merge_default_section (foldl section_step [] (sidebar_js c)) SIDEBAR_MODULES_DEFAULT"
    by (simp add: parseSidebarModulesAdmin_def serialize_not_blank serialize_read [OF assms(1)])
  note look = merge_default_lookup [OF dd, of "foldl section_step [] (sidebar_js c)" s,
      unfolded map_of_sections [OF dc] assms(2) option.case]
  show ?thesis
  proof (cases "map_of c s")
    case None
    with look assms(4) show ?thesis by (auto simp: p)
  next
    case (Some sec)
    then have "distinct (map fst sec)"
      using assms(1) map_of_SomeD [OF Some] by (auto simp: wf_sidebar_def wf_obj_def)
    from parse_section_lookup [OF this] Some look assms(3,4) show ?thesis
      by (auto simp: p add_missing_lookup flag_or_true_def default_section_def assms(2) split: option.split)
  qed
qed

lemma layers_agree:
  assumes "wf_sidebar c" "map_of SIDEBAR_MODULES_DEFAULT s = Some d" "map_of DEFAULT_SIDEBAR_MODULES s = Some d"
    "map_of d ''enabled'' \<noteq> None" "map_of d m \<noteq> None"
  shows "admin_allows (parseSidebarConfig (Some (serializeSidebarModulesAdmin c))) s m \<longleftrightarrow>
    section_allows (parseSidebarModulesAdmin (Some (serializeSidebarModulesAdmin c))) s m"
proof -
  let ?section = "obj_get (parseSidebarConfig (Some (serializeSidebarModulesAdmin c))) s"
  note e = sidebar_lookup [OF assms(1,3,4)] and m = sidebar_lookup [OF assms(1,3,5)]
  have "truthy ?section" using e by (cases ?section) auto
  with e m settings_lookup [OF assms(1,2,4,4)] settings_lookup [OF assms(1,2,4,5)] show ?thesis
    by (auto simp: admin_allows_def section_allows_def Let_def)
qed

text \<open>C22: For a configuration the settings page has written, and with no preferences of the user
  (which the guard does not read), the sidebar and the guards of the routes agree: the link to the
  playground is offered exactly when the route opens, and likewise the image workbench.\<close>

theorem sidebar_agrees_with_guard:
  assumes "wf_sidebar c" "sidebar_setting (getCachedStatus cached) = Some (serializeSidebarModulesAdmin c)"
  shows "(isModuleEnabled ''/playground'' (parseSidebarConfig (Some (serializeSidebarModulesAdmin c))) None groupId \<longleftrightarrow>
      isSidebarModuleEnabled cached ''chat'' ''playground'') \<and>
    (isModuleEnabled ''/image-workbench'' (parseSidebarConfig (Some (serializeSidebarModulesAdmin c))) None groupId \<longleftrightarrow>
      isSidebarModuleEnabled cached ''imageWorkbench'' ''workbench'')"
proof -
  have urls: "map_of URL_TO_CONFIG_MAP ''/playground'' = Some (''chat'', ''playground'')"
    "map_of URL_TO_CONFIG_MAP ''/image-workbench'' = Some (''imageWorkbench'', ''workbench'')"
    by (simp_all add: URL_TO_CONFIG_MAP_def)
  have chat: "map_of SIDEBAR_MODULES_DEFAULT ''chat'' = Some [(''enabled'', True), (''playground'', True), (''chat'', True)]"
    "map_of DEFAULT_SIDEBAR_MODULES ''chat'' = Some [(''enabled'', True), (''playground'', True), (''chat'', True)]"
    by (simp_all add: SIDEBAR_MODULES_DEFAULT_def DEFAULT_SIDEBAR_MODULES_def)
  have img: "map_of SIDEBAR_MODULES_DEFAULT ''imageWorkbench'' = Some [(''enabled'', False), (''workbench'', False)]"
    "map_of DEFAULT_SIDEBAR_MODULES ''imageWorkbench'' = Some [(''enabled'', False), (''workbench'', False)]"
    by (simp_all add: SIDEBAR_MODULES_DEFAULT_def DEFAULT_SIDEBAR_MODULES_def)
  show ?thesis
    using layers_agree [OF assms(1) chat, of "''playground''"] layers_agree [OF assms(1) img, of "''workbench''"]
    by (simp add: isModuleEnabled_def isSidebarModuleEnabled_def assms(2) urls user_shows_def)
qed

definition sample_sidebar :: "bool jsobj jsobj" where
  "sample_sidebar = [(''chat'', [(''enabled'', True), (''playground'', False)])]"

theorem sidebar_agrees_with_guard_witness:
  "wf_sidebar sample_sidebar \<and>
   (\<exists>cached. isModuleEnabled ''/playground''
      (parseSidebarConfig (Some (serializeSidebarModulesAdmin sample_sidebar))) None None \<longleftrightarrow>
      isSidebarModuleEnabled cached ''chat'' ''playground'')"
proof -
  let ?status = "JObj [(''SidebarModulesAdmin'', JStr (serializeSidebarModulesAdmin sample_sidebar))]"
  let ?cached = "Some (json_stringify ?status)"
  have w: "wf_sidebar sample_sidebar"
    by (simp add: wf_sidebar_def sample_sidebar_def wf_obj_def key_before_def index_key_def is_digit_def)
  have "json_parse (json_stringify ?status) = Some ?status" by (rule json_roundtrip) (simp add: wf_obj_def)
  then have "sidebar_setting (getCachedStatus ?cached) = Some (serializeSidebarModulesAdmin sample_sidebar)"
    by (simp add: getCachedStatus_def sidebar_setting_def obj_get_def)
  from sidebar_agrees_with_guard [OF w this, of None] w show ?thesis by blast
qed

end
