(* ===== verification/Seeds.thy ===== *)
theory Seeds
  imports Js_Value "HOL-Library.Word"
begin

section \<open>Seeds and colours: 32-bit hashes\<close>

text \<open>
  \<^item> \<open>web/default/src/features/pricing/lib/seed.ts\<close>: a string hash, a linear-congruential generator and
    numbers drawn from it.
  \<^item> \<open>web/default/src/lib/format.ts\<close>, \<open>stringToColor\<close>: a colour from the hash of a string.

  The code computes with doubles and converts to 32-bit integers at every bitwise operator; here the
  doubles are unbounded integers and the conversions are explicit.  That the integers stay below
  \<open>2 ^ 53\<close>, where doubles are exact, is part of what is proved.  Quotients of the generator are exact
  rationals.
\<close>

unbundle bit_operations_syntax

subsection \<open>Conversions of the bitwise operators\<close>

definition to_int32 :: "int \<Rightarrow> int" where
  "to_int32 x = sint (word_of_int x :: 32 word)"

definition to_uint32 :: "int \<Rightarrow> int" where
  "to_uint32 x = uint (word_of_int x :: 32 word)"

definition js_xor :: "int \<Rightarrow> int \<Rightarrow> int" where
  "js_xor a b = sint ((word_of_int a :: 32 word) XOR word_of_int b)"

definition js_shl :: "int \<Rightarrow> nat \<Rightarrow> int" where
  "js_shl a n = sint (push_bit n (word_of_int a :: 32 word))"

definition js_shr :: "int \<Rightarrow> nat \<Rightarrow> int" where
  "js_shr a n = to_int32 a div 2 ^ n"

text \<open>The remainder \<open>a % b\<close>, with the sign of the dividend.\<close>

definition js_rem :: "int \<Rightarrow> int \<Rightarrow> int" where
  "js_rem a b = (if a < 0 then - ((- a) mod \<bar>b\<bar>) else a mod \<bar>b\<bar>)"

subsection \<open>Seeds\<close>

definition hash_step :: "int \<Rightarrow> char \<Rightarrow> int" where
  "hash_step hash c = js_xor (hash * 33) (of_char c)"

definition hashStringToSeed :: "string \<Rightarrow> int" where
  "hashStringToSeed input = \<bar>to_int32 (foldl hash_step 5381 input)\<bar>"

definition seed_state :: "int \<Rightarrow> int" where
  "seed_state seed = to_uint32 (if seed = 0 then 1 else seed)"

definition next_state :: "int \<Rightarrow> int" where
  "next_state state = to_uint32 (state * 1664525 + 1013904223)"

text \<open>A draw of the generator: the number and the state after it.\<close>

definition seededRandom :: "int \<Rightarrow> rat \<times> int" where
  "seededRandom state = (rat_of_int (next_state state) / rat_of_int 0x100000000, next_state state)"

definition randomInRange :: "int \<Rightarrow> rat \<Rightarrow> rat \<Rightarrow> rat \<times> int" where
  "randomInRange state mn mx = (mn + fst (seededRandom state) * (mx - mn), snd (seededRandom state))"

definition randomIntInRange :: "int \<Rightarrow> int \<Rightarrow> int \<Rightarrow> int \<times> int" where
  "randomIntInRange state mn mx =
     (\<lfloor>fst (randomInRange state (rat_of_int mn) (rat_of_int mx + 1))\<rfloor>,
      snd (randomInRange state (rat_of_int mn) (rat_of_int mx + 1)))"

subsection \<open>Colours\<close>

definition color_step :: "int \<Rightarrow> char \<Rightarrow> int" where
  "color_step hash c = to_int32 (of_char c + (js_shl hash 5 - hash))"

definition color_hash :: "string \<Rightarrow> int" where
  "color_hash str = foldl color_step 0 str"

definition stringToColor :: "string \<Rightarrow> string" where
  "stringToColor str =
     (if str = [] then ''gray''
      else let hash = color_hash str;
               hue = \<bar>js_rem hash 360\<bar>;
               saturation = 65 + js_rem \<bar>hash\<bar> 10;
               lightness = 55 + js_rem \<bar>js_shr hash 8\<bar> 10
           in ''hsl('' @ int_str hue @ '', '' @ int_str saturation @ ''%, '' @ int_str lightness @ ''%)'')"

subsection \<open>The hash and the generator on 32-bit words\<close>

definition word_hash :: "string \<Rightarrow> 32 word" where
  "word_hash s = foldl (\<lambda>h c. (h * 33) XOR of_char c) 5381 s"

definition word_next :: "32 word \<Rightarrow> 32 word" where
  "word_next w = w * 1664525 + 1013904223"

lemma word_of_to_int32 [simp]: "(word_of_int (to_int32 x) :: 32 word) = word_of_int x"
  by (simp add: to_int32_def)

lemma word_of_to_uint32 [simp]: "(word_of_int (to_uint32 x) :: 32 word) = word_of_int x"
  by (simp add: to_uint32_def)

lemma sint_32_bounds: "- (2 ^ 31) \<le> sint (w :: 32 word) \<and> sint w < 2 ^ 31"
  using sint_ge [of w] sint_lt [of w] by simp

lemma to_uint32_bounds: "0 \<le> to_uint32 x \<and> to_uint32 x < 2 ^ 32"
  using unsigned_less [of "word_of_int x :: 32 word"] by (simp add: to_uint32_def)

lemma hash_word: "(word_of_int (foldl hash_step h s) :: 32 word) = foldl (\<lambda>h c. (h * 33) XOR of_char c) (word_of_int h) s"
proof (induction s arbitrary: h)
  case (Cons c s)
  have "(word_of_int (hash_step h c) :: 32 word) = (word_of_int h * 33) XOR of_char c"
    by (cases c) (simp add: hash_step_def js_xor_def wi_hom_mult [symmetric] of_char_def)
  with Cons show ?case by simp
qed simp

lemma hash_range: "- (2 ^ 31) \<le> foldl hash_step 5381 s \<and> foldl hash_step 5381 s < 2 ^ 31"
proof (cases s rule: rev_cases)
  case (snoc t c)
  then show ?thesis using sint_32_bounds by (simp add: hash_step_def js_xor_def)
qed simp

lemma hash_sint: "hashStringToSeed s = \<bar>sint (word_hash s)\<bar>"
  using hash_word [of 5381 s] by (simp add: hashStringToSeed_def to_int32_def word_hash_def)

lemma next_word: "next_state st = uint (word_next (word_of_int st))"
  by (simp add: next_state_def to_uint32_def word_next_def wi_hom_mult [symmetric] wi_hom_add [symmetric])

lemma states_word:
  "(next_state ^^ n) (seed_state k) = uint ((word_next ^^ n) (word_of_int (if k = 0 then 1 else k)))"
  by (induction n) (simp_all add: seed_state_def to_uint32_def next_word)

text \<open>The multiplier of the generator has an inverse, so no two states have the same successor.\<close>

lemma word_next_inj: "inj word_next"
proof (rule injI)
  fix v w :: "32 word"
  assume "word_next v = word_next w"
  then have "v * 1664525 * 4276115653 = w * 1664525 * 4276115653" by (simp add: word_next_def)
  moreover have "(1664525 * 4276115653 :: 32 word) = 1" by code_simp
  ultimately show "v = w" by (simp only: mult.assoc mult_1_right)
qed

text \<open>C27: The integers of the code are the 32-bit words they stand for: the seed of a string is the
  absolute value of its word hash, and the states of a generator are the iterates of the word
  recurrence, which never merge; all products stay below the limit of exact doubles.\<close>

theorem seeds_refine_words:
  "hashStringToSeed s = \<bar>sint (word_hash s)\<bar> \<and>
   (next_state ^^ n) (seed_state k) = uint ((word_next ^^ n) (word_of_int (if k = 0 then 1 else k))) \<and>
   inj word_next \<and>
   \<bar>foldl hash_step 5381 s * 33 :: int\<bar> < 2 ^ 53 \<and>
   (next_state ^^ n) (seed_state k) * 1664525 + 1013904223 < 2 ^ 53"
proof -
  have "(next_state ^^ n) (seed_state k) < 2 ^ 32"
    using to_uint32_bounds by (cases n) (simp_all only: funpow.simps comp_apply id_apply seed_state_def next_state_def)
  moreover have "\<bar>foldl hash_step 5381 s * 33 :: int\<bar> < 2 ^ 53" using hash_range [of s] by (auto simp: abs_less_iff)
  ultimately show ?thesis by (simp add: hash_sint states_word word_next_inj)
qed

subsection \<open>Bounds\<close>

lemma draw_bounds: "0 \<le> fst (seededRandom st) \<and> fst (seededRandom st) < 1"
proof -
  have "rat_of_int (next_state st) < rat_of_int (2 ^ 32)"
    using to_uint32_bounds by (simp only: of_int_less_iff next_state_def)
  moreover have "0 \<le> rat_of_int (next_state st)"
    using to_uint32_bounds by (simp only: of_int_0_le_iff next_state_def)
  ultimately show ?thesis by (simp add: seededRandom_def)
qed

lemma floor_scaled:
  assumes "0 \<le> r" "r < 1" "mn \<le> mx"
  shows "mn \<le> \<lfloor>rat_of_int mn + r * (rat_of_int mx + 1 - rat_of_int mn)\<rfloor> \<and>
    \<lfloor>rat_of_int mn + r * (rat_of_int mx + 1 - rat_of_int mn)\<rfloor> \<le> mx"
proof -
  let ?d = "rat_of_int mx + 1 - rat_of_int mn"
  have d: "0 < ?d" using assms(3) by (simp add: add_strict_increasing2)
  have "0 \<le> r * ?d" using assms(1) d by simp
  then have "mn \<le> \<lfloor>rat_of_int mn + r * ?d\<rfloor>" unfolding le_floor_iff by simp
  moreover have "r * ?d < ?d" using assms(2) d by simp
  then have "rat_of_int mn + r * ?d < rat_of_int (mx + 1)" by simp
  then have "\<lfloor>rat_of_int mn + r * ?d\<rfloor> < mx + 1" unfolding floor_less_iff .
  ultimately show ?thesis by simp
qed

text \<open>Draws lie in the half-open unit interval and integers drawn from a range lie in the range. A
  seed is at most two to the 31st, and that value is taken, so a seed may need 32 bits.\<close>

lemma seed_bounds:
  assumes "mn \<le> mx"
  shows "mn \<le> fst (randomIntInRange st mn mx) \<and> fst (randomIntInRange st mn mx) \<le> mx \<and>
    0 \<le> fst (seededRandom st) \<and> fst (seededRandom st) < 1 \<and>
    0 \<le> hashStringToSeed s \<and> hashStringToSeed s \<le> 2 ^ 31 \<and> hashStringToSeed ''whoslmg'' = 2 ^ 31"
proof -
  have "hashStringToSeed ''whoslmg'' = 2 ^ 31" by code_simp
  moreover have "0 \<le> hashStringToSeed s \<and> hashStringToSeed s \<le> 2 ^ 31"
    using sint_32_bounds [of "word_hash s"] by (simp add: hash_sint abs_le_iff)
  ultimately show ?thesis
    using draw_bounds [of st] floor_scaled [of "fst (seededRandom st)", OF _ _ assms]
    by (simp add: randomIntInRange_def randomInRange_def)
qed

lemma js_rem_bounds: "0 \<le> a \<Longrightarrow> 0 < b \<Longrightarrow> 0 \<le> js_rem a b \<and> js_rem a b < b"
  by (simp add: js_rem_def)

lemma js_rem_abs: "0 < b \<Longrightarrow> \<bar>js_rem a b\<bar> < b"
  by (simp add: js_rem_def)

text \<open>A non-empty string gets a colour of hue below 360, saturation from 65 to 74 and lightness
  from 55 to 64.\<close>

lemma color_bounds:
  "\<exists>hue saturation lightness.
     stringToColor (c # cs) = ''hsl('' @ int_str hue @ '', '' @ int_str saturation @ ''%, '' @
       int_str lightness @ ''%)'' \<and>
     0 \<le> hue \<and> hue < 360 \<and> 65 \<le> saturation \<and> saturation \<le> 74 \<and> 55 \<le> lightness \<and> lightness \<le> 64"
proof -
  let ?h = "color_hash (c # cs)"
  have "\<bar>js_rem ?h 360\<bar> < 360" by (rule js_rem_abs) simp
  moreover have "0 \<le> js_rem \<bar>?h\<bar> 10 \<and> js_rem \<bar>?h\<bar> 10 < 10" by (rule js_rem_bounds) simp_all
  moreover have "0 \<le> js_rem \<bar>js_shr ?h 8\<bar> 10 \<and> js_rem \<bar>js_shr ?h 8\<bar> 10 < 10"
    by (rule js_rem_bounds) simp_all
  ultimately show ?thesis
    by - (rule exI [of _ "\<bar>js_rem ?h 360\<bar>"], rule exI [of _ "65 + js_rem \<bar>?h\<bar> 10"],
      rule exI [of _ "55 + js_rem \<bar>js_shr ?h 8\<bar> 10"], simp add: stringToColor_def Let_def)
qed

end
