(* ===== verification/Image_Mentions.thy ===== *)
theory Image_Mentions
  imports Js_Value
begin

section \<open>Image workbench: mentions of images in a prompt\<close>

text \<open>
  \<open>web/gpt-image-playground/src/lib/promptImageMentions.ts\<close>: mentions such as \<open>@\<close>\<open>N\<close> of the input
  images inside a prompt, kept between two invisible marker characters.

  Prompts contain characters beyond Latin-1, so a prompt is the list of its UTF-16 code units
  (\<open>utext\<close>).  Identifiers are strings as in the other theories.  A global regular expression is a
  matcher that gives the captures and the length of the match at the head of a text; \<open>replace_all\<close>
  and \<open>match_all\<close> are \<open>String.prototype.replace\<close> and \<open>matchAll\<close> over it.
\<close>

subsection \<open>Code units\<close>

type_synonym utext = "nat list"

definition u16 :: "string \<Rightarrow> utext" where
  "u16 s = map of_char s"

definition u_digit :: "nat \<Rightarrow> bool" where
  "u_digit c \<longleftrightarrow> 48 \<le> c \<and> c \<le> 57"

definition u_nat :: "nat \<Rightarrow> utext" where
  "u_nat n = u16 (nat_str n)"

definition u_number :: "utext \<Rightarrow> nat" where
  "u_number ds = foldl (\<lambda>a d. 10 * a + (d - 48)) 0 ds"

definition u_space :: "nat \<Rightarrow> bool" where
  "u_space c \<longleftrightarrow> (9 \<le> c \<and> c \<le> 13) \<or> c = 32 \<or> c = 160 \<or> c = 5760 \<or> (8192 \<le> c \<and> c \<le> 8202) \<or>
     c = 8232 \<or> c = 8233 \<or> c = 8239 \<or> c = 8287 \<or> c = 12288 \<or> c = 65279"

definition u_trim_end :: "utext \<Rightarrow> utext" where
  "u_trim_end s = rev (dropWhile u_space (rev s))"

definition u_trim :: "utext \<Rightarrow> utext" where
  "u_trim s = u_trim_end (dropWhile u_space s)"

definition u_lower :: "utext \<Rightarrow> utext" where
  "u_lower s = map (\<lambda>c. if 65 \<le> c \<and> c \<le> 90 then c + 32 else c) s"

definition u_starts :: "utext \<Rightarrow> utext \<Rightarrow> bool" where
  "u_starts p s \<longleftrightarrow> take (length p) s = p"

primrec u_includes :: "utext \<Rightarrow> utext \<Rightarrow> bool" where
  "u_includes p [] \<longleftrightarrow> p = []"
| "u_includes p (c # s) \<longleftrightarrow> u_starts p (c # s) \<or> u_includes p s"

subsection \<open>Global regular expressions\<close>

type_synonym 'a matcher = "utext \<Rightarrow> ('a \<times> nat) option"

function replace_all :: "'a matcher \<Rightarrow> (utext \<Rightarrow> 'a \<Rightarrow> utext) \<Rightarrow> utext \<Rightarrow> utext" where
  "replace_all m f [] = []"
| "replace_all m f (c # s) = (case m (c # s) of
       None \<Rightarrow> c # replace_all m f s
     | Some (a, n) \<Rightarrow> f (take n (c # s)) a @ replace_all m f (drop (n - 1) s))"
  by pat_completeness auto
termination
  by (relation "measure (\<lambda>(_, _, s). length s)") auto

function match_all :: "'a matcher \<Rightarrow> nat \<Rightarrow> utext \<Rightarrow> (nat \<times> nat \<times> 'a) list" where
  "match_all m i [] = []"
| "match_all m i (c # s) = (case m (c # s) of
       None \<Rightarrow> match_all m (Suc i) s
     | Some (a, n) \<Rightarrow> (i, n, a) # match_all m (i + n) (drop (n - 1) s))"
  by pat_completeness auto
termination
  by (relation "measure (\<lambda>(_, _, s). length s)") auto

subsection \<open>The markers and the two patterns\<close>

abbreviation MENTION_START :: nat where
  "MENTION_START \<equiv> 8291"

abbreviation MENTION_END :: nat where
  "MENTION_END \<equiv> 8292"

abbreviation AT :: nat where
  "AT \<equiv> 64"

text \<open>The characters of the labels: image, ordinal and round.\<close>

abbreviation TU :: nat where
  "TU \<equiv> 22270"

abbreviation DI :: nat where
  "DI \<equiv> 31532"

abbreviation LUN :: nat where
  "LUN \<equiv> 36718"

text \<open>The body \<open>@(?:DI)?(\d+)LUN TU(\d+)\<close> of a mention of an image of a round.\<close>

definition round_mention :: "(utext \<times> utext) matcher" where
  "round_mention s = (case s of
       c # s1 \<Rightarrow>
         (let ordinal = (case s1 of d # _ \<Rightarrow> d = DI | [] \<Rightarrow> False);
              s2 = (if ordinal then tl s1 else s1);
              ds = takeWhile u_digit s2
          in case dropWhile u_digit s2 of
               l # t # r \<Rightarrow>
                 (let es = takeWhile u_digit r in
                  if c = AT \<and> ds \<noteq> [] \<and> l = LUN \<and> t = TU \<and> es \<noteq> []
                  then Some ((ds, es), (if ordinal then 2 else 1) + length ds + 2 + length es) else None)
             | _ \<Rightarrow> None)
     | [] \<Rightarrow> None)"

definition SELECTED_IMAGE_MENTION_RE :: "utext matcher" where
  "SELECTED_IMAGE_MENTION_RE s = (case s of
       c1 # c2 # c3 # r \<Rightarrow>
         if c1 = MENTION_START \<and> c2 = AT \<and> c3 = TU then
           (let ds = takeWhile u_digit r in
            case dropWhile u_digit r of
              e # _ \<Rightarrow> if ds \<noteq> [] \<and> e = MENTION_END then Some (ds, length ds + 4) else None
            | [] \<Rightarrow> None)
         else None
     | _ \<Rightarrow> None)"

definition SELECTED_MENTION_RE :: "(utext \<times> utext option) matcher" where
  "SELECTED_MENTION_RE s = (case SELECTED_IMAGE_MENTION_RE s of
       Some (ds, n) \<Rightarrow> Some ((take (n - 2) (drop 1 s), Some ds), n)
     | None \<Rightarrow>
         if \<not> u_starts [MENTION_START] s then None
         else (case round_mention (drop 1 s) of
             None \<Rightarrow> None
           | Some (_, n) \<Rightarrow> if u_starts [MENTION_END] (drop (1 + n) s)
                            then Some ((take n (drop 1 s), None), n + 2) else None))"

subsection \<open>Labels\<close>

definition getImageMentionLabel :: "nat \<Rightarrow> utext" where
  "getImageMentionLabel index = [AT, TU] @ u_nat (index + 1)"

definition getSelectedTextMentionLabel :: "utext \<Rightarrow> utext" where
  "getSelectedTextMentionLabel s = [MENTION_START] @ s @ [MENTION_END]"

definition getSelectedImageMentionLabel :: "nat \<Rightarrow> utext" where
  "getSelectedImageMentionLabel index = getSelectedTextMentionLabel (getImageMentionLabel index)"

definition stripImageMentionMarkers :: "utext \<Rightarrow> utext" where
  "stripImageMentionMarkers prompt = filter (\<lambda>c. c \<noteq> MENTION_START \<and> c \<noteq> MENTION_END) prompt"

text \<open>The label of a removed image.\<close>

definition removed_label :: utext where
  "removed_label = [AT, 24050, 31227, 38500, TU, 29255]"

subsection \<open>Visible positions\<close>

fun visible_scan :: "nat \<Rightarrow> nat \<Rightarrow> nat \<Rightarrow> utext \<Rightarrow> nat" where
  "visible_scan visibleIndex visible i [] = i"
| "visible_scan visibleIndex visible i (c # s) =
     (if c = MENTION_START \<or> c = MENTION_END then visible_scan visibleIndex visible (Suc i) s
      else if visibleIndex \<le> visible then i
      else visible_scan visibleIndex (Suc visible) (Suc i) s)"

definition getPromptIndexFromVisibleIndex :: "utext \<Rightarrow> nat \<Rightarrow> nat" where
  "getPromptIndexFromVisibleIndex prompt visibleIndex = visible_scan visibleIndex 0 0 prompt"

definition isCursorInSelectedImageMention :: "utext \<Rightarrow> nat \<Rightarrow> bool" where
  "isCursorInSelectedImageMention prompt visibleCursor =
     list_ex (\<lambda>(i, _, body, _).
        let visibleStart = length (stripImageMentionMarkers (take i prompt));
            visibleEnd = visibleStart + length body
        in visibleStart < visibleCursor \<and> visibleCursor \<le> visibleEnd)
       (match_all SELECTED_MENTION_RE 0 prompt)"

definition getAtImageQuery :: "utext \<Rightarrow> nat \<Rightarrow> nat \<Rightarrow> (nat \<times> utext) option" where
  "getAtImageQuery prompt cursor images =
     (if images = 0 then None
      else let beforeCursor = take cursor prompt;
               query = rev (takeWhile (\<lambda>c. c \<noteq> AT) (rev beforeCursor))
           in if AT \<notin> set beforeCursor then None
              else if list_ex u_space query then None
              else Some (length beforeCursor - length query - 1, query))"

text \<open>Only the digits and the label character can match, so lower case matters for Latin letters only in
  that they never match.\<close>

definition imageMentionMatches :: "utext \<Rightarrow> nat \<Rightarrow> bool" where
  "imageMentionMatches query index =
     (let normalized = u_lower (u_trim query);
          oneBasedIndex = u_nat (index + 1);
          label = TU # oneBasedIndex
      in normalized = [] \<or> u_includes normalized oneBasedIndex \<or> u_includes normalized (u_lower label))"

subsection \<open>Insertion\<close>

definition insertImageMention :: "utext \<Rightarrow> nat \<Rightarrow> nat \<Rightarrow> nat \<Rightarrow> utext \<times> nat" where
  "insertImageMention prompt start cursor imageIndex =
     (take start prompt @ getSelectedImageMentionLabel imageIndex @ drop cursor prompt,
      start + length (getImageMentionLabel imageIndex))"

definition insertTextMentionAtVisibleRange :: "utext \<Rightarrow> nat \<Rightarrow> nat \<Rightarrow> utext \<Rightarrow> utext \<times> nat" where
  "insertTextMentionAtVisibleRange prompt start cursor label =
     (let promptStart = getPromptIndexFromVisibleIndex prompt start;
          promptCursor = getPromptIndexFromVisibleIndex prompt cursor
      in (take promptStart prompt @ getSelectedTextMentionLabel label @ drop promptCursor prompt,
          start + length label))"

definition insertImageMentionAtVisibleRange :: "utext \<Rightarrow> nat \<Rightarrow> nat \<Rightarrow> nat \<Rightarrow> utext \<times> nat" where
  "insertImageMentionAtVisibleRange prompt start cursor imageIndex =
     insertTextMentionAtVisibleRange prompt start cursor (getImageMentionLabel imageIndex)"

subsection \<open>Remapping, parts and the text for the API\<close>

record InputImage =
  img_id :: string
  dataUrl :: string

text \<open>\<open>images[Number(n) - 1]\<close>, \<open>undefined\<close> when there is no such image.\<close>

definition image_at :: "InputImage list \<Rightarrow> utext \<Rightarrow> InputImage option" where
  "image_at images ds =
     (let n = u_number ds in if 1 \<le> n \<and> n \<le> length images then Some (images ! (n - 1)) else None)"

primrec findIndex :: "('a \<Rightarrow> bool) \<Rightarrow> 'a list \<Rightarrow> nat option" where
  "findIndex P [] = None"
| "findIndex P (x # xs) = (if P x then Some 0 else map_option Suc (findIndex P xs))"

definition remap_mention ::
  "InputImage list \<Rightarrow> InputImage list \<Rightarrow> (string \<times> string) list \<Rightarrow> utext \<Rightarrow> utext \<Rightarrow> utext" where
  "remap_mention previousImages nextImages equivalentImageIds found n =
     (case image_at previousImages n of
        None \<Rightarrow> found
      | Some previousImage \<Rightarrow>
          let nextImageId = (case map_of equivalentImageIds (img_id previousImage) of
                               Some i \<Rightarrow> i | None \<Rightarrow> img_id previousImage)
          in case findIndex (\<lambda>img. img_id img = nextImageId) nextImages of
               Some nextIndex \<Rightarrow> getSelectedImageMentionLabel nextIndex
             | None \<Rightarrow> removed_label)"

definition remapImageMentionsForOrder ::
  "utext \<Rightarrow> InputImage list \<Rightarrow> InputImage list \<Rightarrow> (string \<times> string) list \<Rightarrow> utext" where
  "remapImageMentionsForOrder prompt previousImages nextImages equivalentImageIds =
     replace_all SELECTED_IMAGE_MENTION_RE
       (remap_mention previousImages nextImages equivalentImageIds) prompt"

datatype PromptMentionPart =
    TextPart utext
  | ImagePart utext nat
  | RoundPart utext utext

text \<open>The loop of \<open>getPromptMentionParts\<close>: the parts so far and the end of the last one.\<close>

fun mention_part ::
  "utext \<Rightarrow> InputImage list \<Rightarrow> PromptMentionPart list \<times> nat \<Rightarrow> nat \<times> nat \<times> utext \<times> utext option \<Rightarrow>
   PromptMentionPart list \<times> nat" where
  "mention_part prompt inputImages (parts, lastIndex) (i, n, body, num) =
     (if (case num of Some ds \<Rightarrow> image_at inputImages ds = None | None \<Rightarrow> False) then (parts, lastIndex)
      else (parts @
            (if lastIndex < i
             then [TextPart (stripImageMentionMarkers (take (i - lastIndex) (drop lastIndex prompt)))] else []) @
            [case num of None \<Rightarrow> RoundPart body (getSelectedTextMentionLabel body)
             | Some ds \<Rightarrow> ImagePart body (u_number ds - 1)],
            i + n))"

definition getPromptMentionParts :: "utext \<Rightarrow> InputImage list \<Rightarrow> PromptMentionPart list" where
  "getPromptMentionParts prompt inputImages =
     (let (parts, lastIndex) = foldl (mention_part prompt inputImages) ([], 0)
            (match_all SELECTED_MENTION_RE 0 prompt);
          parts' = parts @ (if lastIndex < length prompt
                            then [TextPart (stripImageMentionMarkers (drop lastIndex prompt))] else [])
      in if parts' \<noteq> [] then parts' else [TextPart (stripImageMentionMarkers prompt)])"

definition api_mention :: "nat option \<Rightarrow> (int \<Rightarrow> utext) option \<Rightarrow> utext \<Rightarrow> utext \<Rightarrow> utext" where
  "api_mention imageCount formatImage found n =
     (let k = u_number n in
      if (case imageCount of Some most \<Rightarrow> k = 0 \<or> most < k | None \<Rightarrow> False)
      then stripImageMentionMarkers found
      else case formatImage of Some g \<Rightarrow> g (int k - 1) | None \<Rightarrow> u16 ''[image '' @ n @ u16 '']'')"

definition replaceImageMentionsForApi :: "utext \<Rightarrow> nat option \<Rightarrow> (int \<Rightarrow> utext) option \<Rightarrow> utext" where
  "replaceImageMentionsForApi prompt imageCount formatImage =
     replace_all SELECTED_IMAGE_MENTION_RE (api_mention imageCount formatImage) prompt"

subsection \<open>Markers are invisible\<close>

abbreviation strip :: "utext \<Rightarrow> utext" where
  "strip \<equiv> stripImageMentionMarkers"

lemma strip_simps [simp]:
  "strip [] = []"
  "strip (c # s) = (if c = MENTION_START \<or> c = MENTION_END then strip s else c # strip s)"
  "strip (s @ t) = strip s @ strip t"
  by (simp_all add: stripImageMentionMarkers_def)

lemma strip_id: "MENTION_START \<notin> set s \<Longrightarrow> MENTION_END \<notin> set s \<Longrightarrow> strip s = s"
  by (induction s) auto

lemma visible_scan_split:
  "visible \<le> v \<Longrightarrow> \<exists>k. visible_scan v visible i s = i + k \<and>
     strip (take k s) = take (v - visible) (strip s) \<and> strip (drop k s) = drop (v - visible) (strip s)"
proof (induction v visible i s rule: visible_scan.induct)
  case (1 v visible i)
  show ?case by (rule exI [of _ 0]) simp
next
  case (2 v visible i c s)
  consider (marker) "c = MENTION_START \<or> c = MENTION_END"
    | (found) "\<not> (c = MENTION_START \<or> c = MENTION_END)" "v \<le> visible"
    | (more) "\<not> (c = MENTION_START \<or> c = MENTION_END)" "visible < v"
    by linarith
  then show ?case
  proof cases
    case marker
    from "2.IH"(1) [OF marker "2.prems"] obtain k where
      "visible_scan v visible (Suc i) s = Suc i + k"
      "strip (take k s) = take (v - visible) (strip s)" "strip (drop k s) = drop (v - visible) (strip s)"
      by blast
    with marker show ?thesis by (intro exI [of _ "Suc k"]) auto
  next
    case found
    with "2.prems" show ?thesis by (intro exI [of _ 0]) auto
  next
    case more
    from "2.IH"(2) more obtain k where
      "visible_scan v (Suc visible) (Suc i) s = Suc i + k"
      "strip (take k s) = take (v - Suc visible) (strip s)"
      "strip (drop k s) = drop (v - Suc visible) (strip s)"
      by force
    with more show ?thesis
      by (intro exI [of _ "Suc k"]) (auto simp: take_Cons' drop_Cons')
  qed
qed

lemma visible_index_split:
  "strip (take (getPromptIndexFromVisibleIndex p v) p) = take v (strip p)"
  "strip (drop (getPromptIndexFromVisibleIndex p v) p) = drop v (strip p)"
  using visible_scan_split [of 0 v 0 p] by (auto simp: getPromptIndexFromVisibleIndex_def)

text \<open>Inserting a mention at a range of visible positions replaces exactly that range of what the user
  sees: without the markers the new prompt is the visible text before the range, the label, and the
  visible text after it, and the cursor stands behind the label.\<close>

lemma insert_replaces_visible_range:
  assumes "MENTION_START \<notin> set label" "MENTION_END \<notin> set label"
  shows "strip (fst (insertTextMentionAtVisibleRange p start cursor label)) =
           take start (strip p) @ label @ drop cursor (strip p) \<and>
         snd (insertTextMentionAtVisibleRange p start cursor label) = start + length label"
  using assms
  by (simp add: insertTextMentionAtVisibleRange_def Let_def getSelectedTextMentionLabel_def
      visible_index_split strip_id)

subsection \<open>Mentions follow their images\<close>

lemma u_number_u16: "u_number (u16 s) = parse_nat s"
  by (induction s rule: rev_induct)
     (auto simp: u_number_def u16_def parse_nat_def digit_val_def)

lemma u_number_nat [simp]: "u_number (u_nat n) = n"
  by (simp add: u_nat_def u_number_u16)

lemma u_nat_digits: "d \<in> set (u_nat n) \<Longrightarrow> u_digit d"
  using nat_str_digits by (auto simp: u_nat_def u16_def u_digit_def is_digit_def)

lemma u_nat_not_Nil [simp]: "u_nat n \<noteq> []"
  by (simp add: u_nat_def u16_def)

lemma not_digit [simp]: "\<not> u_digit MENTION_START" "\<not> u_digit MENTION_END" "\<not> u_digit AT" "\<not> u_digit TU"
  by (simp_all add: u_digit_def)

definition is_number :: "utext \<Rightarrow> bool" where
  "is_number ds \<longleftrightarrow> ds \<noteq> [] \<and> (\<forall>d \<in> set ds. u_digit d)"

lemma is_number_nat [simp]: "is_number (u_nat n)"
  by (simp add: is_number_def u_nat_digits)

abbreviation markerless :: "utext \<Rightarrow> bool" where
  "markerless s \<equiv> MENTION_START \<notin> set s \<and> MENTION_END \<notin> set s"

lemma markerless_number: "is_number ds \<Longrightarrow> markerless ds"
  using not_digit(1, 2) unfolding is_number_def by blast

lemma digits_before:
  "\<forall>d \<in> set ds. u_digit d \<Longrightarrow> \<not> u_digit c \<Longrightarrow> takeWhile u_digit (ds @ c # s) = ds"
  "\<forall>d \<in> set ds. u_digit d \<Longrightarrow> \<not> u_digit c \<Longrightarrow> dropWhile u_digit (ds @ c # s) = c # s"
  by (induction ds) auto

lemma selected_matches:
  "is_number ds \<Longrightarrow>
   SELECTED_IMAGE_MENTION_RE (MENTION_START # AT # TU # ds @ MENTION_END # s) = Some (ds, length ds + 4)"
  by (simp add: SELECTED_IMAGE_MENTION_RE_def is_number_def digits_before Let_def)

lemma selected_cases:
  assumes "SELECTED_IMAGE_MENTION_RE s = Some (ds, n)"
  shows "is_number ds \<and> n = length ds + 4 \<and> (\<exists>r. s = MENTION_START # AT # TU # ds @ MENTION_END # r)"
proof -
  from assms obtain r e r' where s: "s = MENTION_START # AT # TU # r"
    and ds: "ds = takeWhile u_digit r" "ds \<noteq> []" and e: "dropWhile u_digit r = e # r'" "e = MENTION_END"
    and n: "n = length ds + 4"
    by (auto simp: SELECTED_IMAGE_MENTION_RE_def Let_def split: list.splits if_splits)
  have "r = ds @ MENTION_END # r'" using ds e by (metis takeWhile_dropWhile_id)
  moreover have "is_number ds" using ds by (auto simp: is_number_def dest: set_takeWhileD)
  ultimately show ?thesis using s n by simp
qed

lemma selected_head: "SELECTED_IMAGE_MENTION_RE (c # s) = Some x \<Longrightarrow> c = MENTION_START"
  by (cases x) (auto dest: selected_cases)

lemma match_all_shift: "match_all m (i + k) s = map (\<lambda>(j, n, a). (j + k, n, a)) (match_all m i s)"
proof (induction m i s rule: match_all.induct)
  case (2 m i c s)
  show ?case
  proof (cases "m (c # s)")
    case None
    with "2.IH"(1) [OF None] show ?thesis by simp
  next
    case (Some x)
    obtain a n where x: "x = (a, n)" by (cases x)
    show ?thesis using "2.IH"(2) [OF Some x [symmetric]] Some x by (simp add: ac_simps)
  qed
qed simp

text \<open>The captures of all matches, in order.\<close>

definition captures :: "'a matcher \<Rightarrow> utext \<Rightarrow> 'a list" where
  "captures m p = map (\<lambda>(_, _, a). a) (match_all m 0 p)"

lemma captures_from: "map (\<lambda>(_, _, a). a) (match_all m i s) = captures m s"
proof -
  have "match_all m i s = map (\<lambda>(j, n, a). (j + i, n, a)) (match_all m 0 s)"
    using match_all_shift [of m 0 i s] by simp
  then show ?thesis by (simp add: captures_def comp_def case_prod_unfold)
qed

lemma captures_simps [simp]:
  "captures m [] = []"
  "m (c # s) = None \<Longrightarrow> captures m (c # s) = captures m s"
  "m (c # s) = Some (a, n) \<Longrightarrow> captures m (c # s) = a # captures m (drop (n - 1) s)"
  using captures_from [of m "Suc 0" s] captures_from [of m n "drop (n - 1) s"] by (simp_all add: captures_def)

lemma matcher_induct [case_names empty plain match]:
  assumes "P []"
    and "\<And>c s. m (c # s) = None \<Longrightarrow> P s \<Longrightarrow> P (c # s)"
    and "\<And>c s a n. m (c # s) = Some (a, n) \<Longrightarrow> P (drop (n - 1) s) \<Longrightarrow> P (c # s)"
  shows "P p"
proof (induction p rule: length_induct)
  case (1 p)
  show ?case
  proof (cases p)
    case (Cons c s)
    then show ?thesis using 1 assms(2, 3) [of c s] by (cases "m (c # s)") auto
  qed (simp add: assms(1))
qed

text \<open>A replacement of matches is a rewriting of the captures \<open>a\<close> to \<open>g a\<close> when no match arises across the
  border of a replaced piece and a piece contains just the matches \<open>g a\<close>.\<close>

locale rewriting =
  fixes m :: "'a matcher" and f :: "utext \<Rightarrow> 'a \<Rightarrow> utext" and g :: "'a \<Rightarrow> 'a list"
  assumes no_new: "m (c # s) = None \<Longrightarrow> m (c # replace_all m f s) = None"
    and piece: "m (c # s) = Some (a, n) \<Longrightarrow>
      captures m (f (take n (c # s)) a @ replace_all m f (drop (n - 1) s)) =
      g a @ captures m (replace_all m f (drop (n - 1) s))"
begin

lemma captures_replaced: "captures m (replace_all m f p) = concat (map g (captures m p))"
proof (induction p rule: matcher_induct [where m = m])
  case (plain c s)
  with no_new [OF plain(1)] show ?case by simp
next
  case (match c s a n)
  with piece [OF match(1)] show ?case by simp
qed simp

end

abbreviation mention_numbers :: "utext \<Rightarrow> utext list" where
  "mention_numbers \<equiv> captures SELECTED_IMAGE_MENTION_RE"

text \<open>The images mentioned in a prompt, in order; \<open>None\<close> for a number without an image.\<close>

definition mentioned :: "utext \<Rightarrow> InputImage list \<Rightarrow> string option list" where
  "mentioned p images = map (\<lambda>ds. map_option img_id (image_at images ds)) (mention_numbers p)"

lemma mention_numbers_plain: "MENTION_START \<notin> set s \<Longrightarrow> mention_numbers (s @ t) = mention_numbers t"
proof (induction s)
  case (Cons c s)
  then have "SELECTED_IMAGE_MENTION_RE (c # s @ t) = None"
    by (cases "SELECTED_IMAGE_MENTION_RE (c # s @ t)") (auto dest: selected_head)
  with Cons show ?case by simp
qed simp

lemma mention_numbers_mention:
  "is_number ds \<Longrightarrow> mention_numbers (MENTION_START # AT # TU # ds @ MENTION_END # t) = ds # mention_numbers t"
  using selected_matches [of ds t] by (simp add: numeral_3_eq_3)

lemma mention_numbers_label:
  "mention_numbers (getSelectedImageMentionLabel k @ t) = u_nat (k + 1) # mention_numbers t"
  using mention_numbers_mention [of "u_nat (k + 1)" t]
  by (simp add: getSelectedImageMentionLabel_def getSelectedTextMentionLabel_def getImageMentionLabel_def)

text \<open>Replacements that begin a mention or cannot continue one create no mention across their left border.\<close>

definition no_new_mention :: "(utext \<Rightarrow> utext \<Rightarrow> utext) \<Rightarrow> bool" where
  "no_new_mention f \<longleftrightarrow> (\<forall>s ds n. SELECTED_IMAGE_MENTION_RE s = Some (ds, n) \<longrightarrow>
     (\<exists>r. f (take n s) ds = MENTION_START # r) \<or> (\<exists>x r. f (take n s) ds = AT # x # r \<and> x \<noteq> TU))"

abbreviation mention_map :: "(utext \<Rightarrow> utext \<Rightarrow> utext) \<Rightarrow> utext \<Rightarrow> utext" where
  "mention_map f \<equiv> replace_all SELECTED_IMAGE_MENTION_RE f"

lemma mention_map_uncons:
  assumes "no_new_mention f" "mention_map f s = x # xs" "x \<noteq> MENTION_START"
    and "x = AT \<longrightarrow> (\<exists>ys. xs = TU # ys)"
  shows "\<exists>s'. s = x # s' \<and> mention_map f s' = xs"
proof (cases s)
  case (Cons c r)
  show ?thesis
  proof (cases "SELECTED_IMAGE_MENTION_RE (c # r)")
    case None
    with Cons assms(2) show ?thesis by simp
  next
    case (Some a)
    obtain ds n where a: "a = (ds, n)" by (cases a)
    then have "(\<exists>q. f (take n s) ds = MENTION_START # q) \<or> (\<exists>x q. f (take n s) ds = AT # x # q \<and> x \<noteq> TU)"
      using assms(1) Some Cons unfolding no_new_mention_def by blast
    moreover have "f (take n s) ds @ mention_map f (drop (n - 1) r) = x # xs"
      using assms(2) Some Cons a by simp
    ultimately show ?thesis using assms(3, 4) by (elim disjE exE) auto
  qed
qed (use assms(2) in simp)

lemma mention_map_plain:
  "no_new_mention f \<Longrightarrow> mention_map f s = w @ t \<Longrightarrow> MENTION_START \<notin> set w \<Longrightarrow> AT \<notin> set w \<Longrightarrow> \<exists>t'. s = w @ t'"
proof (induction w arbitrary: s)
  case (Cons x w)
  then obtain s' where "s = x # s'" "mention_map f s' = w @ t"
    using mention_map_uncons [of f s x "w @ t"] by auto
  with Cons show ?case by auto
qed simp

lemma mention_map_None:
  assumes "no_new_mention f" "SELECTED_IMAGE_MENTION_RE (c # s) = None"
  shows "SELECTED_IMAGE_MENTION_RE (c # mention_map f s) = None"
proof (rule ccontr)
  assume "SELECTED_IMAGE_MENTION_RE (c # mention_map f s) \<noteq> None"
  then obtain ds n where "SELECTED_IMAGE_MENTION_RE (c # mention_map f s) = Some (ds, n)" by auto
  then obtain r where ds: "is_number ds" and c: "c = MENTION_START"
    and eq: "mention_map f s = AT # TU # ds @ MENTION_END # r"
    by (auto dest!: selected_cases)
  then obtain s' where s: "s = AT # s'" "mention_map f s' = (TU # ds @ [MENTION_END]) @ r"
    using mention_map_uncons [OF assms(1) eq] by auto
  have "MENTION_START \<notin> set (TU # ds @ [MENTION_END])" "AT \<notin> set (TU # ds @ [MENTION_END])"
    using ds by (auto simp: is_number_def)
  from mention_map_plain [OF assms(1) s(2) this] obtain t' where "s' = (TU # ds @ [MENTION_END]) @ t'" by blast
  with s(1) c ds selected_matches [of ds t'] assms(2) show False by simp
qed

lemma findIndex_Some:
  "findIndex P xs = Some i \<Longrightarrow> i < length xs \<and> P (xs ! i)"
  by (induction xs arbitrary: i) (auto split: if_splits)

lemma findIndex_None: "findIndex P xs = None \<longleftrightarrow> (\<forall>x \<in> set xs. \<not> P x)"
  by (induction xs) auto

lemma image_at_nat: "k < length images \<Longrightarrow> image_at images (u_nat (Suc k)) = Some (images ! k)"
  by (simp add: image_at_def)

lemma remap_no_new: "no_new_mention (remap_mention prev nxt eqv)"
proof (unfold no_new_mention_def, intro allI impI)
  fix s ds n assume m: "SELECTED_IMAGE_MENTION_RE s = Some (ds, n)"
  then have hd: "\<exists>r. take n s = MENTION_START # r" by (auto dest!: selected_cases simp: take_Cons')
  show "(\<exists>r. remap_mention prev nxt eqv (take n s) ds = MENTION_START # r) \<or>
    (\<exists>x r. remap_mention prev nxt eqv (take n s) ds = AT # x # r \<and> x \<noteq> TU)"
    using hd by (auto simp: remap_mention_def Let_def removed_label_def getSelectedImageMentionLabel_def
        getSelectedTextMentionLabel_def split: option.splits)
qed

definition moved_id :: "(string \<times> string) list \<Rightarrow> string \<Rightarrow> string" where
  "moved_id eqv i = (case map_of eqv i of Some j \<Rightarrow> j | None \<Rightarrow> i)"

text \<open>One mention: it is renumbered to the place of its image, or becomes the label of a removed image.\<close>

text \<open>The number a mention becomes: that of the place of its image, or none for a removed image.\<close>

definition renumbered ::
  "InputImage list \<Rightarrow> InputImage list \<Rightarrow> (string \<times> string) list \<Rightarrow> utext \<Rightarrow> utext list" where
  "renumbered prev nxt eqv ds = (case image_at prev ds of
       None \<Rightarrow> [ds]
     | Some img \<Rightarrow> (case findIndex (\<lambda>x. img_id x = moved_id eqv (img_id img)) nxt of
          None \<Rightarrow> [] | Some k \<Rightarrow> [u_nat (Suc k)]))"

lemma remap_piece:
  assumes "SELECTED_IMAGE_MENTION_RE s = Some (ds, n)"
  shows "mention_numbers (remap_mention prev nxt eqv (take n s) ds @ t) =
         renumbered prev nxt eqv ds @ mention_numbers t"
proof (cases "image_at prev ds")
  case None
  from selected_cases [OF assms] obtain r where "is_number ds" "n = length ds + 4"
    "s = MENTION_START # AT # TU # ds @ MENTION_END # r" by blast
  then have "take n s @ t = MENTION_START # AT # TU # ds @ MENTION_END # t" "is_number ds"
    by (simp_all add: take_Cons')
  with None mention_numbers_mention [of ds t] show ?thesis by (simp add: remap_mention_def renumbered_def)
next
  case (Some img)
  have "mention_numbers (removed_label @ t) = mention_numbers t"
    by (rule mention_numbers_plain) (simp add: removed_label_def)
  with Some mention_numbers_label [of _ t] show ?thesis
    by (auto simp: remap_mention_def renumbered_def moved_id_def Let_def split: option.splits)
qed

interpretation image_remap: rewriting SELECTED_IMAGE_MENTION_RE "remap_mention prev nxt eqv" "renumbered prev nxt eqv"
  for prev nxt eqv
  by unfold_locales (simp_all only: mention_map_None [OF remap_no_new] remap_piece)

lemma renumbered_image:
  assumes "image_at prev ds = Some img"
  shows "map (\<lambda>ds. map_option img_id (image_at nxt ds)) (renumbered prev nxt eqv ds) =
         map Some (filter (\<lambda>i. i \<in> img_id ` set nxt) [moved_id eqv (img_id img)])"
proof (cases "findIndex (\<lambda>x. img_id x = moved_id eqv (img_id img)) nxt")
  case None
  then have "moved_id eqv (img_id img) \<notin> img_id ` set nxt" by (auto simp: findIndex_None)
  with None assms show ?thesis by (simp add: renumbered_def)
next
  case (Some k)
  then have "k < length nxt" "img_id (nxt ! k) = moved_id eqv (img_id img)"
    using findIndex_Some by fastforce+
  moreover from this have "moved_id eqv (img_id img) \<in> img_id ` set nxt" by (metis image_eqI nth_mem)
  ultimately show ?thesis using Some assms by (simp add: renumbered_def image_at_nat)
qed

text \<open>C11: When the input images are reordered, replaced or removed, the mentions of a prompt follow their
  images: read against the new images, the new prompt mentions exactly the images the old prompt mentioned,
  in the same order and under their equivalent ids, except those that are gone.\<close>

theorem mentions_follow_images:
  assumes "\<forall>ds \<in> set (mention_numbers p). image_at prev ds \<noteq> None"
  shows "mentioned (remapImageMentionsForOrder p prev nxt eqv) nxt =
         map Some (filter (\<lambda>i. i \<in> img_id ` set nxt) (map (moved_id eqv) (map the (mentioned p prev))))"
proof -
  have "map (\<lambda>ds. map_option img_id (image_at nxt ds)) (concat (map (renumbered prev nxt eqv) nums)) =
      map Some (filter (\<lambda>i. i \<in> img_id ` set nxt)
        (map (moved_id eqv) (map the (map (\<lambda>ds. map_option img_id (image_at prev ds)) nums))))"
    if "\<forall>ds \<in> set nums. image_at prev ds \<noteq> None" for nums
    using that
  proof (induction nums)
    case (Cons ds nums)
    then obtain img where "image_at prev ds = Some img" by auto
    with Cons renumbered_image [of prev ds img nxt eqv] show ?case by simp
  qed simp
  from this [OF assms] show ?thesis
    by (simp add: mentioned_def remapImageMentionsForOrder_def image_remap.captures_replaced)
qed

definition sample_images :: "InputImage list" where
  "sample_images = [\<lparr>img_id = ''cat'', dataUrl = []\<rparr>, \<lparr>img_id = ''dog'', dataUrl = []\<rparr>]"

definition sample_prompt :: utext where
  "sample_prompt = u16 ''put '' @ getSelectedImageMentionLabel 1 @ u16 '' on '' @ getSelectedImageMentionLabel 0"

lemma sample_numbers: "mention_numbers sample_prompt = [u_nat 2, u_nat 1]"
proof -
  have e: "mention_numbers (getSelectedImageMentionLabel 0) = [u_nat 1]"
    using mention_numbers_label [of 0 "[]"] by simp
  have p: "mention_numbers (u16 ''put '' @ t) = mention_numbers t"
    "mention_numbers (u16 '' on '' @ t) = mention_numbers t" for t
    by (rule mention_numbers_plain, simp add: u16_def)+
  show ?thesis unfolding sample_prompt_def p mention_numbers_label e by (simp add: numeral_2_eq_2)
qed

theorem mentions_follow_images_witness:
  "mentioned (remapImageMentionsForOrder sample_prompt sample_images (tl sample_images) []) (tl sample_images) =
     [Some ''dog'']"
proof -
  have h: "\<forall>ds \<in> set (mention_numbers sample_prompt). image_at sample_images ds \<noteq> None"
    by (simp add: sample_numbers sample_images_def image_at_def)
  show ?thesis
    using mentions_follow_images [OF h, of "tl sample_images" "[]"]
    by (simp add: mentioned_def sample_numbers sample_images_def image_at_def moved_id_def)
qed

subsection \<open>Parts of a prompt\<close>

fun part_text :: "PromptMentionPart \<Rightarrow> utext" where
  "part_text (TextPart t) = t"
| "part_text (ImagePart t _) = t"
| "part_text (RoundPart t _) = t"

lemma markerless_digits: "markerless (takeWhile u_digit s)"
  by (auto dest: set_takeWhileD)

lemma not_digit_labels [simp]: "\<not> u_digit DI" "\<not> u_digit LUN"
  by (simp_all add: u_digit_def)

lemma digits_of_number: "is_number ds \<Longrightarrow> takeWhile u_digit (ds @ r) = ds @ takeWhile u_digit r"
  by (simp add: is_number_def)

lemma round_mention_matches:
  assumes "ord = [] \<or> ord = [DI]" "is_number ds" "is_number es"
  shows "round_mention (AT # ord @ ds @ LUN # TU # es @ r) =
    Some ((ds, es @ takeWhile u_digit r), 3 + length ord + length ds + length (es @ takeWhile u_digit r))"
proof -
  from assms(2) obtain d ds' where "ds = d # ds'" "d \<noteq> DI" by (cases ds) (auto simp: is_number_def u_digit_def)
  moreover have "takeWhile u_digit (ds @ LUN # TU # es @ r) = ds"
    "dropWhile u_digit (ds @ LUN # TU # es @ r) = LUN # TU # es @ r"
    using assms(2) by (simp_all add: is_number_def)
  ultimately show ?thesis
    using assms(1, 3) digits_of_number [OF assms(3), of r] by (auto simp: round_mention_def Let_def is_number_def)
qed

lemma round_mention_cases:
  assumes "round_mention s = Some ((ds, es), n)"
  obtains ord r where "ord = [] \<or> ord = [DI]" "is_number ds" "is_number es"
    "s = AT # ord @ ds @ LUN # TU # es @ r" "n = 3 + length ord + length ds + length es" "takeWhile u_digit r = []"
proof -
  from assms obtain c s1 where cs: "s = c # s1" by (cases s) (auto simp: round_mention_def)
  define odn where "odn = (case s1 of d # _ \<Rightarrow> d = DI | [] \<Rightarrow> False)"
  define s2 where "s2 = (if odn then tl s1 else s1)"
  have o: "s1 = (if odn then [DI] else []) @ s2"
    by (cases s1) (auto simp: odn_def s2_def)
  have "(case dropWhile u_digit s2 of
      l # t # r \<Rightarrow> (let es = takeWhile u_digit r in
        if c = AT \<and> takeWhile u_digit s2 \<noteq> [] \<and> l = LUN \<and> t = TU \<and> es \<noteq> []
        then Some ((takeWhile u_digit s2, es), (if odn then 2 else 1) + length (takeWhile u_digit s2) + 2 + length es)
        else None)
    | _ \<Rightarrow> None) = Some ((ds, es), n)"
    using assms unfolding round_mention_def cs list.case Let_def odn_def s2_def .
  then obtain q where d: "dropWhile u_digit s2 = LUN # TU # q" "ds = takeWhile u_digit s2" "es = takeWhile u_digit q"
    and ne: "ds \<noteq> []" "es \<noteq> []" and s: "s = AT # s1"
    and n: "n = (if odn then 2 else 1) + length ds + 2 + length es"
    using cs by (auto simp: Let_def split: list.splits if_splits)
  have "s2 = ds @ LUN # TU # es @ dropWhile u_digit q"
    using d by (metis takeWhile_dropWhile_id)
  moreover have "is_number ds" "is_number es" using d ne by (auto simp: is_number_def dest: set_takeWhileD)
  moreover have "takeWhile u_digit (dropWhile u_digit q) = []" by (induction q) auto
  ultimately show ?thesis
    using that [of "if odn then [DI] else []" "dropWhile u_digit q"] s o n by simp
qed

lemma round_mention_body:
  assumes "round_mention s = Some (x, n)"
  shows "\<exists>r. s = take n s @ r \<and> length (take n s) = n \<and> markerless (take n s)"
proof -
  obtain ds es where x: "x = (ds, es)" by (cases x)
  from assms [unfolded x] show ?thesis
  proof (cases rule: round_mention_cases)
    case (1 ord r)
    let ?b = "AT # ord @ ds @ LUN # TU # es"
    have "s = ?b @ r" "length ?b = n" using 1 by simp_all
    moreover have "markerless ?b" using 1 markerless_number by auto
    ultimately show ?thesis by (intro exI [of _ r]) auto
  qed
qed

lemma selected_mention_body:
  assumes "SELECTED_MENTION_RE s = Some ((body, num), n)"
  shows "\<exists>r. s = MENTION_START # body @ MENTION_END # r \<and> n = length body + 2 \<and> markerless body"
proof (cases "SELECTED_IMAGE_MENTION_RE s")
  case None
  with assms obtain s' x k where "s = MENTION_START # s'" "round_mention s' = Some (x, k)"
    "take 1 (drop k s') = [MENTION_END]" "body = take k s'" "n = k + 2"
    by (cases s) (auto simp: SELECTED_MENTION_RE_def u_starts_def split: option.splits if_splits)
  moreover from this obtain r where "drop k s' = MENTION_END # r" by (cases "drop k s'") auto
  moreover have "s' = take k s' @ drop k s'" by simp
  ultimately show ?thesis using round_mention_body [of s' x k] by (intro exI [of _ r]) simp
next
  case (Some y)
  obtain ds k where "y = (ds, k)" by (cases y)
  with Some selected_cases [of s ds k] obtain r where
    "is_number ds" "k = length ds + 4" "s = MENTION_START # AT # TU # ds @ MENTION_END # r" by auto
  with assms Some \<open>y = (ds, k)\<close> markerless_number [of ds] show ?thesis
    by (auto simp: SELECTED_MENTION_RE_def)
qed

lemma mention_part_strip:
  assumes "drop i p = MENTION_START # body @ MENTION_END # r" "n = length body + 2" "markerless body"
    and "seen \<le> i" "concat (map part_text parts) = strip (take seen p)"
    and "mention_part p images (parts, seen) (i, n, body, num) = (parts', seen')"
  shows "concat (map part_text parts') = strip (take seen' p) \<and> seen' \<le> i + n"
proof (cases "case num of Some ds \<Rightarrow> image_at images ds = None | None \<Rightarrow> False")
  case True
  with assms show ?thesis by simp
next
  case False
  have body: "strip body = body" using assms(3) by (simp add: strip_id)
  have "take (i + n) p = take seen p @ take (i - seen) (drop seen p) @ take n (drop i p)"
    using assms(4) by (metis append.assoc le_add_diff_inverse take_add)
  then have "strip (take (i + n) p) = strip (take seen p) @ strip (take (i - seen) (drop seen p)) @ body"
    using assms(1, 2) body by simp
  moreover have "seen' = i + n" using False assms(6) by auto
  moreover have "concat (map part_text parts') =
      concat (map part_text parts) @ strip (take (i - seen) (drop seen p)) @ body"
    using False assms(6) by (auto split: option.splits if_splits)
  ultimately show ?thesis using assms(5) by simp
qed

lemma mention_parts_strip:
  assumes "drop i p = s" "i + length s = length p" "seen \<le> i"
    and "concat (map part_text parts) = strip (take seen p)"
    and "foldl (mention_part p images) (parts, seen) (match_all SELECTED_MENTION_RE i s) = (parts', seen')"
  shows "concat (map part_text parts') = strip (take seen' p)"
  using assms
proof (induction SELECTED_MENTION_RE i s arbitrary: parts seen rule: match_all.induct)
  case (2 i c s)
  show ?case
  proof (cases "SELECTED_MENTION_RE (c # s)")
    case None
    have "drop (Suc i) p = s" using "2.prems"(1) by (metis drop_Suc list.sel(3) tl_drop)
    with "2.hyps"(1) [OF None _ _ _ "2.prems"(4)] "2.prems" None show ?thesis by simp
  next
    case (Some x)
    obtain body num n where x: "x = ((body, num), n)" by (metis prod.exhaust)
    from selected_mention_body [OF Some [unfolded x]] obtain r where
      r: "c # s = MENTION_START # body @ MENTION_END # r" "n = length body + 2" "markerless body" by blast
    obtain parts1 seen1 where st: "mention_part p images (parts, seen) (i, n, body, num) = (parts1, seen1)"
      by (metis prod.exhaust)
    have m: "concat (map part_text parts1) = strip (take seen1 p)" "seen1 \<le> i + n"
      using mention_part_strip [OF _ r(2, 3) "2.prems"(3, 4) st] r(1) "2.prems"(1) by simp_all
    have "drop (i + n) p = drop n (c # s)" using "2.prems"(1) by (metis add.commute drop_drop)
    then have d: "drop (i + n) p = drop (n - 1) s" using r(2) by simp
    have "n \<le> length (c # s)" using r by simp
    then have l: "i + n + length (drop (n - 1) s) = length p" using "2.prems"(2) r(2) by simp
    show ?thesis using "2.hyps"(2) [OF Some x [symmetric] d l m(2, 1)] "2.prems"(5) Some x st by simp
  qed
qed simp

text \<open>C13: The parts a prompt is displayed in are a partition of it: put together, their texts are the
  prompt without its markers, whatever the prompt and the images are.\<close>

theorem parts_show_prompt: "concat (map part_text (getPromptMentionParts p images)) = strip p"
proof -
  obtain parts seen where f: "foldl (mention_part p images) ([], 0) (match_all SELECTED_MENTION_RE 0 p) = (parts, seen)"
    by (metis prod.exhaust)
  have "concat (map part_text parts) = strip (take seen p)"
    using mention_parts_strip [OF _ _ _ _ f] by simp
  moreover have "strip p = strip (take seen p) @ strip (drop seen p)"
    by (metis append_take_drop_id strip_simps(3))
  ultimately show ?thesis using f by (auto simp: getPromptMentionParts_def Let_def)
qed

end
