(* ===== verification/Agent_Rounds.thy ===== *)
theory Agent_Rounds
  imports Image_Mentions
begin

section \<open>Image workbench: the tree of rounds of a conversation\<close>

text \<open>
  The conversations of the agent mode in \<open>web/gpt-image-playground/src/store.ts\<close>: rounds linked by
  \<open>parentRoundId\<close>, the path to a round, the latest leaf below a round, the numbering of the rounds and the
  deletion of a round with its effect on mentions of round images.

  An optional property that is undefined or null is \<open>None\<close>.  \<open>leaf_walk\<close> and \<open>visit\<close> follow the links
  downwards without remembering where they were, so they are partial functions: \<open>None\<close> is a call that does
  not return (for the recursive \<open>visit\<close>, one that exhausts the stack).  \<open>path_walk\<close> keeps the set of rounds it
  has seen and is total.
\<close>

subsection \<open>Rounds, messages and conversations\<close>

datatype AgentRoundStatus = Running | Done | Failed

datatype AgentMessageRole = User | Assistant

record AgentRound =
  r_id :: string
  r_index :: jsnum
  r_parentRoundId :: "string option"
  r_userMessageId :: string
  r_assistantMessageId :: "string option"
  r_prompt :: utext
  r_inputImageIds :: "string list"
  r_maskTargetImageId :: "string option"
  r_maskImageId :: "string option"
  r_outputTaskIds :: "string list"
  r_responseId :: "string option"
  r_responseOutput :: "jsval list option"
  r_status :: AgentRoundStatus
  r_error :: "utext option"
  r_createdAt :: jsnum
  r_finishedAt :: "jsnum option"

record AgentMessage =
  m_id :: string
  m_role :: AgentMessageRole
  m_content :: utext
  m_roundId :: string
  m_inputImageIds :: "string list option"
  m_maskTargetImageId :: "string option"
  m_maskImageId :: "string option"
  m_outputTaskIds :: "string list option"
  m_createdAt :: jsnum

record AgentConversation =
  c_id :: string
  c_title :: utext
  c_activeRoundId :: "string option"
  c_createdAt :: jsnum
  c_updatedAt :: jsnum
  c_rounds :: "AgentRound list"
  c_messages :: "AgentMessage list"

subsection \<open>Walks along the links\<close>

text \<open>\<open>new Map(rounds.map((round) => [round.id, round])).get(id)\<close>: the last round with the id.\<close>

definition byId :: "AgentRound list \<Rightarrow> string \<Rightarrow> AgentRound option" where
  "byId rounds i = map_of (rev (map (\<lambda>r. (r_id r, r)) rounds)) i"

definition parent_round :: "AgentRound list \<Rightarrow> AgentRound \<Rightarrow> AgentRound option" where
  "parent_round rounds r = (case r_parentRoundId r of
       None \<Rightarrow> None | Some p \<Rightarrow> if p = [] then None else byId rounds p)"

lemma byId_id: "byId rounds i = Some r \<Longrightarrow> r \<in> set rounds \<and> r_id r = i"
  by (auto simp: byId_def dest!: map_of_SomeD)

lemma parent_round_mem: "parent_round rounds r = Some p \<Longrightarrow> p \<in> set rounds"
  by (auto simp: parent_round_def dest: byId_id split: option.splits if_splits)

function path_walk :: "AgentRound list \<Rightarrow> string list \<Rightarrow> AgentRound list \<Rightarrow> AgentRound option \<Rightarrow> AgentRound list" where
  "path_walk rounds seen path None = path"
| "path_walk rounds seen path (Some current) =
     (if r_id current \<in> set seen then path
      else path_walk rounds (r_id current # seen) (current # path) (parent_round rounds current))"
  by pat_completeness auto
termination
proof (relation "measure (\<lambda>(rounds, seen, _, current). case current of None \<Rightarrow> 0
    | Some r \<Rightarrow> Suc (card (insert (r_id r) (r_id ` set rounds) - set seen)))", goal_cases)
  case (2 rounds seen path current)
  show ?case
  proof (cases "parent_round rounds current")
    case (Some p)
    then have "insert (r_id p) (r_id ` set rounds) = r_id ` set rounds" using parent_round_mem by blast
    moreover have "r_id ` set rounds - set (r_id current # seen) \<subset>
        insert (r_id current) (r_id ` set rounds) - set seen" using 2 by auto
    then have "card (r_id ` set rounds - set (r_id current # seen)) <
        card (insert (r_id current) (r_id ` set rounds) - set seen)" by (rule psubset_card_mono [rotated]) simp
    ultimately show ?thesis using Some by simp
  qed (use 2 in simp)
qed simp

definition getAgentRoundPath :: "AgentConversation \<Rightarrow> string option \<Rightarrow> AgentRound list" where
  "getAgentRoundPath conversation roundId = (case roundId of
       None \<Rightarrow> []
     | Some i \<Rightarrow> if i = [] then []
                 else path_walk (c_rounds conversation) [] [] (byId (c_rounds conversation) i))"

definition getAgentRoundChildren :: "AgentConversation \<Rightarrow> string option \<Rightarrow> AgentRound list" where
  "getAgentRoundChildren conversation parentRoundId =
     filter (\<lambda>r. r_parentRoundId r = parentRoundId) (c_rounds conversation)"

definition last_id :: "AgentRound list \<Rightarrow> string option" where
  "last_id rounds = (if rounds = [] then None else Some (r_id (last rounds)))"

partial_function (option) leaf_walk :: "AgentConversation \<Rightarrow> string \<Rightarrow> string option option" where
  "leaf_walk conversation currentId =
     (if currentId = [] then Some None
      else case last_id (getAgentRoundChildren conversation (Some currentId)) of
        None \<Rightarrow> Some (Some currentId)
      | Some nextId \<Rightarrow> if nextId = [] then Some (Some currentId) else leaf_walk conversation nextId)"

definition getLatestAgentLeafId :: "AgentConversation \<Rightarrow> string option \<Rightarrow> string option option" where
  "getLatestAgentLeafId conversation startRoundId =
     (let currentId = (if startRoundId = None \<or> startRoundId = Some []
                       then last_id (getAgentRoundChildren conversation None) else startRoundId)
      in case currentId of None \<Rightarrow> Some None | Some i \<Rightarrow> leaf_walk conversation i)"

definition getActiveAgentRounds :: "AgentConversation \<Rightarrow> AgentRound list option" where
  "getActiveAgentRounds conversation =
     map_option (getAgentRoundPath conversation)
       (case c_activeRoundId conversation of
          Some i \<Rightarrow> if i \<noteq> [] \<and> list_ex (\<lambda>r. r_id r = i) (c_rounds conversation) then Some (Some i)
                    else getLatestAgentLeafId conversation None
        | None \<Rightarrow> getLatestAgentLeafId conversation None)"

definition getAgentSiblingRounds :: "AgentConversation \<Rightarrow> AgentRound \<Rightarrow> AgentRound list" where
  "getAgentSiblingRounds conversation r = getAgentRoundChildren conversation (r_parentRoundId r)"

definition getAgentBranchLeafId :: "AgentConversation \<Rightarrow> string \<Rightarrow> string option" where
  "getAgentBranchLeafId conversation roundId =
     map_option (\<lambda>leaf. case leaf of None \<Rightarrow> roundId | Some i \<Rightarrow> i)
       (getLatestAgentLeafId conversation (Some roundId))"

subsection \<open>Numbering\<close>

text \<open>The recursion \<open>visit\<close> of \<open>reindexAgentRounds\<close> with its pending calls as a stack: a round is numbered,
  then its children, then its next sibling.\<close>

partial_function (option) visit ::
  "AgentConversation \<Rightarrow> (AgentRound \<times> nat) list \<Rightarrow> (string \<times> nat) list \<Rightarrow> (string \<times> nat) list option" where
  "visit conversation pending indexById = (case pending of
       [] \<Rightarrow> Some indexById
     | (child, depth) # rest \<Rightarrow>
         visit conversation
           (map (\<lambda>r. (r, Suc depth)) (getAgentRoundChildren conversation (Some (r_id child))) @ rest)
           ((r_id child, depth) # indexById))"

definition renumber :: "(string \<times> nat) list \<Rightarrow> AgentRound \<Rightarrow> AgentRound" where
  "renumber indexById r = (case map_of indexById (r_id r) of
       None \<Rightarrow> r | Some depth \<Rightarrow> r\<lparr>r_index := Fin (of_nat depth)\<rparr>)"

definition reindexAgentRounds :: "AgentConversation \<Rightarrow> AgentConversation option" where
  "reindexAgentRounds conversation =
     map_option (\<lambda>indexById. conversation\<lparr>c_rounds := map (renumber indexById) (c_rounds conversation)\<rparr>)
       (visit conversation (map (\<lambda>r. (r, 1)) (getAgentRoundChildren conversation None)) [])"

subsection \<open>Mentions of round images and deletion\<close>

text \<open>The label of an image of a deleted round.\<close>

definition deleted_label :: utext where
  "deleted_label = [AT, 24050, 21024, 38500, LUN, 27425, TU]"

definition round_label :: "nat \<Rightarrow> utext \<Rightarrow> utext" where
  "round_label n imageNumber = [AT, DI] @ u_nat n @ [LUN, TU] @ imageNumber"

definition round_at :: "AgentRound list \<Rightarrow> utext \<Rightarrow> AgentRound option" where
  "round_at path ds = (let n = u_number ds in if 1 \<le> n \<and> n \<le> length path then Some (path ! (n - 1)) else None)"

text \<open>\<open>new Map(newPath.map((round, index) => [round.id, index + 1])).get(id)\<close>.\<close>

definition path_number :: "AgentRound list \<Rightarrow> string \<Rightarrow> nat option" where
  "path_number path i = map_of (rev (zip (map r_id path) [1..<Suc (length path)])) i"

definition remap_round_mention :: "AgentRound list \<Rightarrow> AgentRound list \<Rightarrow> utext \<Rightarrow> utext \<times> utext \<Rightarrow> utext" where
  "remap_round_mention oldPath newPath found numbers =
     (case round_at oldPath (fst numbers) of
        None \<Rightarrow> found
      | Some oldRound \<Rightarrow>
          (case path_number newPath (r_id oldRound) of
             None \<Rightarrow> deleted_label @ snd numbers
           | Some newRoundIndex \<Rightarrow> round_label newRoundIndex (snd numbers)))"

definition remapAgentRoundMentionsForPathChange ::
  "utext \<Rightarrow> AgentRound list \<Rightarrow> AgentRound list \<Rightarrow> utext" where
  "remapAgentRoundMentionsForPathChange content oldPath newPath =
     (if content = [] \<or> oldPath = [] then content
      else replace_all round_mention (remap_round_mention oldPath newPath) content)"

definition reparent :: "string \<Rightarrow> string option \<Rightarrow> AgentRound \<Rightarrow> AgentRound" where
  "reparent roundId newParent r =
     (if r_parentRoundId r = Some roundId then r\<lparr>r_parentRoundId := newParent\<rparr> else r)"

definition remap_message :: "AgentConversation \<Rightarrow> AgentConversation \<Rightarrow> AgentMessage \<Rightarrow> AgentMessage" where
  "remap_message old new message =
     (if m_roundId message = [] then message
      else message\<lparr>m_content := remapAgentRoundMentionsForPathChange (m_content message)
             (getAgentRoundPath old (Some (m_roundId message)))
             (getAgentRoundPath new (Some (m_roundId message)))\<rparr>)"

definition without_round :: "AgentConversation \<Rightarrow> AgentRound \<Rightarrow> string \<Rightarrow> AgentConversation" where
  "without_round conversation targetRound roundId = conversation\<lparr>
     c_rounds := map (reparent roundId (r_parentRoundId targetRound))
                   (filter (\<lambda>r. r_id r \<noteq> roundId) (c_rounds conversation)),
     c_messages := filter (\<lambda>m. m_roundId m \<noteq> roundId) (c_messages conversation),
     c_activeRoundId := (if c_activeRoundId conversation = Some roundId then None
                         else c_activeRoundId conversation)\<rparr>"

definition deleteAgentRoundFromConversation ::
  "AgentConversation \<Rightarrow> string \<Rightarrow> jsnum \<Rightarrow> AgentConversation option" where
  "deleteAgentRoundFromConversation conversation roundId now =
     (case List.find (\<lambda>r. r_id r = roundId) (c_rounds conversation) of
        None \<Rightarrow> Some conversation
      | Some targetRound \<Rightarrow>
          (case reindexAgentRounds (without_round conversation targetRound roundId) of
             None \<Rightarrow> None
           | Some nextConversation \<Rightarrow>
               (let withRemappedMessages = nextConversation\<lparr>c_messages :=
                      map (remap_message conversation nextConversation) (c_messages nextConversation)\<rparr>
                in map_option (\<lambda>activeRounds. withRemappedMessages\<lparr>
                       c_activeRoundId := (case c_activeRoundId withRemappedMessages of
                           Some i \<Rightarrow> Some i | None \<Rightarrow> last_id activeRounds),
                       c_updatedAt := now\<rparr>)
                     (getActiveAgentRounds withRemappedMessages))))"

declare leaf_walk.simps [code] visit.simps [code]

subsection \<open>Links between rounds with distinct ids\<close>

definition ids_ok :: "AgentRound list \<Rightarrow> bool" where
  "ids_ok rounds \<longleftrightarrow> distinct (map r_id rounds) \<and> [] \<notin> r_id ` set rounds"

lemma byId_iff: "ids_ok rounds \<Longrightarrow> byId rounds i = Some r \<longleftrightarrow> r \<in> set rounds \<and> r_id r = i"
  unfolding byId_def ids_ok_def
  by (subst map_of_eq_Some_iff) (auto simp: distinct_map comp_def simp flip: rev_map)

lemma byId_None: "byId rounds i = None \<longleftrightarrow> i \<notin> r_id ` set rounds"
  by (force simp: byId_def map_of_eq_None_iff)

lemma byId_self: "ids_ok rounds \<Longrightarrow> r \<in> set rounds \<Longrightarrow> byId rounds (r_id r) = Some r"
  by (simp add: byId_iff)

lemma same_id: "ids_ok rounds \<Longrightarrow> r \<in> set rounds \<Longrightarrow> s \<in> set rounds \<Longrightarrow> r_id r = r_id s \<Longrightarrow> r = s"
  by (auto simp: ids_ok_def distinct_map inj_on_def)

text \<open>The chain of rounds from a root to a round.\<close>

inductive path_to :: "AgentRound list \<Rightarrow> string \<Rightarrow> AgentRound list \<Rightarrow> bool" for rounds where
  root: "r \<in> set rounds \<Longrightarrow> r_parentRoundId r = None \<Longrightarrow> path_to rounds (r_id r) [r]"
| child: "r \<in> set rounds \<Longrightarrow> r_parentRoundId r = Some p \<Longrightarrow> path_to rounds p ps \<Longrightarrow>
    path_to rounds (r_id r) (ps @ [r])"

definition rooted :: "AgentRound list \<Rightarrow> string \<Rightarrow> bool" where
  "rooted rounds i \<longleftrightarrow> (\<exists>ps. path_to rounds i ps)"

lemma path_to_last: "path_to rounds i ps \<Longrightarrow> ps \<noteq> [] \<and> last ps \<in> set rounds \<and> r_id (last ps) = i"
  by (induction rule: path_to.induct) auto

lemma path_to_nonempty: "ids_ok rounds \<Longrightarrow> path_to rounds i ps \<Longrightarrow> i \<noteq> []"
  using path_to_last [of rounds i ps] unfolding ids_ok_def by (metis image_eqI)

lemma path_to_mem: "path_to rounds i ps \<Longrightarrow> set ps \<subseteq> set rounds"
  by (induction rule: path_to.induct) auto

lemma path_to_unique:
  assumes "ids_ok rounds" "path_to rounds i ps" "path_to rounds i qs"
  shows "qs = ps"
  using assms(2, 3)
proof (induction arbitrary: qs rule: path_to.induct)
  case (root r)
  from root(3) show ?case
  proof (cases rule: path_to.cases)
    case (root s)
    with same_id [OF assms(1), of s r] \<open>r \<in> set rounds\<close> show ?thesis by simp
  next
    case (child s p ps)
    with same_id [OF assms(1), of s r] root(1, 2) show ?thesis by simp
  qed
next
  case (child r p ps)
  note r = child(1, 2) and IH = child(4)
  from child(5) show ?case
  proof (cases rule: path_to.cases)
    case (root s)
    with same_id [OF assms(1), of s r] r show ?thesis by simp
  next
    case (child s q ps')
    then have "s = r" using same_id [OF assms(1), of s r] r(1) by simp
    with child r IH [of ps'] show ?thesis by simp
  qed
qed

lemma path_to_prefix:
  "path_to rounds i ps \<Longrightarrow> r \<in> set ps \<Longrightarrow> \<exists>k < length ps. path_to rounds (r_id r) (take (Suc k) ps)"
proof (induction rule: path_to.induct)
  case (root s)
  then show ?case by (auto intro: path_to.root)
next
  case (child s p ps)
  show ?case
  proof (cases "r \<in> set ps")
    case True
    with child.IH obtain k where "k < length ps" "path_to rounds (r_id r) (take (Suc k) ps)" by blast
    then show ?thesis by (intro exI [of _ k]) simp
  next
    case False
    with child show ?thesis by (intro exI [of _ "length ps"]) (auto intro: path_to.child)
  qed
qed

lemma path_to_fresh:
  assumes "ids_ok rounds" "r \<in> set rounds" "r_parentRoundId r = Some p" "path_to rounds p ps"
  shows "r_id r \<notin> r_id ` set ps"
proof
  assume "r_id r \<in> r_id ` set ps"
  then obtain s where "s \<in> set ps" "r_id s = r_id r" by auto
  with path_to_prefix [OF assms(4)] obtain k where k: "k < length ps" "path_to rounds (r_id r) (take (Suc k) ps)"
    by metis
  from path_to_unique [OF assms(1) k(2) path_to.child [OF assms(2, 3, 4)]] have
    "length (ps @ [r]) = length (take (Suc k) ps)" by simp
  with k(1) show False by simp
qed

lemma path_to_distinct:
  assumes "ids_ok rounds" "path_to rounds i ps"
  shows "distinct (map r_id ps)"
  using assms(2)
proof (induction rule: path_to.induct)
  case (child r p ps)
  with path_to_fresh [OF assms(1) child(1, 2, 3)] show ?case by simp
qed simp

lemma path_to_length:
  assumes "ids_ok rounds" "path_to rounds i ps"
  shows "length ps \<le> length rounds"
proof -
  have "length ps = card (set (map r_id ps))"
    using path_to_distinct [OF assms] by (simp add: distinct_card del: set_map)
  also have "\<dots> \<le> card (r_id ` set rounds)" using path_to_mem [OF assms(2)] by (intro card_mono) auto
  also have "\<dots> \<le> length rounds" by (metis card_length length_map list.set_map)
  finally show ?thesis .
qed

lemma path_walk_path_to:
  assumes "ids_ok rounds" "path_to rounds i ps" "\<forall>r \<in> set ps. r_id r \<notin> set seen"
  shows "path_walk rounds seen acc (byId rounds i) = ps @ acc"
  using assms(2, 3)
proof (induction arbitrary: seen acc rule: path_to.induct)
  case (root r)
  then show ?case using byId_self [OF assms(1)] by (simp add: parent_round_def)
next
  case (child r p ps)
  have p: "p \<noteq> []" by (rule path_to_nonempty [OF assms(1) child(3)])
  have "\<forall>s \<in> set ps. r_id s \<notin> set (r_id r # seen)"
    using child.prems path_to_fresh [OF assms(1) child(1, 2, 3)] by (auto simp: image_iff)
  from child.IH [OF this] show ?case
    using child byId_self [OF assms(1)] p by (simp add: parent_round_def)
qed

lemma path_of_rooted:
  assumes "ids_ok (c_rounds c)" "path_to (c_rounds c) i ps"
  shows "getAgentRoundPath c (Some i) = ps"
proof -
  have "i \<noteq> []" by (rule path_to_nonempty [OF assms])
  with path_walk_path_to [OF assms, of "[]" "[]"] show ?thesis by (simp add: getAgentRoundPath_def)
qed

subsection \<open>The latest leaf\<close>

lemma children_iff:
  "r \<in> set (getAgentRoundChildren c p) \<longleftrightarrow> r \<in> set (c_rounds c) \<and> r_parentRoundId r = p"
  by (auto simp: getAgentRoundChildren_def)

lemma leaf_walk_returns:
  assumes "ids_ok (c_rounds c)" "path_to (c_rounds c) i ps"
  shows "\<exists>leaf qs. leaf_walk c i = Some (Some leaf) \<and> path_to (c_rounds c) leaf (ps @ qs) \<and>
           getAgentRoundChildren c (Some leaf) = []"
  using assms(2)
proof (induction "length (c_rounds c) - length ps" arbitrary: i ps rule: less_induct)
  case less
  have i: "i \<noteq> []" by (rule path_to_nonempty [OF assms(1) less.prems])
  show ?case
  proof (cases "getAgentRoundChildren c (Some i) = []")
    case True
    then have "leaf_walk c i = Some (Some i)" using i by (subst leaf_walk.simps) (simp add: last_id_def)
    with True less.prems show ?thesis by (intro exI [of _ i] exI [of _ "[]"]) simp
  next
    case False
    define r where "r = last (getAgentRoundChildren c (Some i))"
    have "r \<in> set (getAgentRoundChildren c (Some i))" using False by (simp add: r_def)
    then have r: "path_to (c_rounds c) (r_id r) (ps @ [r])"
      using less.prems by (auto simp: children_iff intro: path_to.child)
    have step: "leaf_walk c i = leaf_walk c (r_id r)"
      using i False path_to_nonempty [OF assms(1) r]
      by (subst leaf_walk.simps) (simp add: last_id_def r_def)
    have "length (c_rounds c) - length (ps @ [r]) < length (c_rounds c) - length ps"
      using path_to_length [OF assms(1) r] by simp
    from less.hyps [OF this r] obtain leaf qs where "leaf_walk c (r_id r) = Some (Some leaf)"
      "path_to (c_rounds c) leaf ((ps @ [r]) @ qs)" "getAgentRoundChildren c (Some leaf) = []" by blast
    with step show ?thesis by (intro exI [of _ leaf] exI [of _ "r # qs"]) simp
  qed
qed

lemma roots_rooted: "r \<in> set (getAgentRoundChildren c None) \<Longrightarrow> path_to (c_rounds c) (r_id r) [r]"
  by (auto simp: children_iff intro: path_to.root)

lemma latest_leaf_from_roots:
  assumes "ids_ok (c_rounds c)"
  shows "(getAgentRoundChildren c None = [] \<and> getLatestAgentLeafId c None = Some None) \<or>
         (\<exists>leaf. getLatestAgentLeafId c None = Some (Some leaf) \<and> rooted (c_rounds c) leaf \<and>
            getAgentRoundChildren c (Some leaf) = [])"
proof (cases "getAgentRoundChildren c None = []")
  case True
  then show ?thesis by (simp add: getLatestAgentLeafId_def last_id_def)
next
  case False
  then have "last (getAgentRoundChildren c None) \<in> set (getAgentRoundChildren c None)" by simp
  from leaf_walk_returns [OF assms roots_rooted [OF this]] False show ?thesis
    unfolding rooted_def getLatestAgentLeafId_def last_id_def by (auto simp: Let_def)
qed

text \<open>C12: The search for the latest leaf ends: in a conversation whose rounds have distinct ids it always
  returns when it starts at the roots, whatever the other links are, and from any round connected to a root it
  returns a round without children on a branch through the start.\<close>

theorem latest_leaf_returns:
  assumes "ids_ok (c_rounds c)"
  shows "(\<exists>res. getLatestAgentLeafId c None = Some res) \<and>
    (\<forall>i. rooted (c_rounds c) i \<longrightarrow>
       (\<exists>leaf. getLatestAgentLeafId c (Some i) = Some (Some leaf) \<and> getAgentRoundChildren c (Some leaf) = [] \<and>
          i \<in> r_id ` set (getAgentRoundPath c (Some leaf))))"
proof (intro conjI allI impI)
  show "\<exists>res. getLatestAgentLeafId c None = Some res" using latest_leaf_from_roots [OF assms] by auto
next
  fix i assume "rooted (c_rounds c) i"
  then obtain ps where ps: "path_to (c_rounds c) i ps" by (auto simp: rooted_def)
  from leaf_walk_returns [OF assms ps] obtain leaf qs where l: "leaf_walk c i = Some (Some leaf)"
    "path_to (c_rounds c) leaf (ps @ qs)" "getAgentRoundChildren c (Some leaf) = []" by blast
  have "i \<in> r_id ` set (ps @ qs)" using path_to_last [OF ps] by (metis Un_iff image_eqI last_in_set set_append)
  then show "\<exists>leaf. getLatestAgentLeafId c (Some i) = Some (Some leaf) \<and> getAgentRoundChildren c (Some leaf) = [] \<and>
      i \<in> r_id ` set (getAgentRoundPath c (Some leaf))"
    using l path_of_rooted [OF assms l(2)] path_to_nonempty [OF assms ps]
    by (intro exI [of _ leaf]) (simp add: getLatestAgentLeafId_def)
qed

subsection \<open>Numbering counts the rounds of the path\<close>

definition depths_right :: "AgentRound list \<Rightarrow> (string \<times> nat) list \<Rightarrow> bool" where
  "depths_right rounds m \<longleftrightarrow> (\<forall>(x, d) \<in> set m. \<exists>ps. path_to rounds x ps \<and> length ps = d)"

text \<open>Numbers have been added for the rounds \<open>R\<close> and for all rounds below the added ones.\<close>

definition visited :: "AgentConversation \<Rightarrow> AgentRound set \<Rightarrow> (string \<times> nat) list \<Rightarrow> (string \<times> nat) list \<Rightarrow> bool" where
  "visited c R m m' \<longleftrightarrow> fst ` set m \<subseteq> fst ` set m' \<and>
     (depths_right (c_rounds c) m \<longrightarrow> depths_right (c_rounds c) m') \<and>
     r_id ` R \<subseteq> fst ` set m' \<and>
     (\<forall>x \<in> fst ` set m'. x \<in> fst ` set m \<or> (\<forall>s \<in> set (getAgentRoundChildren c (Some x)). r_id s \<in> fst ` set m'))"

lemma visited_trans:
  assumes "visited c R m m'" "visited c S m' m''"
  shows "visited c (R \<union> S) m m''"
proof -
  have sub: "fst ` set m \<subseteq> fst ` set m'" "fst ` set m' \<subseteq> fst ` set m''"
    and ids: "r_id ` R \<subseteq> fst ` set m'" "r_id ` S \<subseteq> fst ` set m''"
    using assms by (simp_all add: visited_def)
  have "x \<in> fst ` set m \<or> (\<forall>s \<in> set (getAgentRoundChildren c (Some x)). r_id s \<in> fst ` set m'')"
    if x: "x \<in> fst ` set m''" for x
  proof (cases "x \<in> fst ` set m'")
    case True
    then have "x \<in> fst ` set m \<or> (\<forall>s \<in> set (getAgentRoundChildren c (Some x)). r_id s \<in> fst ` set m')"
      using assms(1) unfolding visited_def by (elim conjE) (rule bspec)
    with sub(2) show ?thesis by (meson subsetD)
  next
    case False
    have "x \<in> fst ` set m' \<or> (\<forall>s \<in> set (getAgentRoundChildren c (Some x)). r_id s \<in> fst ` set m'')"
      using x assms(2) unfolding visited_def by (elim conjE) (rule bspec)
    with False show ?thesis by simp
  qed
  moreover have "r_id ` (R \<union> S) \<subseteq> fst ` set m''" using ids sub(2) by (simp add: image_Un)
  moreover have "depths_right (c_rounds c) m \<longrightarrow> depths_right (c_rounds c) m''"
    using assms by (simp add: visited_def)
  ultimately show ?thesis using sub unfolding visited_def by (intro conjI ballI) simp_all
qed

lemma visited_node:
  assumes "visited c (set (getAgentRoundChildren c (Some (r_id r)))) ((r_id r, d) # m) m'"
    and "path_to (c_rounds c) (r_id r) ps" "length ps = d"
  shows "visited c {r} m m'"
proof -
  have "depths_right (c_rounds c) m \<Longrightarrow> depths_right (c_rounds c) ((r_id r, d) # m)"
    using assms(2, 3) by (auto simp: depths_right_def)
  moreover have "\<forall>s \<in> set (getAgentRoundChildren c (Some x)). r_id s \<in> fst ` set m'"
    if "x \<in> fst ` set m'" "x \<notin> fst ` set m" for x
  proof (cases "x = r_id r")
    case True
    with assms(1) show ?thesis unfolding visited_def by blast
  next
    case False
    with that have "x \<notin> fst ` set ((r_id r, d) # m)" by simp
    with assms(1) that(1) show ?thesis unfolding visited_def by blast
  qed
  moreover have "fst ` set m \<subseteq> fst ` set m'" "r_id r \<in> fst ` set m'"
    using assms(1) unfolding visited_def by auto
  ultimately show ?thesis using assms(1) unfolding visited_def by blast
qed

lemma visit_block:
  assumes "ids_ok (c_rounds c)"
    and "\<forall>(r, d) \<in> set pd. \<exists>ps. path_to (c_rounds c) (r_id r) ps \<and> length ps = d \<and> length (c_rounds c) - d \<le> k"
  shows "\<exists>m'. (\<forall>rest. visit c (pd @ rest) m = visit c rest m') \<and> visited c (fst ` set pd) m m'"
  using assms(2)
proof (induction k arbitrary: pd m rule: less_induct)
  case (less k)
  show ?case using less.prems
  proof (induction pd arbitrary: m)
    case Nil
    show ?case by (intro exI [of _ m]) (simp add: visited_def)
  next
    case (Cons x pd)
    obtain r d where x: "x = (r, d)" by (cases x)
    let ?chs = "getAgentRoundChildren c (Some (r_id r))"
    from Cons.prems x obtain ps where ps: "path_to (c_rounds c) (r_id r) ps" "length ps = d"
      "length (c_rounds c) - d \<le> k" by auto
    have "\<exists>m1. (\<forall>rest. visit c (map (\<lambda>s. (s, Suc d)) ?chs @ rest) ((r_id r, d) # m) = visit c rest m1) \<and>
        visited c (set ?chs) ((r_id r, d) # m) m1"
    proof (cases "?chs = []")
      case True
      then show ?thesis by (intro exI [of _ "(r_id r, d) # m"]) (simp add: visited_def)
    next
      case False
      have ch: "path_to (c_rounds c) (r_id s) (ps @ [s])" if "s \<in> set ?chs" for s
        using that ps(1) by (auto simp: children_iff intro: path_to.child)
      have "Suc d \<le> length (c_rounds c)"
        using path_to_length [OF assms(1) ch [OF last_in_set [OF False]]] ps(2) by simp
      then have lt: "length (c_rounds c) - Suc d < k" using ps(3) by simp
      have "\<forall>(s, e) \<in> set (map (\<lambda>s. (s, Suc d)) ?chs).
          \<exists>qs. path_to (c_rounds c) (r_id s) qs \<and> length qs = e \<and> length (c_rounds c) - e \<le> length (c_rounds c) - Suc d"
        using ch ps(2) by fastforce
      from less.IH [OF lt this] show ?thesis by (simp add: image_image)
    qed
    then obtain m1 where m1: "\<And>rest. visit c (map (\<lambda>s. (s, Suc d)) ?chs @ rest) ((r_id r, d) # m) = visit c rest m1"
      "visited c {r} m m1" using visited_node [OF _ ps(1, 2)] by blast
    have step: "visit c (x # pd @ rest) m = visit c (pd @ rest) m1" for rest
      using m1(1) [of "pd @ rest"] by (subst visit.simps) (simp add: x)
    have "\<forall>(r, d) \<in> set pd. \<exists>ps. path_to (c_rounds c) (r_id r) ps \<and> length ps = d \<and> length (c_rounds c) - d \<le> k"
      using Cons.prems by simp
    from Cons.IH [OF this, of m1] obtain m2 where
      m2: "\<forall>rest. visit c (pd @ rest) m1 = visit c rest m2" "visited c (fst ` set pd) m1 m2" by blast
    have "fst ` set (x # pd) = {r} \<union> fst ` set pd" using x by simp
    then have "visited c (fst ` set (x # pd)) m m2" using visited_trans [OF m1(2) m2(2)] by simp
    with step m2(1) show ?case by (intro exI [of _ m2]) simp
  qed
qed

lemma depth_eq: "ids_ok (c_rounds c) \<Longrightarrow> path_to (c_rounds c) i ps \<Longrightarrow> length (getAgentRoundPath c (Some i)) = length ps"
  by (simp add: path_of_rooted)

lemma visit_roots:
  assumes "ids_ok (c_rounds c)"
  obtains m where "visit c (map (\<lambda>r. (r, 1)) (getAgentRoundChildren c None)) [] = Some m"
    and "\<And>x. map_of m x = (if rooted (c_rounds c) x then Some (length (getAgentRoundPath c (Some x))) else None)"
proof -
  let ?pd = "map (\<lambda>r. (r, 1 :: nat)) (getAgentRoundChildren c None)"
  have "\<exists>ps. path_to (c_rounds c) (r_id r) ps \<and> length ps = 1 \<and> length (c_rounds c) - 1 \<le> length (c_rounds c)"
    if "r \<in> set (getAgentRoundChildren c None)" for r
    using roots_rooted [OF that] by (intro exI [of _ "[r]"]) simp
  then have "\<forall>(r, d) \<in> set ?pd. \<exists>ps. path_to (c_rounds c) (r_id r) ps \<and> length ps = d \<and>
      length (c_rounds c) - d \<le> length (c_rounds c)"
    by (simp only: set_map ball_simps prod.case) (rule ballI)
  from visit_block [OF assms this, of "[]"] obtain m where
    m: "\<forall>rest. visit c (?pd @ rest) [] = visit c rest m" "visited c (fst ` set ?pd) [] m" by (elim exE conjE) (rule that)
  have ret: "visit c ?pd [] = Some m" using spec [OF m(1), of "[]"] by (simp add: visit.simps [of c "[]"])
  have right: "depths_right (c_rounds c) m" and roots: "r_id ` set (getAgentRoundChildren c None) \<subseteq> fst ` set m"
    and closed: "\<And>x s. x \<in> fst ` set m \<Longrightarrow> s \<in> set (getAgentRoundChildren c (Some x)) \<Longrightarrow> r_id s \<in> fst ` set m"
    using m(2) by (auto simp: visited_def depths_right_def image_image)
  have cover: "path_to (c_rounds c) x ps \<Longrightarrow> x \<in> fst ` set m" for x ps
  proof (induction rule: path_to.induct)
    case (root r)
    with roots show ?case by (auto simp: children_iff)
  next
    case (child r p ps)
    with closed [of p r] show ?case by (simp add: children_iff)
  qed
  have "map_of m x = (if rooted (c_rounds c) x then Some (length (getAgentRoundPath c (Some x))) else None)" for x
  proof (cases "map_of m x")
    case None
    with cover [of x] show ?thesis by (auto simp: rooted_def map_of_eq_None_iff)
  next
    case (Some d)
    with right obtain ps where "path_to (c_rounds c) x ps" "length ps = d"
      by (auto simp: depths_right_def dest!: map_of_SomeD)
    with Some depth_eq [OF assms] show ?thesis by (auto simp: rooted_def)
  qed
  with ret show ?thesis by (rule that)
qed

subsection \<open>Deletion takes a round out of every path\<close>

lemma byId_Cons:
  "byId (r # rounds) i = (case byId rounds i of None \<Rightarrow> if r_id r = i then Some r else None | Some s \<Rightarrow> Some s)"
  by (simp add: byId_def map_add_def split: option.splits)

lemma byId_Nil [simp]: "byId [] i = None"
  by (simp add: byId_def)

lemma byId_map: "(\<And>r. r_id (g r) = r_id r) \<Longrightarrow> byId (map g rounds) i = map_option g (byId rounds i)"
  by (induction rounds) (auto simp: byId_Cons split: option.splits)

lemma byId_filter: "byId (filter (\<lambda>r. r_id r \<noteq> x) rounds) i = (if i = x then None else byId rounds i)"
  by (induction rounds) (auto simp: byId_Cons split: option.splits)

text \<open>A change \<open>g\<close> of the rounds that takes out the round \<open>target\<close> and gives its children its parent.\<close>

definition removal :: "AgentRound list \<Rightarrow> AgentRound \<Rightarrow> (AgentRound \<Rightarrow> AgentRound) \<Rightarrow> bool" where
  "removal rounds target g \<longleftrightarrow> ids_ok rounds \<and> target \<in> set rounds \<and> (\<forall>r. r_id (g r) = r_id r) \<and>
     (\<forall>r. r_parentRoundId (g r) =
       (if r_parentRoundId r = Some (r_id target) then r_parentRoundId target else r_parentRoundId r))"

definition remaining :: "AgentRound list \<Rightarrow> AgentRound \<Rightarrow> (AgentRound \<Rightarrow> AgentRound) \<Rightarrow> AgentRound list" where
  "remaining rounds target g = map g (filter (\<lambda>r. r_id r \<noteq> r_id target) rounds)"

definition skip :: "AgentRound list \<Rightarrow> AgentRound \<Rightarrow> (AgentRound \<Rightarrow> AgentRound) \<Rightarrow> AgentRound option \<Rightarrow> AgentRound option" where
  "skip rounds target g current = (case current of None \<Rightarrow> None
     | Some r \<Rightarrow> if r_id r = r_id target then parent_round (remaining rounds target g) target else Some (g r))"

lemma removal_simps:
  assumes "removal rounds target g"
  shows "r_id (g r) = r_id r" "byId rounds (r_id target) = Some target" "r_id target \<noteq> []"
    "byId (remaining rounds target g) i = (if i = r_id target then None else map_option g (byId rounds i))"
    "r_parentRoundId (g r) =
       (if r_parentRoundId r = Some (r_id target) then r_parentRoundId target else r_parentRoundId r)"
proof -
  show "r_id (g r) = r_id r" for r using assms by (simp add: removal_def)
  then show "byId (remaining rounds target g) i = (if i = r_id target then None else map_option g (byId rounds i))"
    unfolding remaining_def by (subst byId_map) (simp_all add: byId_filter)
  show "byId rounds (r_id target) = Some target" "r_id target \<noteq> []"
    using assms by (auto simp: removal_def byId_self) (auto simp: ids_ok_def image_iff)
  show "r_parentRoundId (g r) =
       (if r_parentRoundId r = Some (r_id target) then r_parentRoundId target else r_parentRoundId r)"
    using assms by (simp add: removal_def)
qed

lemma lookup_skip:
  assumes "removal rounds target g" "i \<noteq> r_id target"
  shows "byId (remaining rounds target g) i = skip rounds target g (byId rounds i)"
  using assms(2) byId_id [of rounds i] removal_simps(4) [OF assms(1)]
  by (auto simp: skip_def split: option.splits)

lemma parent_kept:
  assumes "removal rounds target g"
  shows "parent_round (remaining rounds target g) (g r) = skip rounds target g (parent_round rounds r)"
proof (cases "r_parentRoundId r")
  case None
  then show ?thesis by (simp add: parent_round_def removal_simps [OF assms] skip_def)
next
  case (Some p)
  show ?thesis
  proof (cases "p = r_id target")
    case True
    then have "parent_round (remaining rounds target g) (g r) = parent_round (remaining rounds target g) target"
      using Some by (simp add: parent_round_def removal_simps(5) [OF assms])
    with True Some removal_simps(2, 3) [OF assms] show ?thesis
      by (simp add: parent_round_def [of rounds] skip_def)
  next
    case False
    with Some lookup_skip [OF assms False] show ?thesis
      by (auto simp: parent_round_def removal_simps(5) [OF assms] skip_def)
  qed
qed

lemma parent_target:
  assumes "removal rounds target g"
  shows "parent_round (remaining rounds target g) target = skip rounds target g (parent_round rounds target)"
proof (cases "r_parentRoundId target = Some (r_id target)")
  case True
  with removal_simps(2, 3) [OF assms] show ?thesis by (simp add: parent_round_def [of rounds] skip_def)
next
  case False
  with parent_kept [OF assms, of target] show ?thesis
    by (simp add: parent_round_def removal_simps(5) [OF assms])
qed

lemma parent_target_loop:
  assumes "removal rounds target g" "parent_round rounds target = Some target"
  shows "parent_round (remaining rounds target g) target = None"
  using assms(2) byId_id [of rounds] removal_simps(4) [OF assms(1)]
  by (auto simp: parent_round_def split: option.splits if_splits)

text \<open>Once the walk has passed the round that is taken out, either it stands at the parent of that round, or
  the walk without the round would stop there.\<close>

definition passed :: "AgentRound list \<Rightarrow> AgentRound \<Rightarrow> (AgentRound \<Rightarrow> AgentRound) \<Rightarrow> string list \<Rightarrow> string list \<Rightarrow>
    AgentRound option \<Rightarrow> bool" where
  "passed rounds target g seen seen' current \<longleftrightarrow> (r_id target \<in> set seen \<longrightarrow>
     current = parent_round rounds target \<or>
     (\<forall>s. parent_round (remaining rounds target g) target = Some s \<longrightarrow> r_id s \<in> set seen'))"

lemma walk_stops:
  "(\<forall>s. current = Some s \<longrightarrow> r_id s \<in> set seen) \<Longrightarrow> path_walk rs seen acc current = acc"
  by (cases current) auto

lemma path_walk_induct [case_names stop step]:
  assumes "\<And>seen acc. P seen acc None"
    and "\<And>seen acc r. (r_id r \<notin> set seen \<Longrightarrow> P (r_id r # seen) (r # acc) (parent_round rounds r)) \<Longrightarrow> P seen acc (Some r)"
  shows "P seen acc current"
proof -
  have "rs = rounds \<Longrightarrow> P seen acc current" for rs
    by (induction rs seen acc current rule: path_walk.induct) (use assms in auto)
  then show ?thesis by simp
qed

lemma walk_removed:
  assumes rem: "removal rounds target g"
    and "\<forall>r. current = Some r \<longrightarrow> r \<in> set rounds"
    and "set seen' = set seen - {r_id target}"
    and "map r_id acc' = filter (\<lambda>i. i \<noteq> r_id target) (map r_id acc)"
    and "passed rounds target g seen seen' current"
  shows "map r_id (path_walk (remaining rounds target g) seen' acc' (skip rounds target g current)) =
         filter (\<lambda>i. i \<noteq> r_id target) (map r_id (path_walk rounds seen acc current))"
  using assms(2-)
proof (induction seen acc current arbitrary: seen' acc' rule: path_walk_induct [where rounds = rounds])
  case (stop seen acc)
  then show ?case by (simp add: skip_def)
next
  case (step seen acc r)
  let ?x = "r_id target" and ?rs = "remaining rounds target g"
  have r: "r \<in> set rounds" using step.prems(1) by simp
  have mem: "\<forall>s. parent_round rounds r = Some s \<longrightarrow> s \<in> set rounds" using parent_round_mem by blast
  have target: "r_id r = ?x \<Longrightarrow> r = target"
    using r rem same_id by (auto simp: removal_def)
  consider (again) "r_id r \<in> set seen" "r_id r \<noteq> ?x" | (loop) "r_id r \<in> set seen" "r = target"
    | (skipped) "r_id r \<notin> set seen" "r = target" | (kept) "r_id r \<notin> set seen" "r_id r \<noteq> ?x"
    using target by blast
  then show ?case
  proof cases
    case again
    then show ?thesis using step.prems by (simp add: skip_def removal_simps(1) [OF rem])
  next
    case loop
    have "\<forall>s. parent_round ?rs target = Some s \<longrightarrow> r_id s \<in> set seen'"
      using step.prems(4) loop parent_target_loop [OF rem] unfolding passed_def by auto
    with loop step.prems(3) walk_stops [OF this] show ?thesis by (simp add: skip_def)
  next
    case skipped
    have "passed rounds target g (r_id r # seen) seen' (parent_round rounds r)"
      using skipped by (simp add: passed_def)
    from step.IH [OF skipped(1) mem _ _ this, of acc'] step.prems skipped
    show ?thesis by (simp add: skip_def parent_target [OF rem])
  next
    case kept
    have "passed rounds target g (r_id r # seen) (r_id r # seen') (parent_round rounds r)"
    proof (cases "Some r = parent_round rounds target")
      case True
      have "skip rounds target g (Some r) = Some (g r)" using kept by (simp add: skip_def)
      then have "parent_round ?rs target = Some (g r)" unfolding True parent_target [OF rem] .
      then show ?thesis by (simp add: passed_def removal_simps(1) [OF rem])
    next
      case False
      with step.prems(4) kept show ?thesis by (auto simp: passed_def)
    qed
    moreover have "r_id (g r) \<notin> set seen'" using kept step.prems(2) by (simp add: removal_simps(1) [OF rem])
    ultimately show ?thesis
      using step.IH [OF kept(1) mem, of "r_id r # seen'" "g r # acc'"] step.prems kept parent_kept [OF rem, of r]
      by (simp add: skip_def removal_simps(1) [OF rem] insert_Diff_if)
  qed
qed

lemma path_removed:
  assumes rem: "removal (c_rounds c) target g" and "c_rounds c' = remaining (c_rounds c) target g"
    and "i \<noteq> r_id target"
  shows "map r_id (getAgentRoundPath c' (Some i)) =
         filter (\<lambda>j. j \<noteq> r_id target) (map r_id (getAgentRoundPath c (Some i)))"
proof -
  have "\<forall>r. byId (c_rounds c) i = Some r \<longrightarrow> r \<in> set (c_rounds c)" using byId_id by blast
  from walk_removed [OF rem this, of "[]" "[]" "[]" "[]"] show ?thesis
    using assms(2) lookup_skip [OF rem assms(3)] by (simp add: getAgentRoundPath_def passed_def)
qed

subsection \<open>Mentions of round images follow their rounds\<close>

abbreviation round_mentions :: "utext \<Rightarrow> (utext \<times> utext) list" where
  "round_mentions \<equiv> captures round_mention"

text \<open>The rounds a text mentions, read along a path, with the numbers of the images.\<close>

definition rounds_mentioned :: "utext \<Rightarrow> AgentRound list \<Rightarrow> (string option \<times> utext) list" where
  "rounds_mentioned content path = map (\<lambda>(ds, es). (map_option r_id (round_at path ds), es)) (round_mentions content)"

lemma round_captures:
  assumes "ord = [] \<or> ord = [DI]" "is_number ds" "is_number es" "takeWhile u_digit t = []"
  shows "round_mentions (AT # ord @ ds @ LUN # TU # es @ t) = (ds, es) # round_mentions t"
proof -
  have "drop (3 + length ord + length ds + length es - 1) (ord @ ds @ LUN # TU # es @ t) = t"
    by simp
  with round_mention_matches [OF assms(1-3), of t] assms(4) show ?thesis by simp
qed

lemma round_mention_head: "round_mention (c # s) = Some x \<Longrightarrow> c = AT"
  by (cases x) (auto elim: round_mention_cases)

lemma round_captures_plain: "AT \<notin> set s \<Longrightarrow> round_mentions (s @ t) = round_mentions t"
proof (induction s)
  case (Cons c s)
  then have "round_mention (c # s @ t) = None"
    by (cases "round_mention (c # s @ t)") (auto dest: round_mention_head)
  with Cons show ?case by simp
qed simp

lemma remap_round_head:
  "round_mention (c # s) = Some (a, n) \<Longrightarrow> \<exists>r. remap_round_mention old new (take n (c # s)) a = AT # r"
  by (cases a) (auto simp: remap_round_mention_def deleted_label_def round_label_def take_Cons'
      elim!: round_mention_cases split: option.splits)

abbreviation round_map :: "AgentRound list \<Rightarrow> AgentRound list \<Rightarrow> utext \<Rightarrow> utext" where
  "round_map old new \<equiv> replace_all round_mention (remap_round_mention old new)"

lemma round_map_uncons:
  assumes "round_map old new s = x # xs" "x \<noteq> AT"
  shows "\<exists>s'. s = x # s' \<and> round_map old new s' = xs"
proof (cases s)
  case (Cons c r)
  show ?thesis
  proof (cases "round_mention (c # r)")
    case None
    with Cons assms(1) show ?thesis by simp
  next
    case (Some y)
    obtain a n where y: "y = (a, n)" by (cases y)
    with remap_round_head [of c r a n old new] Some Cons assms show ?thesis by auto
  qed
qed (use assms(1) in simp)

lemma round_map_plain:
  "round_map old new s = w @ t \<Longrightarrow> AT \<notin> set w \<Longrightarrow> \<exists>t'. s = w @ t' \<and> round_map old new t' = t"
proof (induction w arbitrary: s)
  case (Cons x w)
  then obtain s' where "s = x # s'" "round_map old new s' = w @ t"
    using round_map_uncons [of old new s x "w @ t"] by auto
  with Cons show ?case by auto
qed simp

lemma no_at_number: "is_number ds \<Longrightarrow> AT \<notin> set ds"
  using not_digit(3) unfolding is_number_def by blast

lemma round_map_None:
  assumes "round_mention (c # s) = None"
  shows "round_mention (c # round_map old new s) = None"
proof (rule ccontr)
  assume "round_mention (c # round_map old new s) \<noteq> None"
  then obtain ds es n where "round_mention (c # round_map old new s) = Some ((ds, es), n)" by auto
  then show False
  proof (cases rule: round_mention_cases)
    case (1 ord r)
    let ?w = "ord @ ds @ LUN # TU # es"
    have "round_map old new s = ?w @ r" and c: "c = AT" using 1 by simp_all
    moreover have "AT \<notin> set ?w" using 1 no_at_number by auto
    ultimately obtain t' where "s = ?w @ t'" using round_map_plain by blast
    with c assms round_mention_matches [OF 1(1-3), of t'] show False by simp
  qed
qed

lemma round_map_no_digit: "takeWhile u_digit s = [] \<Longrightarrow> takeWhile u_digit (round_map old new s) = []"
proof (cases s)
  case (Cons c r)
  assume "takeWhile u_digit s = []"
  with Cons have c: "\<not> u_digit c" by (auto split: if_splits)
  show ?thesis
  proof (cases "round_mention (c # r)")
    case (Some y)
    obtain a n where y: "y = (a, n)" by (cases y)
    with remap_round_head [of c r a n old new] Some Cons show ?thesis by auto
  qed (use c Cons in simp)
qed simp

definition renumbered_round :: "AgentRound list \<Rightarrow> AgentRound list \<Rightarrow> utext \<times> utext \<Rightarrow> (utext \<times> utext) list" where
  "renumbered_round old new numbers = (case round_at old (fst numbers) of
       None \<Rightarrow> [numbers]
     | Some r \<Rightarrow> (case path_number new (r_id r) of None \<Rightarrow> [] | Some k \<Rightarrow> [(u_nat k, snd numbers)]))"

lemma round_piece:
  assumes "round_mention (c # s) = Some (a, n)"
  shows "round_mentions (remap_round_mention old new (take n (c # s)) a @ round_map old new (drop (n - 1) s)) =
         renumbered_round old new a @ round_mentions (round_map old new (drop (n - 1) s))"
proof -
  obtain ds es where a: "a = (ds, es)" by (cases a)
  from assms [unfolded a] show ?thesis
  proof (cases rule: round_mention_cases)
    case (1 ord r)
    let ?t = "round_map old new (drop (n - 1) s)"
    have r: "drop (n - 1) s = r" "take n (c # s) @ ?t = AT # ord @ ds @ LUN # TU # es @ ?t"
      using 1 by (simp_all add: take_Cons')
    then have t: "takeWhile u_digit ?t = []" using 1(6) round_map_no_digit by simp
    have "round_mentions (deleted_label @ es @ ?t) = round_mentions ?t"
    proof -
      have "round_mention (deleted_label @ es @ ?t) = None"
        by (simp add: deleted_label_def round_mention_def u_digit_def)
      moreover have "AT \<notin> set (tl deleted_label @ es)" using no_at_number [OF 1(3)] by (simp add: deleted_label_def)
      from round_captures_plain [OF this, of ?t]
      have "round_mentions (tl deleted_label @ es @ ?t) = round_mentions ?t" by simp
      ultimately show ?thesis by (simp add: deleted_label_def)
    qed
    with r(2) a round_captures [OF 1(1-3) t] round_captures [of "[DI]", OF _ is_number_nat 1(3) t] show ?thesis
      by (auto simp: remap_round_mention_def renumbered_round_def round_label_def split: option.splits)
  qed
qed

interpretation round_remap: rewriting round_mention "remap_round_mention old new" "renumbered_round old new" for old new
  by unfold_locales (simp_all only: round_map_None round_piece)

lemma path_number_Some:
  assumes "path_number path i = Some k"
  shows "1 \<le> k \<and> k \<le> length path \<and> r_id (path ! (k - 1)) = i"
proof -
  from assms have "(i, k) \<in> set (zip (map r_id path) [1..<Suc (length path)])"
    unfolding path_number_def by (rule map_of_SomeD [THEN set_rev [THEN equalityD1, THEN subsetD]])
  then obtain j where "j < length path" "i = r_id (path ! j)" "k = [1..<Suc (length path)] ! j"
    by (auto simp: in_set_zip simp del: upt_Suc)
  then show ?thesis by (simp del: upt_Suc add: nth_upt)
qed

lemma path_number_None: "path_number path i = None \<longleftrightarrow> i \<notin> r_id ` set path"
proof -
  have "fst ` set (rev (zip (map r_id path) [1..<Suc (length path)])) = set (map fst (zip (map r_id path) [1..<Suc (length path)]))"
    by (simp only: set_rev set_map)
  also have "\<dots> = r_id ` set path" by (subst map_fst_zip) (simp_all del: upt_Suc)
  finally show ?thesis by (simp only: path_number_def map_of_eq_None_iff)
qed

lemma renumbered_round_ids:
  assumes "round_at old ds = Some r"
  shows "map (\<lambda>(ds, es). (map_option r_id (round_at new ds), es)) (renumbered_round old new (ds, es)) =
         filter (\<lambda>(i, _). i \<in> Some ` r_id ` set new) [(Some (r_id r), es)]"
proof (cases "path_number new (r_id r)")
  case None
  then have "Some (r_id r) \<notin> Some ` r_id ` set new" by (auto simp: path_number_None)
  with None assms show ?thesis by (simp add: renumbered_round_def)
next
  case (Some k)
  then have "r_id r \<in> r_id ` set new" by (metis option.distinct(1) path_number_None)
  with Some assms path_number_Some [OF Some] show ?thesis by (auto simp: renumbered_round_def round_at_def)
qed

lemma round_mentions_follow:
  assumes "\<forall>(ds, _) \<in> set (round_mentions content). round_at old ds \<noteq> None"
  shows "rounds_mentioned (remapAgentRoundMentionsForPathChange content old new) new =
         filter (\<lambda>(i, _). i \<in> Some ` r_id ` set new) (rounds_mentioned content old)"
proof -
  have "map (\<lambda>(ds, es). (map_option r_id (round_at new ds), es)) (concat (map (renumbered_round old new) ms)) =
      filter (\<lambda>(i, _). i \<in> Some ` r_id ` set new) (map (\<lambda>(ds, es). (map_option r_id (round_at old ds), es)) ms)"
    if "\<forall>(ds, _) \<in> set ms. round_at old ds \<noteq> None" for ms
    using that
  proof (induction ms)
    case (Cons a ms)
    obtain ds es where a: "a = (ds, es)" by (cases a)
    with Cons.prems obtain r where "round_at old ds = Some r" by auto
    with Cons a renumbered_round_ids [of old ds r new es] show ?case by simp
  qed simp
  from this [OF assms] have main: "rounds_mentioned (round_map old new content) new =
      filter (\<lambda>(i, _). i \<in> Some ` r_id ` set new) (rounds_mentioned content old)"
    by (simp add: rounds_mentioned_def round_remap.captures_replaced)
  show ?thesis
  proof (cases "content = [] \<or> old = []")
    case True
    then have "round_mentions content = []"
      using assms by (cases "round_mentions content") (auto simp: round_at_def Let_def split: if_splits)
    with True show ?thesis by (simp add: remapAgentRoundMentionsForPathChange_def rounds_mentioned_def)
  qed (use main in \<open>simp add: remapAgentRoundMentionsForPathChange_def\<close>)
qed

subsection \<open>The result of a deletion\<close>

lemma reparent_simps [simp]:
  "r_id (reparent x p r) = r_id r"
  "r_parentRoundId (reparent x p r) = (if r_parentRoundId r = Some x then p else r_parentRoundId r)"
  by (simp_all add: reparent_def)

lemma renumber_simps [simp]:
  "r_id (renumber m r) = r_id r" "r_parentRoundId (renumber m r) = r_parentRoundId r"
  by (simp_all add: renumber_def split: option.splits)

lemma renumber_index: "map_of m (r_id r) = Some d \<Longrightarrow> r_index (renumber m r) = Fin (of_nat d)"
  by (simp add: renumber_def)

lemma ids_ok_map: "(\<And>r. r_id (g r) = r_id r) \<Longrightarrow> ids_ok (map g rounds) \<longleftrightarrow> ids_ok rounds"
  by (simp add: ids_ok_def comp_def image_image)

lemma ids_ok_filter: "ids_ok rounds \<Longrightarrow> ids_ok (filter P rounds)"
  by (auto simp: ids_ok_def distinct_map_filter)

lemma path_to_map:
  assumes "\<And>r. r_id (h r) = r_id r" "\<And>r. r_parentRoundId (h r) = r_parentRoundId r"
  shows "path_to (map h rounds) i ps \<Longrightarrow> \<exists>qs. path_to rounds i qs"
proof (induction rule: path_to.induct)
  case (root r)
  then obtain s where "r = h s" "s \<in> set rounds" by auto
  with root assms path_to.root [of s rounds] show ?case by auto
next
  case (child r p ps)
  then obtain s qs where "r = h s" "s \<in> set rounds" "path_to rounds p qs" by auto
  with child assms path_to.child [of s rounds p qs] show ?case by auto
qed

lemma active_rounds_return:
  assumes "ids_ok (c_rounds c)"
  shows "\<exists>rs. getActiveAgentRounds c = Some rs"
proof -
  from latest_leaf_from_roots [OF assms] obtain l where "getLatestAgentLeafId c None = Some l" by auto
  then show ?thesis by (simp add: getActiveAgentRounds_def split: option.splits)
qed

lemma reindex_returns:
  assumes "ids_ok (c_rounds c)"
  shows "\<exists>m. reindexAgentRounds c = Some (c\<lparr>c_rounds := map (renumber m) (c_rounds c)\<rparr>) \<and>
    (\<forall>i. rooted (c_rounds c) i \<longrightarrow> map_of m i = Some (length (getAgentRoundPath c (Some i))))"
proof (rule visit_roots [OF assms])
  fix m
  assume "visit c (map (\<lambda>r. (r, 1)) (getAgentRoundChildren c None)) [] = Some m"
    and "\<And>x. map_of m x = (if rooted (c_rounds c) x then Some (length (getAgentRoundPath c (Some x))) else None)"
  then show ?thesis by (intro exI [of _ m]) (simp add: reindexAgentRounds_def)
qed

lemma find_id:
  assumes "ids_ok rounds" "r \<in> set rounds"
  shows "List.find (\<lambda>s. r_id s = r_id r) rounds = Some r"
proof (cases "List.find (\<lambda>s. r_id s = r_id r) rounds")
  case None
  with assms(2) show ?thesis by (auto simp: find_None_iff)
next
  case (Some s)
  then have "s \<in> set rounds" "r_id s = r_id r" by (auto simp: find_Some_iff)
  with same_id [OF assms(1) _ assms(2)] Some show ?thesis by simp
qed

text \<open>The function a deletion changes the remaining rounds by.\<close>

abbreviation relink :: "(string \<times> nat) list \<Rightarrow> AgentRound \<Rightarrow> AgentRound \<Rightarrow> AgentRound" where
  "relink m target \<equiv> \<lambda>r. renumber m (reparent (r_id target) (r_parentRoundId target) r)"

lemma relink_removal: "ids_ok rounds \<Longrightarrow> target \<in> set rounds \<Longrightarrow> removal rounds target (relink m target)"
  by (simp add: removal_def)

lemma reparent_removal:
  "ids_ok rounds \<Longrightarrow> target \<in> set rounds \<Longrightarrow> removal rounds target (reparent (r_id target) (r_parentRoundId target))"
  by (simp add: removal_def)

lemma delete_returns:
  assumes ids: "ids_ok (c_rounds c)" and target: "target \<in> set (c_rounds c)"
  obtains c' c2 m active where "deleteAgentRoundFromConversation c (r_id target) now = Some c'"
    "c_rounds c2 = remaining (c_rounds c) target (relink m target)"
    "c' = c2\<lparr>c_messages := map (remap_message c c2) (filter (\<lambda>x. m_roundId x \<noteq> r_id target) (c_messages c)),
             c_activeRoundId := active, c_updatedAt := now\<rparr>"
    "\<And>i. rooted (c_rounds (without_round c target (r_id target))) i \<Longrightarrow>
       map_of m i = Some (length (getAgentRoundPath (without_round c target (r_id target)) (Some i)))"
    "c_activeRoundId c \<noteq> None \<Longrightarrow> c_activeRoundId c \<noteq> Some (r_id target) \<Longrightarrow> active = c_activeRoundId c"
proof -
  let ?c1 = "without_round c target (r_id target)"
  have ids1: "ids_ok (c_rounds ?c1)"
    using ids by (simp add: without_round_def ids_ok_map ids_ok_filter)
  from reindex_returns [OF this] obtain m where m: "reindexAgentRounds ?c1 =
      Some (?c1\<lparr>c_rounds := map (renumber m) (c_rounds ?c1)\<rparr>)"
    "\<forall>i. rooted (c_rounds ?c1) i \<longrightarrow> map_of m i = Some (length (getAgentRoundPath ?c1 (Some i)))" by blast
  define c2 where "c2 = ?c1\<lparr>c_rounds := map (renumber m) (c_rounds ?c1)\<rparr>"
  define c3 where "c3 = c2\<lparr>c_messages := map (remap_message c c2) (c_messages c2)\<rparr>"
  have "ids_ok (c_rounds c3)" using ids1 by (simp add: c3_def c2_def ids_ok_map)
  from active_rounds_return [OF this] obtain rs where rs: "getActiveAgentRounds c3 = Some rs" ..
  define active where "active = (case c_activeRoundId c3 of Some i \<Rightarrow> Some i | None \<Rightarrow> last_id rs)"
  have "deleteAgentRoundFromConversation c (r_id target) now = Some (c3\<lparr>c_activeRoundId := active, c_updatedAt := now\<rparr>)"
    using find_id [OF ids target] m(1) rs
    by (simp add: deleteAgentRoundFromConversation_def Let_def active_def c3_def c2_def)
  moreover have "c_rounds c2 = remaining (c_rounds c) target (relink m target)"
    by (simp add: c2_def without_round_def remaining_def)
  moreover have "c_activeRoundId c \<noteq> None \<Longrightarrow> c_activeRoundId c \<noteq> Some (r_id target) \<Longrightarrow> active = c_activeRoundId c"
    by (auto simp: active_def c3_def c2_def without_round_def)
  ultimately show ?thesis
    using that [of "c3\<lparr>c_activeRoundId := active, c_updatedAt := now\<rparr>" c2 m active] m(2)
    by (simp add: c3_def c2_def without_round_def)
qed

lemma path_same_rounds: "c_rounds c = c_rounds d \<Longrightarrow> getAgentRoundPath c i = getAgentRoundPath d i"
  by (cases i) (simp_all add: getAgentRoundPath_def)

text \<open>C10: Deleting a round takes it out of the tree and nothing else: the deletion returns, the other rounds
  stay in order, the path to each of them is its old path without the deleted round, every round connected to
  a root is numbered by its place on its path, and exactly the messages of the deleted round are gone.\<close>

theorem delete_round_spec:
  assumes "ids_ok (c_rounds c)" "x \<in> r_id ` set (c_rounds c)"
  shows "\<exists>c'. deleteAgentRoundFromConversation c x now = Some c' \<and>
    map r_id (c_rounds c') = filter (\<lambda>i. i \<noteq> x) (map r_id (c_rounds c)) \<and>
    (\<forall>i. i \<noteq> x \<longrightarrow> map r_id (getAgentRoundPath c' (Some i)) =
       filter (\<lambda>j. j \<noteq> x) (map r_id (getAgentRoundPath c (Some i)))) \<and>
    (\<forall>r \<in> set (c_rounds c'). rooted (c_rounds c') (r_id r) \<longrightarrow>
       r_index r = Fin (of_nat (length (getAgentRoundPath c' (Some (r_id r)))))) \<and>
    map m_id (c_messages c') = map m_id (filter (\<lambda>y. m_roundId y \<noteq> x) (c_messages c))"
proof -
  from assms(2) obtain target where t: "target \<in> set (c_rounds c)" "x = r_id target" by auto
  let ?c1 = "without_round c target x"
  from delete_returns [OF assms(1) t(1)] obtain c' c2 m active where
    del: "deleteAgentRoundFromConversation c x now = Some c'"
    and c2: "c_rounds c2 = remaining (c_rounds c) target (relink m target)"
    and c': "c' = c2\<lparr>c_messages := map (remap_message c c2) (filter (\<lambda>y. m_roundId y \<noteq> x) (c_messages c)),
             c_activeRoundId := active, c_updatedAt := now\<rparr>"
    and m: "\<And>i. rooted (c_rounds ?c1) i \<Longrightarrow> map_of m i = Some (length (getAgentRoundPath ?c1 (Some i)))"
    unfolding t(2) by metis
  have rounds: "c_rounds c' = remaining (c_rounds c) target (relink m target)" using c2 c' by simp
  have path: "map r_id (getAgentRoundPath c' (Some i)) = filter (\<lambda>j. j \<noteq> x) (map r_id (getAgentRoundPath c (Some i)))"
    if "i \<noteq> x" for i
    using path_removed [OF relink_removal [OF assms(1) t(1)] rounds] that t(2) by simp
  have path1: "map r_id (getAgentRoundPath ?c1 (Some i)) = filter (\<lambda>j. j \<noteq> x) (map r_id (getAgentRoundPath c (Some i)))"
    if "i \<noteq> x" for i
    using path_removed [OF reparent_removal [OF assms(1) t(1)], of ?c1 i] that t(2)
    by (simp add: without_round_def remaining_def)
  have c1: "c_rounds c' = map (renumber m) (c_rounds ?c1)"
    using rounds t(2) by (simp add: remaining_def without_round_def)
  have index: "r_index r = Fin (of_nat (length (getAgentRoundPath c' (Some (r_id r)))))"
    if "r \<in> set (c_rounds c')" "rooted (c_rounds c') (r_id r)" for r
  proof -
    from that(1) rounds t(2) have ne: "r_id r \<noteq> x" by (auto simp: remaining_def)
    have "rooted (c_rounds ?c1) (r_id r)"
      using that(2) path_to_map [of "renumber m" "c_rounds ?c1"] by (auto simp: rooted_def c1)
    moreover have "length (getAgentRoundPath ?c1 (Some (r_id r))) = length (getAgentRoundPath c' (Some (r_id r)))"
      using path [OF ne] path1 [OF ne] by (metis length_map)
    ultimately have "map_of m (r_id r) = Some (length (getAgentRoundPath c' (Some (r_id r))))" using m by simp
    moreover from that(1) c1 obtain s where "r = renumber m s" by auto
    ultimately show ?thesis using renumber_index [of m s] by simp
  qed
  have "map r_id (c_rounds c') = filter (\<lambda>i. i \<noteq> x) (map r_id (c_rounds c))"
    using rounds t(2) by (simp add: remaining_def comp_def filter_map)
  moreover have "map m_id (c_messages c') = map m_id (filter (\<lambda>y. m_roundId y \<noteq> x) (c_messages c))"
    using c' by (simp add: comp_def remap_message_def)
  ultimately show ?thesis using del path index by blast
qed

text \<open>C9: A deletion keeps what the messages refer to: the mentions of round images in a remaining message, read
  along its new path, name the same rounds and images as before along its old path, except those of the
  deleted round.\<close>

theorem delete_keeps_mentions:
  assumes "ids_ok (c_rounds c)" "x \<in> r_id ` set (c_rounds c)"
    and y: "y \<in> set (c_messages c)" "m_roundId y \<noteq> x" "m_roundId y \<noteq> []"
    and valid: "\<forall>(ds, _) \<in> set (round_mentions (m_content y)).
                  round_at (getAgentRoundPath c (Some (m_roundId y))) ds \<noteq> None"
  shows "\<exists>c' y'. deleteAgentRoundFromConversation c x now = Some c' \<and> y' \<in> set (c_messages c') \<and>
    m_id y' = m_id y \<and> m_roundId y' = m_roundId y \<and>
    rounds_mentioned (m_content y') (getAgentRoundPath c' (Some (m_roundId y))) =
    filter (\<lambda>(i, _). i \<noteq> Some x) (rounds_mentioned (m_content y) (getAgentRoundPath c (Some (m_roundId y))))"
proof -
  from assms(2) obtain target where t: "target \<in> set (c_rounds c)" "x = r_id target" by auto
  from delete_returns [OF assms(1) t(1)] obtain c' c2 m active where
    del: "deleteAgentRoundFromConversation c x now = Some c'"
    and c2: "c_rounds c2 = remaining (c_rounds c) target (relink m target)"
    and c': "c' = c2\<lparr>c_messages := map (remap_message c c2) (filter (\<lambda>y. m_roundId y \<noteq> x) (c_messages c)),
             c_activeRoundId := active, c_updatedAt := now\<rparr>"
    unfolding t(2) by metis
  let ?old = "getAgentRoundPath c (Some (m_roundId y))" and ?new = "getAgentRoundPath c2 (Some (m_roundId y))"
  have same: "getAgentRoundPath c' (Some (m_roundId y)) = ?new" using c' by (intro path_same_rounds) simp
  have "map r_id ?new = filter (\<lambda>j. j \<noteq> x) (map r_id ?old)"
    using path_removed [OF relink_removal [OF assms(1) t(1)] c2] y(2) t(2) by simp
  then have "set (map r_id ?new) = set (filter (\<lambda>j. j \<noteq> x) (map r_id ?old))" by (rule arg_cong)
  then have ids: "r_id ` set ?new = r_id ` set ?old - {x}" by auto
  have "i \<in> Some ` r_id ` set ?new \<longleftrightarrow> i \<noteq> Some x" if "(i, es) \<in> set (rounds_mentioned (m_content y) ?old)" for i es
  proof -
    from that valid obtain ds r where "round_at ?old ds = Some r" "i = Some (r_id r)"
      by (fastforce simp: rounds_mentioned_def)
    then have "i \<in> Some ` r_id ` set ?old" by (auto simp: round_at_def Let_def split: if_splits)
    then show ?thesis unfolding ids by auto
  qed
  then have "filter (\<lambda>(i, _). i \<in> Some ` r_id ` set ?new) (rounds_mentioned (m_content y) ?old) =
      filter (\<lambda>(i, _). i \<noteq> Some x) (rounds_mentioned (m_content y) ?old)"
    by (intro filter_cong) auto
  with round_mentions_follow [OF valid, of ?new] same del y c' show ?thesis
    by (intro exI [of _ c'] exI [of _ "remap_message c c2 y"]) (auto simp: remap_message_def)
qed

subsection \<open>A sample conversation\<close>

definition sample_round :: "string \<Rightarrow> string option \<Rightarrow> AgentRound" where
  "sample_round i p = \<lparr>r_id = i, r_index = Fin 0, r_parentRoundId = p, r_userMessageId = ''u'' @ i,
     r_assistantMessageId = None, r_prompt = [], r_inputImageIds = [], r_maskTargetImageId = None,
     r_maskImageId = None, r_outputTaskIds = [], r_responseId = None, r_responseOutput = None, r_status = Done,
     r_error = None, r_createdAt = Fin 0, r_finishedAt = None\<rparr>"

definition sample_conversation :: AgentConversation where
  "sample_conversation = \<lparr>c_id = ''c'', c_title = [], c_activeRoundId = Some ''3'', c_createdAt = Fin 0,
     c_updatedAt = Fin 0,
     c_rounds = [sample_round ''1'' None, sample_round ''2'' (Some ''1''), sample_round ''3'' (Some ''2'')],
     c_messages = [\<lparr>m_id = ''u3'', m_role = User, m_content = round_label 1 (u_nat 2) @ round_label 2 (u_nat 1),
       m_roundId = ''3'', m_inputImageIds = None, m_maskTargetImageId = None, m_maskImageId = None,
       m_outputTaskIds = None, m_createdAt = Fin 0\<rparr>]\<rparr>"

lemma sample_ids: "ids_ok (c_rounds sample_conversation)" "''2'' \<in> r_id ` set (c_rounds sample_conversation)"
  by (simp_all add: ids_ok_def sample_conversation_def sample_round_def)

lemma sample_path: "path_to (c_rounds sample_conversation) ''2'' [sample_round ''1'' None, sample_round ''2'' (Some ''1'')]"
  "path_to (c_rounds sample_conversation) ''3''
     [sample_round ''1'' None, sample_round ''2'' (Some ''1''), sample_round ''3'' (Some ''2'')]"
proof -
  let ?rs = "c_rounds sample_conversation"
  have 1: "path_to ?rs ''1'' [sample_round ''1'' None]"
    using path_to.root [of "sample_round ''1'' None" ?rs] by (simp add: sample_conversation_def sample_round_def)
  show 2: "path_to ?rs ''2'' [sample_round ''1'' None, sample_round ''2'' (Some ''1'')]"
    using path_to.child [OF _ _ 1, of "sample_round ''2'' (Some ''1'')"] by (simp add: sample_conversation_def sample_round_def)
  show "path_to ?rs ''3'' [sample_round ''1'' None, sample_round ''2'' (Some ''1''), sample_round ''3'' (Some ''2'')]"
    using path_to.child [OF _ _ 2, of "sample_round ''3'' (Some ''2'')"] by (simp add: sample_conversation_def sample_round_def)
qed

theorem latest_leaf_returns_witness:
  "\<exists>leaf. getLatestAgentLeafId sample_conversation (Some ''2'') = Some (Some leaf) \<and>
     getAgentRoundChildren sample_conversation (Some leaf) = []"
  using latest_leaf_returns [OF sample_ids(1)] sample_path(1) unfolding rooted_def by blast

theorem delete_round_spec_witness:
  "\<exists>c'. deleteAgentRoundFromConversation sample_conversation ''2'' (Fin 7) = Some c' \<and>
     map r_id (c_rounds c') = [''1'', ''3''] \<and> map r_id (getAgentRoundPath c' (Some ''3'')) = [''1'', ''3'']"
proof -
  have p: "map r_id (getAgentRoundPath sample_conversation (Some ''3'')) = [''1'', ''2'', ''3'']"
    using path_of_rooted [OF sample_ids(1) sample_path(2)] by (simp add: sample_round_def)
  obtain c' where c': "deleteAgentRoundFromConversation sample_conversation ''2'' (Fin 7) = Some c'"
    "map r_id (c_rounds c') = filter (\<lambda>i. i \<noteq> ''2'') (map r_id (c_rounds sample_conversation))"
    "\<forall>i. i \<noteq> ''2'' \<longrightarrow> map r_id (getAgentRoundPath c' (Some i)) =
       filter (\<lambda>j. j \<noteq> ''2'') (map r_id (getAgentRoundPath sample_conversation (Some i)))"
    using delete_round_spec [OF sample_ids, of "Fin 7"] by blast
  have "map r_id (c_rounds c') = [''1'', ''3'']" using c'(2) by (simp add: sample_conversation_def sample_round_def)
  moreover have "map r_id (getAgentRoundPath c' (Some ''3'')) = [''1'', ''3'']" using c'(3) p by simp
  ultimately show ?thesis by (intro exI [of _ c'] conjI c'(1))
qed

lemma sample_mentions: "round_mentions (m_content (hd (c_messages sample_conversation))) = [(u_nat 1, u_nat 2), (u_nat 2, u_nat 1)]"
proof -
  have e: "round_mentions (round_label 2 (u_nat 1)) = [(u_nat 2, u_nat 1)]"
    using round_captures [of "[DI]" "u_nat 2" "u_nat 1" "[]"] by (simp add: round_label_def)
  have "takeWhile u_digit (round_label 2 (u_nat 1)) = []" by (simp add: round_label_def)
  from round_captures [of "[DI]" "u_nat 1" "u_nat 2", OF _ is_number_nat is_number_nat this] e show ?thesis
    by (simp add: sample_conversation_def round_label_def)
qed

theorem delete_keeps_mentions_witness:
  "\<exists>c' y'. deleteAgentRoundFromConversation sample_conversation ''2'' (Fin 7) = Some c' \<and> y' \<in> set (c_messages c') \<and>
     rounds_mentioned (m_content y') (getAgentRoundPath c' (Some ''3'')) = [(Some ''1'', u_nat 2)]"
proof -
  let ?y = "hd (c_messages sample_conversation)"
  have y: "?y \<in> set (c_messages sample_conversation)" "m_roundId ?y = ''3''" by (simp_all add: sample_conversation_def)
  have p: "getAgentRoundPath sample_conversation (Some (m_roundId ?y)) =
      [sample_round ''1'' None, sample_round ''2'' (Some ''1''), sample_round ''3'' (Some ''2'')]"
    using path_of_rooted [OF sample_ids(1) sample_path(2)] y(2) by simp
  have valid: "\<forall>(ds, _) \<in> set (round_mentions (m_content ?y)).
      round_at (getAgentRoundPath sample_conversation (Some (m_roundId ?y))) ds \<noteq> None"
    unfolding p sample_mentions by (simp add: round_at_def)
  have "filter (\<lambda>(i, _). i \<noteq> Some ''2'') (rounds_mentioned (m_content ?y)
      (getAgentRoundPath sample_conversation (Some (m_roundId ?y)))) = [(Some ''1'', u_nat 2)]"
    unfolding rounds_mentioned_def p sample_mentions by (simp add: round_at_def sample_round_def)
  moreover have "m_roundId ?y \<noteq> ''2''" "m_roundId ?y \<noteq> []" using y(2) by simp_all
  ultimately show ?thesis
    using delete_keeps_mentions [OF sample_ids y(1) _ _ valid, of "Fin 7"] unfolding y(2) by metis
qed

end
