(* ===== verification/Image_Cache.thy ===== *)
theory Image_Cache
  imports Js_Value "HOL-Library.AList" "HOL-Library.Word"
begin

section \<open>Image workbench: stored images, caches and thumbnails\<close>

text \<open>
  The images of \<open>web/gpt-image-playground/src\<close>: the object stores of \<open>lib/db.ts\<close>, addressed by the hash of
  the content, and the module state of \<open>store.ts\<close> above them: two caches that drop their least recently
  used entry, and the queue that makes missing thumbnails in the background.

  An object store and a \<open>Map\<close> are association lists.  Widths and heights are natural numbers, as the browser
  reports them.  The decoder of images, the canvas and the digest of the browser are parameters.  A
  background task is cut at its awaits: \<open>batches\<close> holds the candidates of the calls of
  \<open>processNextThumbnailBackfill\<close> that wait for the sizes, \<open>jobs\<close> the thumbnails that are being made, whose
  accesses to the stores happen together at the end of the job.
\<close>

subsection \<open>The object stores\<close>

datatype ImageSource = Upload | Generated | Mask

record StoredImage =
  si_id :: string
  si_dataUrl :: string
  si_createdAt :: "jsnum option"
  si_source :: "ImageSource option"
  si_width :: "nat option"
  si_height :: "nat option"
  si_thumbnailDataUrl :: "string option"
  si_thumbnailVersion :: "nat option"

record StoredImageThumbnail =
  st_id :: string
  st_thumbnailDataUrl :: string
  st_width :: "nat option"
  st_height :: "nat option"
  st_thumbnailVersion :: "nat option"

record ImageDb =
  db_images :: "(string \<times> StoredImage) list"
  db_thumbnails :: "(string \<times> StoredImageThumbnail) list"

abbreviation THUMBNAIL_VERSION :: nat where
  "THUMBNAIL_VERSION \<equiv> 2"

abbreviation THUMBNAIL_MAX_SIZE :: nat where
  "THUMBNAIL_MAX_SIZE \<equiv> 720"

text \<open>The truth of an optional size: \<open>undefined\<close> and 0 are false.\<close>

definition sized :: "nat option \<Rightarrow> bool" where
  "sized x = (case x of None \<Rightarrow> False | Some n \<Rightarrow> n \<noteq> 0)"

definition getImage :: "string \<Rightarrow> 'a ImageDb_scheme \<Rightarrow> StoredImage option" where
  "getImage i db = map_of (db_images db) i"

definition getStoredImageThumbnail :: "string \<Rightarrow> 'a ImageDb_scheme \<Rightarrow> StoredImageThumbnail option" where
  "getStoredImageThumbnail i db = map_of (db_thumbnails db) i"

definition getStoredFreshImageThumbnail :: "string \<Rightarrow> 'a ImageDb_scheme \<Rightarrow> StoredImageThumbnail option" where
  "getStoredFreshImageThumbnail i db =
     (case getStoredImageThumbnail i db of None \<Rightarrow> None
      | Some t \<Rightarrow> if st_thumbnailVersion t = Some THUMBNAIL_VERSION then Some t else None)"

definition putImage :: "StoredImage \<Rightarrow> 'a ImageDb_scheme \<Rightarrow> 'a ImageDb_scheme" where
  "putImage im db = db\<lparr>db_images := AList.update (si_id im) im (db_images db)\<rparr>"

definition putImageThumbnail :: "StoredImageThumbnail \<Rightarrow> 'a ImageDb_scheme \<Rightarrow> 'a ImageDb_scheme" where
  "putImageThumbnail t db = db\<lparr>db_thumbnails := AList.update (st_id t) t (db_thumbnails db)\<rparr>"

definition getAllImageIds :: "'a ImageDb_scheme \<Rightarrow> string list" where
  "getAllImageIds db = map fst (db_images db)"

definition deleteImage :: "string \<Rightarrow> 'a ImageDb_scheme \<Rightarrow> 'a ImageDb_scheme" where
  "deleteImage i db =
     db\<lparr>db_images := AList.delete i (db_images db), db_thumbnails := AList.delete i (db_thumbnails db)\<rparr>"

definition clearImages :: "'a ImageDb_scheme \<Rightarrow> 'a ImageDb_scheme" where
  "clearImages db = db\<lparr>db_images := [], db_thumbnails := []\<rparr>"

text \<open>What \<open>createImageThumbnail\<close> returns, and what the browser offers it: the natural size of a picture, and
  the picture drawn on a canvas of a given size.  \<open>None\<close> is a failure.\<close>

record ThumbnailMetadata =
  tm_thumbnailDataUrl :: string
  tm_width :: nat
  tm_height :: nat

record Canvas =
  loadImage :: "string \<Rightarrow> (nat \<times> nat) option"
  toDataURL :: "string \<Rightarrow> nat \<Rightarrow> nat \<Rightarrow> string option"

definition thumbnail_side :: "nat \<Rightarrow> nat \<Rightarrow> nat \<Rightarrow> nat" where
  "thumbnail_side side width height =
     (let scale = min 1 (of_nat THUMBNAIL_MAX_SIZE / of_nat (max width height)) :: rat
      in max 1 (nat \<lfloor>of_nat side * scale + 1 / 2\<rfloor>))"

definition createImageThumbnail :: "Canvas \<Rightarrow> string \<Rightarrow> ThumbnailMetadata option" where
  "createImageThumbnail cv url =
     (case loadImage cv url of None \<Rightarrow> None
      | Some (width, height) \<Rightarrow>
          if width = 0 \<or> height = 0 then None
          else case toDataURL cv url (thumbnail_side width width height) (thumbnail_side height width height) of
            None \<Rightarrow> None
          | Some t \<Rightarrow> Some \<lparr>tm_thumbnailDataUrl = t, tm_width = width, tm_height = height\<rparr>)"

definition new_thumbnail :: "string \<Rightarrow> ThumbnailMetadata \<Rightarrow> StoredImageThumbnail" where
  "new_thumbnail i meta =
     \<lparr>st_id = i, st_thumbnailDataUrl = tm_thumbnailDataUrl meta, st_width = Some (tm_width meta),
      st_height = Some (tm_height meta), st_thumbnailVersion = Some THUMBNAIL_VERSION\<rparr>"

text \<open>The sizes an image lacks are taken from its thumbnail.\<close>

definition fill_size :: "StoredImage \<Rightarrow> nat option \<Rightarrow> nat option \<Rightarrow> 'a ImageDb_scheme \<Rightarrow> 'a ImageDb_scheme" where
  "fill_size im width height db =
     (if (\<not> sized (si_width im) \<or> \<not> sized (si_height im)) \<and> sized width \<and> sized height
      then putImage (im\<lparr>si_width := width, si_height := height\<rparr>) db else db)"

definition correct_size :: "StoredImage \<Rightarrow> ThumbnailMetadata \<Rightarrow> 'a ImageDb_scheme \<Rightarrow> 'a ImageDb_scheme" where
  "correct_size im meta db =
     (if tm_width meta \<noteq> 0 \<and> tm_height meta \<noteq> 0 \<and>
         (si_width im \<noteq> Some (tm_width meta) \<or> si_height im \<noteq> Some (tm_height meta))
      then putImage (im\<lparr>si_width := Some (tm_width meta), si_height := Some (tm_height meta)\<rparr>) db else db)"

definition make_thumbnail ::
  "Canvas \<Rightarrow> string \<Rightarrow> StoredImage \<Rightarrow> 'a ImageDb_scheme \<Rightarrow> StoredImageThumbnail option \<times> 'a ImageDb_scheme" where
  "make_thumbnail cv i im db =
     (case createImageThumbnail cv (si_dataUrl im) of None \<Rightarrow> (None, db)
      | Some meta \<Rightarrow>
          if tm_thumbnailDataUrl meta = [] then (None, db)
          else (Some (new_thumbnail i meta), correct_size im meta (putImageThumbnail (new_thumbnail i meta) db)))"

definition getImageThumbnail ::
  "Canvas \<Rightarrow> string \<Rightarrow> 'a ImageDb_scheme \<Rightarrow> StoredImageThumbnail option \<times> 'a ImageDb_scheme" where
  "getImageThumbnail cv i db =
     (case getStoredFreshImageThumbnail i db of
        Some t \<Rightarrow> (Some t, case getImage i db of None \<Rightarrow> db | Some im \<Rightarrow> fill_size im (st_width t) (st_height t) db)
      | None \<Rightarrow>
         (case getImage i db of None \<Rightarrow> (None, db)
          | Some im \<Rightarrow>
             (case si_thumbnailDataUrl im of
                Some (c # cs) \<Rightarrow>
                  if si_thumbnailVersion im = Some THUMBNAIL_VERSION then
                    let t = \<lparr>st_id = i, st_thumbnailDataUrl = c # cs, st_width = si_width im,
                             st_height = si_height im, st_thumbnailVersion = Some THUMBNAIL_VERSION\<rparr>
                    in (Some t, fill_size im (st_width t) (st_height t) (putImageThumbnail t db))
                  else make_thumbnail cv i im db
              | _ \<Rightarrow> make_thumbnail cv i im db)))"

subsection \<open>Storing by content\<close>

definition hex_digit :: "nat \<Rightarrow> char" where
  "hex_digit n = ''0123456789abcdef'' ! n"

text \<open>\<open>(x >>> 0).toString(16).padStart(8, '0')\<close>, and the same with two digits for a byte.\<close>

definition hex_word :: "32 word \<Rightarrow> string" where
  "hex_word w = map (\<lambda>i. hex_digit (unat w div 16 ^ i mod 16)) [7, 6, 5, 4, 3, 2, 1, 0]"

definition hex_byte :: "8 word \<Rightarrow> string" where
  "hex_byte b = map (\<lambda>i. hex_digit (unat b div 16 ^ i mod 16)) [1, 0]"

definition mix :: "32 word \<Rightarrow> 32 word \<Rightarrow> char \<Rightarrow> 32 word" where
  "mix m h c = (xor h (of_nat (of_char c))) * m"

definition hashDataUrlFallback :: "string \<Rightarrow> string" where
  "hashDataUrlFallback url =
     ''fallback-'' @ hex_word (foldl (mix 0x01000193) 0x811c9dc5 url) @
     hex_word (foldl (mix 0x27d4eb2d) 0x01000193 url)"

text \<open>\<open>digest\<close> is \<open>crypto.subtle\<close> on the encoded text, \<open>None\<close> where the browser has none.\<close>

definition hashDataUrl :: "(string \<Rightarrow> 8 word list) option \<Rightarrow> string \<Rightarrow> string" where
  "hashDataUrl digest url =
     (case digest of None \<Rightarrow> hashDataUrlFallback url | Some d \<Rightarrow> concat (map hex_byte (d url)))"

definition new_image :: "string \<Rightarrow> string \<Rightarrow> jsnum \<Rightarrow> ImageSource \<Rightarrow> ThumbnailMetadata option \<Rightarrow> StoredImage" where
  "new_image i url now source meta =
     \<lparr>si_id = i, si_dataUrl = url, si_createdAt = Some now, si_source = Some source,
      si_width = map_option tm_width meta, si_height = map_option tm_height meta,
      si_thumbnailDataUrl = None, si_thumbnailVersion = None\<rparr>"

definition put_made_thumbnail :: "string \<Rightarrow> ThumbnailMetadata option \<Rightarrow> 'a ImageDb_scheme \<Rightarrow> 'a ImageDb_scheme" where
  "put_made_thumbnail i meta db =
     (case meta of None \<Rightarrow> db
      | Some t \<Rightarrow> if tm_thumbnailDataUrl t = [] then db else putImageThumbnail (new_thumbnail i t) db)"

definition storeImage ::
  "Canvas \<Rightarrow> (string \<Rightarrow> 8 word list) option \<Rightarrow> jsnum \<Rightarrow> ImageSource \<Rightarrow> string \<Rightarrow> 'a ImageDb_scheme \<Rightarrow>
   string \<times> 'a ImageDb_scheme" where
  "storeImage cv digest now source url db =
     (let i = hashDataUrl digest url
      in (i,
          case getImage i db of
            None \<Rightarrow>
              (let meta = createImageThumbnail cv url
               in put_made_thumbnail i meta (putImage (new_image i url now source meta) db))
          | Some existing \<Rightarrow>
              if getStoredFreshImageThumbnail i db \<noteq> None then db
              else let meta = createImageThumbnail cv (si_dataUrl existing)
                   in put_made_thumbnail i meta
                        (case meta of None \<Rightarrow> db | Some t \<Rightarrow> correct_size existing t db)))"

subsection \<open>The caches\<close>

datatype Priority = Visible | Background

record CachedThumbnail =
  ct_dataUrl :: string
  ct_width :: "nat option"
  ct_height :: "nat option"
  ct_thumbnailVersion :: "nat option"

record ImageModule = ImageDb +
  imageCache :: "(string \<times> string) list"
  thumbnailCache :: "(string \<times> CachedThumbnail) list"
  thumbnailBackfillIds :: "(string \<times> Priority) list"
  thumbnailBackfillRunningIds :: "string list"
  thumbnailSubscribers :: "(string \<times> nat) list"
  subscriberSets :: "nat list list"
  thumbnailBackfillScheduled :: bool
  batches :: "string list list"
  jobs :: "(string \<times> bool) list"

abbreviation MAX_IMAGE_CACHE_ENTRIES :: nat where
  "MAX_IMAGE_CACHE_ENTRIES \<equiv> 8"

abbreviation MAX_THUMBNAIL_CACHE_ENTRIES :: nat where
  "MAX_THUMBNAIL_CACHE_ENTRIES \<equiv> 80"

abbreviation MAX_THUMBNAIL_BACKFILL_CONCURRENT :: nat where
  "MAX_THUMBNAIL_BACKFILL_CONCURRENT \<equiv> 4"

text \<open>The loop that deletes the oldest entry while there are too many.\<close>

function trim_oldest :: "nat \<Rightarrow> ('k \<times> 'v) list \<Rightarrow> ('k \<times> 'v) list" where
  "trim_oldest limit [] = []"
| "trim_oldest limit ((k, v) # m) =
     (if limit < length ((k, v) # m) then trim_oldest limit (AList.delete k ((k, v) # m)) else (k, v) # m)"
  by pat_completeness auto
termination
  by (relation "measure (\<lambda>(_, m). length m)") (auto simp: AList.delete_eq le_imp_less_Suc)

text \<open>\<open>delete\<close> and then \<open>set\<close>: the key becomes the newest.\<close>

definition renew :: "'k \<Rightarrow> 'v \<Rightarrow> ('k \<times> 'v) list \<Rightarrow> ('k \<times> 'v) list" where
  "renew k v m = AList.update k v (AList.delete k m)"

definition cache_set :: "nat \<Rightarrow> 'k \<Rightarrow> 'v \<Rightarrow> ('k \<times> 'v) list \<Rightarrow> ('k \<times> 'v) list" where
  "cache_set limit k v m = trim_oldest limit (renew k v m)"

definition getCachedImage :: "string \<Rightarrow> ImageModule \<Rightarrow> string option \<times> ImageModule" where
  "getCachedImage i m =
     (case map_of (imageCache m) i of None \<Rightarrow> (None, m)
      | Some url \<Rightarrow> (Some url, if url = [] then m else m\<lparr>imageCache := renew i url (imageCache m)\<rparr>))"

definition cacheImage :: "string \<Rightarrow> string \<Rightarrow> ImageModule \<Rightarrow> ImageModule" where
  "cacheImage i url m = m\<lparr>imageCache := cache_set MAX_IMAGE_CACHE_ENTRIES i url (imageCache m)\<rparr>"

definition getCachedThumbnail :: "string \<Rightarrow> ImageModule \<Rightarrow> CachedThumbnail option \<times> ImageModule" where
  "getCachedThumbnail i m =
     (case map_of (thumbnailCache m) i of None \<Rightarrow> (None, m)
      | Some t \<Rightarrow>
          if ct_thumbnailVersion t = Some THUMBNAIL_VERSION
          then (Some t, m\<lparr>thumbnailCache := renew i t (thumbnailCache m)\<rparr>)
          else (None, m\<lparr>thumbnailCache := AList.delete i (thumbnailCache m)\<rparr>))"

definition cacheThumbnail :: "string \<Rightarrow> CachedThumbnail \<Rightarrow> ImageModule \<Rightarrow> ImageModule" where
  "cacheThumbnail i t m =
     (if ct_thumbnailVersion t \<noteq> Some THUMBNAIL_VERSION then m
      else m\<lparr>thumbnailCache := cache_set MAX_THUMBNAIL_CACHE_ENTRIES i t (thumbnailCache m)\<rparr>)"

definition ensureImageCached :: "string \<Rightarrow> ImageModule \<Rightarrow> string option \<times> ImageModule" where
  "ensureImageCached i m =
     (case getCachedImage i m of
        (Some (c # cs), m1) \<Rightarrow> (Some (c # cs), m1)
      | (_, m1) \<Rightarrow>
          (case getImage i m1 of None \<Rightarrow> (None, m1)
           | Some rec \<Rightarrow> (Some (si_dataUrl rec), cacheImage i (si_dataUrl rec) m1)))"

definition cached_form :: "StoredImageThumbnail \<Rightarrow> CachedThumbnail" where
  "cached_form t =
     \<lparr>ct_dataUrl = st_thumbnailDataUrl t, ct_width = st_width t, ct_height = st_height t,
      ct_thumbnailVersion = st_thumbnailVersion t\<rparr>"

subsection \<open>Thumbnails in the background\<close>

definition scheduleThumbnailBackfillTick :: "ImageModule \<Rightarrow> ImageModule" where
  "scheduleThumbnailBackfillTick m =
     (if thumbnailBackfillScheduled m \<or> thumbnailBackfillIds m = [] then m
      else m\<lparr>thumbnailBackfillScheduled := True\<rparr>)"

definition enqueue_backfill :: "Priority \<Rightarrow> ImageModule \<Rightarrow> string \<Rightarrow> ImageModule" where
  "enqueue_backfill priority m i =
     (case getCachedThumbnail i m of
        (Some _, m1) \<Rightarrow> m1
      | (None, m1) \<Rightarrow>
          if i \<in> set (thumbnailBackfillRunningIds m1) then m1
          else if map_of (thumbnailBackfillIds m1) i = None \<or> priority = Visible
          then m1\<lparr>thumbnailBackfillIds := AList.update i priority (thumbnailBackfillIds m1)\<rparr>
          else m1)"

definition scheduleThumbnailBackfill :: "string list \<Rightarrow> Priority \<Rightarrow> ImageModule \<Rightarrow> ImageModule" where
  "scheduleThumbnailBackfill ids priority m =
     scheduleThumbnailBackfillTick (foldl (enqueue_backfill priority) m ids)"

definition ensureImageThumbnailCached :: "string \<Rightarrow> ImageModule \<Rightarrow> CachedThumbnail option \<times> ImageModule" where
  "ensureImageThumbnailCached i m =
     (case getCachedThumbnail i m of
        (Some t, m1) \<Rightarrow> (Some t, m1)
      | (None, m1) \<Rightarrow>
          (case getStoredFreshImageThumbnail i m1 of
             Some t \<Rightarrow>
               if st_thumbnailDataUrl t = [] then (None, scheduleThumbnailBackfill [i] Visible m1)
               else (Some (cached_form t), cacheThumbnail i (cached_form t) m1)
           | None \<Rightarrow> (None, scheduleThumbnailBackfill [i] Visible m1)))"

text \<open>A set of subscribers is an object: the map holds its address in \<open>subscriberSets\<close>, and the function that
  \<open>subscribeImageThumbnail\<close> returns keeps the address.  A callback is a number.\<close>

definition subscribeImageThumbnail :: "string \<Rightarrow> nat \<Rightarrow> ImageModule \<Rightarrow> nat \<times> ImageModule" where
  "subscribeImageThumbnail i callback m =
     (case map_of (thumbnailSubscribers m) i of
        None \<Rightarrow> (length (subscriberSets m),
                 m\<lparr>thumbnailSubscribers := AList.update i (length (subscriberSets m)) (thumbnailSubscribers m),
                   subscriberSets := subscriberSets m @ [[callback]]\<rparr>)
      | Some a \<Rightarrow> (a, m\<lparr>subscriberSets := (subscriberSets m)[a := set_add (subscriberSets m ! a) callback]\<rparr>))"

definition unsubscribe :: "string \<Rightarrow> nat \<Rightarrow> nat \<Rightarrow> ImageModule \<Rightarrow> ImageModule" where
  "unsubscribe i a callback m =
     (let rest = filter (\<lambda>c. c \<noteq> callback) (subscriberSets m ! a);
          m1 = m\<lparr>subscriberSets := (subscriberSets m)[a := rest]\<rparr>
      in if rest = [] then m1\<lparr>thumbnailSubscribers := AList.delete i (thumbnailSubscribers m1)\<rparr> else m1)"

text \<open>The callbacks that \<open>notifyImageThumbnail\<close> calls.\<close>

definition notifyImageThumbnail :: "string \<Rightarrow> ImageModule \<Rightarrow> nat list" where
  "notifyImageThumbnail i m =
     (case map_of (thumbnailSubscribers m) i of None \<Rightarrow> [] | Some a \<Rightarrow> subscriberSets m ! a)"

definition getOrderedThumbnailBackfillIds :: "ImageModule \<Rightarrow> string list" where
  "getOrderedThumbnailBackfillIds m =
     map fst (filter (\<lambda>(_, p). p = Visible) (thumbnailBackfillIds m)) @
     map fst (filter (\<lambda>(_, p). p \<noteq> Visible) (thumbnailBackfillIds m))"

text \<open>The sizes of a batch in pixels; the comparison with megapixels is multiplied by a million.\<close>

fun thumbnail_concurrency :: "nat \<Rightarrow> (nat option \<times> nat option) list \<Rightarrow> nat" where
  "thumbnail_concurrency pixels [] =
     (if 8000000 \<le> pixels then 1 else if 4000000 \<le> pixels then 2 else if 2000000 \<le> pixels then 3 else 4)"
| "thumbnail_concurrency pixels ((width, height) # sizes) =
     (if \<not> sized width \<or> \<not> sized height then 1
      else thumbnail_concurrency (max pixels (the width * the height)) sizes)"

definition getThumbnailConcurrencyForBatch :: "(nat option \<times> nat option) list \<Rightarrow> nat" where
  "getThumbnailConcurrencyForBatch sizes = thumbnail_concurrency 0 sizes"

text \<open>The timer fires: \<open>run\<close>, and \<open>processNextThumbnailBackfill\<close> up to its await.\<close>

definition backfill_tick :: "ImageModule \<Rightarrow> ImageModule" where
  "backfill_tick m =
     (let m1 = m\<lparr>thumbnailBackfillScheduled := False\<rparr>
      in if thumbnailBackfillRunningIds m1 \<noteq> [] then m1
         else m1\<lparr>batches := batches m1 @
                [take MAX_THUMBNAIL_BACKFILL_CONCURRENT (getOrderedThumbnailBackfillIds m1)]\<rparr>)"

text \<open>A job knows whether it found the thumbnail in the cache when it started.\<close>

definition startThumbnailBackfill :: "ImageModule \<Rightarrow> string \<Rightarrow> ImageModule" where
  "startThumbnailBackfill m i =
     (let m1 = m\<lparr>thumbnailBackfillRunningIds := set_add (thumbnailBackfillRunningIds m) i\<rparr>;
          (cached, m2) = getCachedThumbnail i m1
      in m2\<lparr>jobs := jobs m2 @ [(i, cached \<noteq> None)]\<rparr>)"

definition image_size :: "ImageModule \<Rightarrow> string \<Rightarrow> nat option \<times> nat option" where
  "image_size m i =
     (case getImage i m of None \<Rightarrow> (None, None) | Some im \<Rightarrow> (si_width im, si_height im))"

text \<open>The sizes of the \<open>n\<close>-th waiting batch have arrived: the rest of \<open>processNextThumbnailBackfill\<close>.\<close>

definition backfill_batch :: "nat \<Rightarrow> ImageModule \<Rightarrow> ImageModule" where
  "backfill_batch n m =
     (let candidates = batches m ! n;
          selected = if candidates = [] then []
            else take (getThumbnailConcurrencyForBatch (map (image_size m) candidates)) candidates;
          m1 = m\<lparr>batches := take n (batches m) @ drop (Suc n) (batches m),
                 thumbnailBackfillIds := filter (\<lambda>(i, _). i \<notin> set selected) (thumbnailBackfillIds m)\<rparr>;
          m2 = foldl startThumbnailBackfill m1 selected
      in if thumbnailBackfillIds m2 \<noteq> [] then scheduleThumbnailBackfillTick m2 else m2)"

text \<open>A read of the sizes of the \<open>n\<close>-th waiting batch is rejected: nobody catches the rejection of
  \<open>processNextThumbnailBackfill\<close>, so its call ends there and the ids stay in the queue.\<close>

definition backfill_rejected :: "nat \<Rightarrow> ImageModule \<Rightarrow> ImageModule" where
  "backfill_rejected n m = m\<lparr>batches := take n (batches m) @ drop (Suc n) (batches m)\<rparr>"

text \<open>The job of the \<open>n\<close>-th running thumbnail ends; \<open>failed\<close> if an access to the database throws.\<close>

definition backfill_done :: "Canvas \<Rightarrow> bool \<Rightarrow> nat \<Rightarrow> ImageModule \<Rightarrow> ImageModule" where
  "backfill_done cv failed n m =
     (let (i, cached) = jobs m ! n;
          m1 = m\<lparr>jobs := take n (jobs m) @ drop (Suc n) (jobs m)\<rparr>;
          m2 = (if failed \<or> cached then m1
                else case getImageThumbnail cv i m1 of
                    (Some t, m') \<Rightarrow> if st_thumbnailDataUrl t = [] then m' else cacheThumbnail i (cached_form t) m'
                  | (None, m') \<Rightarrow> m')
      in scheduleThumbnailBackfillTick
           (m2\<lparr>thumbnailBackfillRunningIds := filter (\<lambda>j. j \<noteq> i) (thumbnailBackfillRunningIds m2)\<rparr>))"

text \<open>The state of a page that has just been loaded for the first time.\<close>

definition no_images :: ImageModule where
  "no_images =
     \<lparr>db_images = [], db_thumbnails = [], imageCache = [], thumbnailCache = [], thumbnailBackfillIds = [],
      thumbnailBackfillRunningIds = [], thumbnailSubscribers = [], subscriberSets = [],
      thumbnailBackfillScheduled = False, batches = [], jobs = []\<rparr>"

subsection \<open>The caches are bounded maps\<close>

lemma update_absent: "k \<notin> fst ` set m \<Longrightarrow> AList.update k v m = m @ [(k, v)]"
  by (induction m) auto

lemma delete_no_key: "k \<notin> fst ` set (AList.delete k m)"
  by (auto simp: AList.delete_eq)

lemma renew_eq: "renew k v m = AList.delete k m @ [(k, v)]"
  by (simp add: renew_def update_absent delete_no_key)

lemma delete_head: "k \<notin> fst ` set m \<Longrightarrow> AList.delete k m = m"
  by (simp add: AList.delete_eq) (metis (mono_tags, lifting) case_prod_beta filter_True image_eqI)

lemma trim_map_of: "map_of (trim_oldest n m) k = Some v \<Longrightarrow> map_of m k = Some v"
  by (induction n m rule: trim_oldest.induct) (auto simp: delete_conv split: if_splits)

lemma trim_length: "length (trim_oldest n m) \<le> n"
  by (induction n m rule: trim_oldest.induct) auto

lemma trim_distinct: "distinct (map fst m) \<Longrightarrow> trim_oldest n m = drop (length m - n) m"
  by (induction n m rule: trim_oldest.induct) (auto simp: delete_head Suc_diff_le not_less)

lemma trim_last:
  assumes "0 < n" "k \<notin> fst ` set m"
  shows "map_of (trim_oldest n (m @ [(k, v)])) k = Some v"
  using assms(2)
proof (induction m rule: length_induct)
  case (1 m)
  show ?case
  proof (cases m)
    case Nil
    then show ?thesis using assms(1) by simp
  next
    case (Cons x m')
    obtain k' v' where x: "x = (k', v')" by (cases x)
    with Cons 1 have ne: "k' \<noteq> k" "k \<notin> fst ` set m'" by auto
    have d: "AList.delete k' (m' @ [(k, v)]) = AList.delete k' m' @ [(k, v)]"
      using ne by (simp add: AList.delete_eq)
    have "length (AList.delete k' m') < length m" "k \<notin> fst ` set (AList.delete k' m')"
      using ne Cons by (auto simp: AList.delete_eq le_imp_less_Suc)
    with 1 have "map_of (trim_oldest n (AList.delete k' m' @ [(k, v)])) k = Some v" by blast
    moreover have "map_of m' k = None" using ne by (simp add: map_of_eq_None_iff)
    ultimately show ?thesis using ne by (simp add: Cons x d map_add_Some_iff)
  qed
qed

lemma cache_set_distinct:
  assumes "distinct (map fst m)"
  shows "distinct (map fst (renew k v m))" "distinct (map fst (cache_set n k v m))"
proof -
  show r: "distinct (map fst (renew k v m))"
    using distinct_delete [OF assms, of k] by (auto simp: renew_eq AList.delete_eq)
  show "distinct (map fst (cache_set n k v m))"
    using trim_distinct [OF r, of n] r by (simp add: cache_set_def drop_map [symmetric] distinct_drop)
qed

lemma cache_set_bounded_map: "0 < n \<Longrightarrow> bounded_map (cache_set n) n"
proof
  fix m :: "('k \<times> 'v) list" and k k' :: 'k and u v :: 'v
  assume n: "0 < n"
  show "length (cache_set n k v m) \<le> n" by (simp add: cache_set_def trim_length)
  show "distinct (map fst (cache_set n k v m))" if "distinct (map fst m)"
    using that by (rule cache_set_distinct)
  show "map_of (cache_set n k v m) k = Some v"
    unfolding cache_set_def renew_eq by (rule trim_last [OF n delete_no_key])
  show "map_of m k' = Some u" if ne: "k' \<noteq> k" and g: "map_of (cache_set n k v m) k' = Some u"
    using trim_map_of [OF g [unfolded cache_set_def]] ne
    by (auto simp: renew_def update_conv' delete_conv split: if_splits)
qed

interpretation image_cache: bounded_map "cache_set 8 :: string \<Rightarrow> string \<Rightarrow> (string \<times> string) list \<Rightarrow> (string \<times> string) list" 8
  by (rule cache_set_bounded_map) simp

interpretation thumbnail_cache: bounded_map
  "cache_set 80 :: string \<Rightarrow> CachedThumbnail \<Rightarrow> (string \<times> CachedThumbnail) list \<Rightarrow> (string \<times> CachedThumbnail) list" 80
  by (rule cache_set_bounded_map) simp

subsection \<open>What was used recently is kept\<close>

datatype CacheOp = CacheOp string string | GetOp string | DropOp string

fun cache_op :: "CacheOp \<Rightarrow> ImageModule \<Rightarrow> ImageModule" where
  "cache_op (CacheOp i url) m = cacheImage i url m"
| "cache_op (GetOp i) m = snd (getCachedImage i m)"
| "cache_op (DropOp i) m = m\<lparr>imageCache := AList.delete i (imageCache m)\<rparr>"

fun op_key :: "CacheOp \<Rightarrow> string" where
  "op_key (CacheOp i url) = i"
| "op_key (GetOp i) = i"
| "op_key (DropOp i) = i"

fun leaves :: "string \<Rightarrow> CacheOp \<Rightarrow> bool" where
  "leaves i (CacheOp j url) = (j \<noteq> i)"
| "leaves i (GetOp j) = True"
| "leaves i (DropOp j) = (j \<noteq> i)"

text \<open>The entry of \<open>i\<close> stands in the cache, and all newer entries are of keys in \<open>T\<close>.\<close>

definition newer_in :: "string \<Rightarrow> string \<Rightarrow> string set \<Rightarrow> (string \<times> string) list \<Rightarrow> bool" where
  "newer_in i url T m \<longleftrightarrow>
     distinct (map fst m) \<and> (\<exists>as bs. m = as @ (i, url) # bs \<and> fst ` set bs \<subseteq> T - {i})"

lemma newer_in_mono: "newer_in i url T m \<Longrightarrow> T \<subseteq> T' \<Longrightarrow> newer_in i url T' m"
  unfolding newer_in_def by (elim conjE exE) (intro conjI exI, assumption, assumption, blast)

lemma newer_in_distinct: "newer_in i url T m \<Longrightarrow> distinct (map fst m)"
  by (simp add: newer_in_def)

lemma newer_in_lookup: "newer_in i url T m \<Longrightarrow> map_of m i = Some url"
  by (auto simp: newer_in_def intro!: map_of_is_SomeI)

lemma newer_in_delete: "newer_in i url T m \<Longrightarrow> j \<noteq> i \<Longrightarrow> newer_in i url T (AList.delete j m)"
proof -
  assume a: "newer_in i url T m" and ne: "j \<noteq> i"
  then obtain as bs where m: "m = as @ (i, url) # bs" "fst ` set bs \<subseteq> T - {i}" and d: "distinct (map fst m)"
    by (auto simp: newer_in_def)
  have "AList.delete j m = AList.delete j as @ (i, url) # AList.delete j bs"
    using ne by (simp add: m AList.delete_eq)
  moreover have "fst ` set (AList.delete j bs) \<subseteq> T - {i}" using m(2) by (auto simp: AList.delete_eq)
  ultimately show ?thesis using distinct_delete [OF d, of j] by (auto simp: newer_in_def)
qed

lemma newer_in_renew: "newer_in i url T m \<Longrightarrow> j \<noteq> i \<Longrightarrow> newer_in i url (insert j T) (renew j v m)"
proof -
  assume a: "newer_in i url T m" and ne: "j \<noteq> i"
  obtain as bs where "AList.delete j m = as @ (i, url) # bs" "fst ` set bs \<subseteq> T - {i}"
    using newer_in_delete [OF a ne] by (auto simp: newer_in_def)
  then have "renew j v m = as @ (i, url) # (bs @ [(j, v)])" "fst ` set (bs @ [(j, v)]) \<subseteq> insert j T - {i}"
    using ne by (auto simp: renew_eq)
  then show ?thesis
    using cache_set_distinct(1) [OF newer_in_distinct [OF a]] unfolding newer_in_def by blast
qed

lemma newer_in_trim:
  assumes "newer_in i url T m" "finite T" "card (T - {i}) < n"
  shows "newer_in i url T (trim_oldest n m)"
proof -
  obtain as bs where m: "m = as @ (i, url) # bs" "fst ` set bs \<subseteq> T - {i}" and d: "distinct (map fst m)"
    using assms(1) by (auto simp: newer_in_def)
  have "length bs = card (fst ` set bs)"
    using d distinct_card [of "map fst bs"] by (simp add: m)
  also have "\<dots> \<le> card (T - {i})" by (rule card_mono) (use assms m in auto)
  finally have "length m - n \<le> length as" using assms(3) by (simp add: m)
  then have "trim_oldest n m = drop (length m - n) as @ (i, url) # bs"
    using trim_distinct [OF d, of n] by (simp add: m)
  moreover have "distinct (map fst (trim_oldest n m))"
    using trim_distinct [OF d, of n] d by (simp add: drop_map [symmetric] distinct_drop)
  ultimately show ?thesis using m(2) by (auto simp: newer_in_def)
qed

lemma newer_in_self: "distinct (map fst m) \<Longrightarrow> newer_in i url T (renew i url m)"
  using cache_set_distinct(1) [of m i url] unfolding newer_in_def
  by (intro conjI exI [of _ "AList.delete i m"] exI [of _ "[]"]) (simp_all add: renew_eq)

lemma newer_in_op:
  assumes "newer_in i url T (imageCache m)" "leaves i opn" "finite T" "card (insert (op_key opn) T - {i}) < 8"
  shows "newer_in i url (insert (op_key opn) T) (imageCache (cache_op opn m))"
proof (cases opn)
  case (CacheOp j v)
  then show ?thesis
    using assms newer_in_trim [OF newer_in_renew [OF assms(1), of j v], of 8]
    by (simp add: cacheImage_def cache_set_def)
next
  case (GetOp j)
  have keep: "newer_in i url (insert j T) (imageCache m)" by (rule newer_in_mono [OF assms(1)]) auto
  show ?thesis
  proof (cases "j = i")
    case True
    then show ?thesis
      using GetOp keep newer_in_lookup [OF assms(1)]
        newer_in_self [OF newer_in_distinct [OF assms(1)], of i url "insert i T"]
      by (cases "url = []") (simp_all add: getCachedImage_def)
  next
    case False
    then show ?thesis
      using GetOp keep newer_in_renew [OF assms(1) False]
      by (simp add: getCachedImage_def split: option.split)
  qed
next
  case (DropOp j)
  then show ?thesis
    using assms(2) newer_in_mono [OF newer_in_delete [OF assms(1), of j], of "insert j T"] by auto
qed

lemma newer_in_ops:
  assumes "newer_in i url T (imageCache m)" "\<forall>opn \<in> set ops. leaves i opn" "finite T"
    "card (T \<union> op_key ` set ops - {i}) < 8"
  shows "newer_in i url (T \<union> op_key ` set ops) (imageCache (fold cache_op ops m))"
  using assms
proof (induction ops arbitrary: T m)
  case (Cons opn ops)
  have "card (insert (op_key opn) T - {i}) \<le> card (T \<union> op_key ` set (opn # ops) - {i})"
    by (rule card_mono) (use Cons.prems in auto)
  then have "newer_in i url (insert (op_key opn) T) (imageCache (cache_op opn m))"
    using Cons.prems by (intro newer_in_op) auto
  from Cons.IH [OF this] show ?case using Cons.prems by simp
qed simp

text \<open>C15: The image cache keeps what is used: an image that was cached, or that was found in the cache, is still
  found with its content after any sequence of lookups, insertions and removals that does not overwrite or
  remove it and touches fewer than eight other images.\<close>

theorem recently_used_kept:
  assumes "distinct (map fst (imageCache m))" "\<forall>opn \<in> set ops. leaves i opn"
    "card (op_key ` set ops - {i}) < MAX_IMAGE_CACHE_ENTRIES"
    "m' = cacheImage i url m \<or> getCachedImage i m = (Some url, m') \<and> url \<noteq> []"
  shows "fst (getCachedImage i (fold cache_op ops m')) = Some url"
proof -
  have "newer_in i url {} (imageCache m')"
    using assms(4)
  proof
    assume "m' = cacheImage i url m"
    then show ?thesis
      using newer_in_trim [OF newer_in_self [OF assms(1), of i url "{}"], of 8]
      by (simp add: cacheImage_def cache_set_def)
  next
    assume "getCachedImage i m = (Some url, m') \<and> url \<noteq> []"
    then have "imageCache m' = renew i url (imageCache m)" by (auto simp: getCachedImage_def split: option.splits)
    then show ?thesis using newer_in_self [OF assms(1)] by simp
  qed
  from newer_in_ops [OF this assms(2)] assms(3)
  have "newer_in i url (op_key ` set ops) (imageCache (fold cache_op ops m'))" by simp
  from newer_in_lookup [OF this] show ?thesis by (simp add: getCachedImage_def)
qed

definition two_cached :: ImageModule where
  "two_cached = cacheImage ''b'' ''x'' (cacheImage ''a'' ''u'' no_images)"

lemma two_cached_images: "imageCache two_cached = [(''a'', ''u''), (''b'', ''x'')]"
  by (simp add: two_cached_def cacheImage_def cache_set_def renew_eq no_images_def)

theorem recently_used_kept_witness:
  "fst (getCachedImage ''a''
     (fold cache_op [CacheOp ''b'' ''y'', GetOp ''a'', CacheOp ''c'' ''z'', DropOp ''b'']
       (snd (getCachedImage ''a'' two_cached)))) = Some ''u''"
  by (rule recently_used_kept [of two_cached])
    (simp_all add: two_cached_images getCachedImage_def card_insert_if)

subsection \<open>Steps of the module\<close>

text \<open>An archive brings its images and thumbnails under ids of its own (\<open>importData\<close>), and the export makes
  thumbnails.\<close>

definition import_image ::
  "string \<Rightarrow> string \<Rightarrow> jsnum option \<Rightarrow> ImageSource option \<Rightarrow> nat option \<Rightarrow> nat option \<Rightarrow> ImageModule \<Rightarrow> ImageModule" where
  "import_image i dataUrl createdAt source width height m =
     cacheImage i dataUrl (putImage
       \<lparr>si_id = i, si_dataUrl = dataUrl, si_createdAt = createdAt, si_source = source, si_width = width,
        si_height = height, si_thumbnailDataUrl = None, si_thumbnailVersion = None\<rparr> m)"

definition import_thumbnail :: "StoredImageThumbnail \<Rightarrow> ImageModule \<Rightarrow> ImageModule" where
  "import_thumbnail t m = cacheThumbnail (st_id t) (cached_form t) (putImageThumbnail t m)"

definition export_thumbnail :: "Canvas \<Rightarrow> string \<Rightarrow> ImageModule \<Rightarrow> ImageModule" where
  "export_thumbnail cv i m =
     (case getImageThumbnail cv i m of
        (Some t, m1) \<Rightarrow> if st_thumbnailDataUrl t = [] then m1 else cacheThumbnail i (cached_form t) m1
      | (None, m1) \<Rightarrow> m1)"

text \<open>The images in \<open>clearData\<close>, and a page that is loaded anew: the stores remain, the module state is new.\<close>

definition clear_all_images :: "ImageModule \<Rightarrow> ImageModule" where
  "clear_all_images m = (clearImages m)\<lparr>imageCache := [], thumbnailCache := [], thumbnailBackfillIds := []\<rparr>"

definition new_page :: "ImageModule \<Rightarrow> ImageModule" where
  "new_page m = no_images\<lparr>db_images := db_images m, db_thumbnails := db_thumbnails m\<rparr>"

text \<open>What the page does with images, in any order: storing and caching, looking up, importing, deleting, and
  the parts of the thumbnail queue between its awaits.  \<open>forget\<close> stands for the removal of an image from the
  caches and the queue in \<open>deleteImageIfUnreferenced\<close>.  The ids of new images are hashes; \<open>given\<close> holds the
  ids and contents that come together from outside, out of an archive or the persisted input, and \<open>rejects\<close>
  says whether the database may reject a read of sizes.\<close>

definition forget :: "string \<Rightarrow> ImageModule \<Rightarrow> ImageModule" where
  "forget i m =
     m\<lparr>imageCache := AList.delete i (imageCache m), thumbnailCache := AList.delete i (thumbnailCache m),
       thumbnailBackfillIds := AList.delete i (thumbnailBackfillIds m),
       thumbnailBackfillRunningIds := filter (\<lambda>j. j \<noteq> i) (thumbnailBackfillRunningIds m),
       thumbnailSubscribers := AList.delete i (thumbnailSubscribers m)\<rparr>"

definition named :: "(string \<Rightarrow> 8 word list) option \<Rightarrow> (string \<times> string) set \<Rightarrow> string \<Rightarrow> string \<Rightarrow> bool" where
  "named digest given i url \<longleftrightarrow> hashDataUrl digest url = i \<or> (i, url) \<in> given"

inductive image_step ::
  "Canvas \<Rightarrow> (string \<Rightarrow> 8 word list) option \<Rightarrow> (string \<times> string) set \<Rightarrow> bool \<Rightarrow> ImageModule \<Rightarrow> ImageModule \<Rightarrow> bool"
  for cv digest given rejects where
  step_store: "image_step cv digest given rejects m (snd (storeImage cv digest now source url m))"
| step_cache: "named digest given i url \<Longrightarrow> image_step cv digest given rejects m (cacheImage i url m)"
| step_import: "(i, url) \<in> given \<Longrightarrow>
    image_step cv digest given rejects m (import_image i url createdAt src width height m)"
| step_import_thumbnail: "image_step cv digest given rejects m (import_thumbnail t m)"
| step_export: "image_step cv digest given rejects m (export_thumbnail cv i m)"
| step_ensure: "image_step cv digest given rejects m (snd (ensureImageCached i m))"
| step_thumbnail: "image_step cv digest given rejects m (snd (ensureImageThumbnailCached i m))"
| step_schedule: "image_step cv digest given rejects m (scheduleThumbnailBackfill ids p m)"
| step_tick: "thumbnailBackfillScheduled m \<Longrightarrow> image_step cv digest given rejects m (backfill_tick m)"
| step_batch: "n < length (batches m) \<Longrightarrow> image_step cv digest given rejects m (backfill_batch n m)"
| step_rejected: "rejects \<Longrightarrow> n < length (batches m) \<Longrightarrow>
    image_step cv digest given rejects m (backfill_rejected n m)"
| step_done: "n < length (jobs m) \<Longrightarrow> image_step cv digest given rejects m (backfill_done cv failed n m)"
| step_delete: "image_step cv digest given rejects m (deleteImage i m)"
| step_forget: "image_step cv digest given rejects m (forget i m)"
| step_clear: "image_step cv digest given rejects m (clear_all_images m)"
| step_page: "image_step cv digest given rejects m (new_page m)"

abbreviation image_run ::
  "Canvas \<Rightarrow> (string \<Rightarrow> 8 word list) option \<Rightarrow> (string \<times> string) set \<Rightarrow> bool \<Rightarrow> ImageModule \<Rightarrow> ImageModule \<Rightarrow> bool" where
  "image_run cv digest given rejects \<equiv> (image_step cv digest given rejects)\<^sup>*\<^sup>*"

subsection \<open>Images are addressed by their content\<close>

definition addressed :: "(string \<Rightarrow> 8 word list) option \<Rightarrow> (string \<times> string) set \<Rightarrow> ImageModule \<Rightarrow> bool" where
  "addressed digest given m \<longleftrightarrow>
     (\<forall>i im. getImage i m = Some im \<longrightarrow> named digest given i (si_dataUrl im) \<and> si_id im = i) \<and>
     (\<forall>i url. map_of (imageCache m) i = Some url \<longrightarrow> named digest given i url)"

text \<open>A change of the stores that keeps the content of every image it keeps.\<close>

definition keeps_content :: "ImageModule \<Rightarrow> ImageModule \<Rightarrow> bool" where
  "keeps_content m m' \<longleftrightarrow>
     imageCache m' = imageCache m \<and>
     (\<forall>i im. getImage i m' = Some im \<longrightarrow>
        (\<exists>im'. getImage i m = Some im' \<and> si_dataUrl im = si_dataUrl im' \<and> si_id im = si_id im'))"

lemma keeps_content_refl [simp]: "keeps_content m m"
  by (auto simp: keeps_content_def)

lemma keeps_content_trans: "keeps_content m m' \<Longrightarrow> keeps_content m' m'' \<Longrightarrow> keeps_content m m''"
  unfolding keeps_content_def by metis

lemma keeps_content_addressed: "keeps_content m m' \<Longrightarrow> addressed digest given m \<Longrightarrow> addressed digest given m'"
  unfolding keeps_content_def addressed_def by metis

lemma keeps_content_same:
  "db_images m' = db_images m \<Longrightarrow> imageCache m' = imageCache m \<Longrightarrow> keeps_content m m'"
  by (simp add: keeps_content_def getImage_def)

lemma keeps_content_queue [simp]:
  "keeps_content m (m1\<lparr>thumbnailBackfillIds := q\<rparr>) \<longleftrightarrow> keeps_content m m1"
  "keeps_content m (m1\<lparr>thumbnailBackfillRunningIds := r\<rparr>) \<longleftrightarrow> keeps_content m m1"
  "keeps_content m (m1\<lparr>batches := bs\<rparr>) \<longleftrightarrow> keeps_content m m1"
  "keeps_content m (m1\<lparr>jobs := js\<rparr>) \<longleftrightarrow> keeps_content m m1"
  "keeps_content m (m1\<lparr>thumbnailBackfillScheduled := b\<rparr>) \<longleftrightarrow> keeps_content m m1"
  by (simp_all add: keeps_content_def getImage_def)

lemma keeps_content_put:
  "getImage (si_id im) m = Some im' \<Longrightarrow> si_dataUrl im = si_dataUrl im' \<Longrightarrow> si_id im = si_id im' \<Longrightarrow>
   keeps_content m (putImage im m)"
  by (simp add: keeps_content_def getImage_def putImage_def update_conv')

lemma thumbnails_keep_content [simp]:
  "keeps_content m (putImageThumbnail t m)" "keeps_content m (put_made_thumbnail i meta m)"
  "keeps_content m (cacheThumbnail i ct m)"
  by (auto simp: keeps_content_same putImageThumbnail_def put_made_thumbnail_def cacheThumbnail_def
      split: option.split)

lemma sizes_keep_content:
  assumes "getImage i m = Some im" "si_id im = i"
  shows "keeps_content m (fill_size im w h m)" "keeps_content m (correct_size im meta m)"
  using assms by (auto simp: fill_size_def correct_size_def intro: keeps_content_put)

lemma getImage_thumbnail [simp]: "getImage i (putImageThumbnail t m) = getImage i m"
  by (simp add: getImage_def putImageThumbnail_def)

lemma thumbnail_sizes_keep_content:
  assumes "getImage i m = Some im" "si_id im = i"
  shows "keeps_content m (fill_size im w h (putImageThumbnail t m))"
    "keeps_content m (correct_size im meta (putImageThumbnail t m))"
  using assms sizes_keep_content [of i "putImageThumbnail t m" im]
  by (auto intro: keeps_content_trans [OF thumbnails_keep_content(1)])

lemma make_thumbnail_keeps:
  assumes "getImage i m = Some im" "si_id im = i"
  shows "keeps_content m (snd (make_thumbnail cv i im m))"
  using assms by (auto simp: make_thumbnail_def thumbnail_sizes_keep_content split: option.split)

lemma getImageThumbnail_keeps:
  assumes "addressed digest given m"
  shows "keeps_content m (snd (getImageThumbnail cv i m))"
proof -
  have "si_id im = i" if "getImage i m = Some im" for im using assms that by (simp add: addressed_def)
  then show ?thesis
    by (auto simp: getImageThumbnail_def Let_def make_thumbnail_keeps sizes_keep_content
        thumbnail_sizes_keep_content split: option.split list.split)
qed

lemma getCachedThumbnail_keeps [simp]: "keeps_content m (snd (getCachedThumbnail i m))"
  by (auto simp: getCachedThumbnail_def keeps_content_same split: option.split)

lemma tick_keeps [simp]: "keeps_content m (scheduleThumbnailBackfillTick m)"
  by (simp add: scheduleThumbnailBackfillTick_def keeps_content_same)

lemma foldl_keeps: "(\<And>m x. keeps_content m (f m x)) \<Longrightarrow> keeps_content m (foldl f m xs)"
  by (induction xs arbitrary: m) (auto intro: keeps_content_trans)

lemma enqueue_keeps: "keeps_content m (enqueue_backfill p m i)"
proof -
  obtain t m1 where g: "getCachedThumbnail i m = (t, m1)" by (cases "getCachedThumbnail i m")
  have "keeps_content m m1" using getCachedThumbnail_keeps [of m i] by (simp add: g)
  then show ?thesis
    by (auto simp: enqueue_backfill_def g split: option.split)
qed

lemma schedule_keeps: "keeps_content m (scheduleThumbnailBackfill ids p m)"
  unfolding scheduleThumbnailBackfill_def
  by (rule keeps_content_trans [OF foldl_keeps tick_keeps]) (rule enqueue_keeps)

lemma start_keeps: "keeps_content m (startThumbnailBackfill m i)"
proof -
  let ?m1 = "m\<lparr>thumbnailBackfillRunningIds := set_add (thumbnailBackfillRunningIds m) i\<rparr>"
  have "keeps_content m (snd (getCachedThumbnail i ?m1))"
    by (rule keeps_content_trans [of m ?m1]) simp_all
  then show ?thesis by (simp add: startThumbnailBackfill_def Let_def case_prod_beta)
qed

lemma batch_keeps: "keeps_content m (backfill_batch n m)"
proof -
  have "keeps_content m (foldl startThumbnailBackfill (m\<lparr>batches := bs, thumbnailBackfillIds := q\<rparr>) sel)" for bs q sel
    by (rule keeps_content_trans [OF _ foldl_keeps]) (simp_all add: start_keeps)
  then show ?thesis
    by (auto simp: backfill_batch_def Let_def intro: keeps_content_trans [OF _ tick_keeps])
qed

lemma ensure_thumbnail_keeps: "keeps_content m (snd (ensureImageThumbnailCached i m))"
proof -
  obtain t m1 where g: "getCachedThumbnail i m = (t, m1)" by (cases "getCachedThumbnail i m")
  have "keeps_content m m1" using getCachedThumbnail_keeps [of m i] by (simp add: g)
  then show ?thesis
    by (auto simp: ensureImageThumbnailCached_def g split: option.split
        intro: keeps_content_trans [OF _ schedule_keeps] keeps_content_trans [OF _ thumbnails_keep_content(3)])
qed

lemma done_keeps:
  assumes "addressed digest given m"
  shows "keeps_content m (backfill_done cv failed n m)"
proof -
  obtain i cached where j: "jobs m ! n = (i, cached)" by (cases "jobs m ! n")
  define m1 where "m1 = m\<lparr>jobs := take n (jobs m) @ drop (Suc n) (jobs m)\<rparr>"
  have k1: "keeps_content m m1" by (simp add: m1_def keeps_content_same)
  obtain t m' where g: "getImageThumbnail cv i m1 = (t, m')" by (cases "getImageThumbnail cv i m1")
  have k2: "keeps_content m m'"
    using keeps_content_trans [OF k1] getImageThumbnail_keeps [OF keeps_content_addressed [OF k1 assms], of cv i]
    by (simp add: g)
  have k3: "keeps_content m (scheduleThumbnailBackfillTick (m2\<lparr>thumbnailBackfillRunningIds := r\<rparr>))"
    if "keeps_content m m2" for m2 r
    by (rule keeps_content_trans [OF _ tick_keeps]) (simp add: that)
  show ?thesis
    using k1 k2 keeps_content_trans [OF k2 thumbnails_keep_content(3)]
    by (auto simp: backfill_done_def j Let_def m1_def [symmetric] g intro!: k3 split: option.split)
qed

lemma export_keeps:
  assumes "addressed digest given m"
  shows "keeps_content m (export_thumbnail cv i m)"
proof -
  obtain t m1 where g: "getImageThumbnail cv i m = (t, m1)" by (cases "getImageThumbnail cv i m")
  have "keeps_content m m1" using getImageThumbnail_keeps [OF assms, of cv i] by (simp add: g)
  then show ?thesis using keeps_content_trans [OF _ thumbnails_keep_content(3)]
    by (auto simp: export_thumbnail_def g split: option.split)
qed

lemma cache_addressed:
  "addressed digest given m \<Longrightarrow> named digest given i url \<Longrightarrow> addressed digest given (cacheImage i url m)"
  by (auto simp: addressed_def cacheImage_def getImage_def dest!: image_cache.values_from)

lemma import_addressed:
  "(i, url) \<in> given \<Longrightarrow> addressed digest given m \<Longrightarrow>
   addressed digest given (import_image i url createdAt src width height m)"
  unfolding import_image_def
  by (rule cache_addressed) (auto simp: addressed_def putImage_def getImage_def named_def update_conv')

lemma getCachedImage_addressed: "addressed digest given m \<Longrightarrow> addressed digest given (snd (getCachedImage i m))"
  by (auto simp: addressed_def getCachedImage_def getImage_def renew_def update_conv' delete_conv
      split: option.splits if_splits)

lemma ensure_addressed:
  assumes "addressed digest given m"
  shows "addressed digest given (snd (ensureImageCached i m))"
    "fst (ensureImageCached i m) = Some url \<Longrightarrow> named digest given i url"
proof -
  obtain u m1 where g: "getCachedImage i m = (u, m1)" by (cases "getCachedImage i m")
  have a: "addressed digest given m1" using getCachedImage_addressed [OF assms, of i] by (simp add: g)
  have u: "named digest given i url" if "u = Some url" for url
    using g assms that by (auto simp: getCachedImage_def addressed_def split: option.splits)
  have h: "named digest given i (si_dataUrl im)" if "getImage i m1 = Some im" for im
    using a that by (simp add: addressed_def)
  show "addressed digest given (snd (ensureImageCached i m))"
    using a h by (auto simp: ensureImageCached_def g cache_addressed split: option.split list.split)
  show "named digest given i url" if "fst (ensureImageCached i m) = Some url"
    using that u h by (auto simp: ensureImageCached_def g split: option.splits list.splits)
qed

lemma store_addressed:
  assumes "addressed digest given m"
  shows "addressed digest given (snd (storeImage cv digest now source url m))"
proof (cases "getImage (hashDataUrl digest url) m")
  case None
  have "addressed digest given (putImage (new_image (hashDataUrl digest url) url now source meta) m)" for meta
    using assms by (auto simp: addressed_def putImage_def getImage_def new_image_def named_def update_conv')
  then show ?thesis
    by (simp add: storeImage_def None Let_def keeps_content_addressed [OF thumbnails_keep_content(2)])
next
  case (Some im)
  then have "si_id im = hashDataUrl digest url" using assms by (simp add: addressed_def)
  from keeps_content_addressed [OF sizes_keep_content(2) [OF Some this] assms] show ?thesis
    using assms
    by (auto simp: storeImage_def Some Let_def
        intro!: keeps_content_addressed [OF thumbnails_keep_content(2)] split: option.split)
qed

lemma step_addressed: "image_step cv digest given rejects m m' \<Longrightarrow> addressed digest given m \<Longrightarrow> addressed digest given m'"
proof (induction rule: image_step.induct)
  case (step_tick m)
  have "keeps_content m (backfill_tick m)" by (simp add: backfill_tick_def Let_def keeps_content_same)
  then show ?case using step_tick by (blast intro: keeps_content_addressed)
next
  case (step_delete m i)
  then show ?case by (auto simp: addressed_def deleteImage_def getImage_def delete_conv)
next
  case (step_clear m)
  then show ?case by (simp add: addressed_def clear_all_images_def clearImages_def getImage_def)
next
  case (step_page m)
  then show ?case by (simp add: addressed_def new_page_def no_images_def getImage_def)
next
  case (step_import i url m createdAt src width height)
  then show ?case by (rule import_addressed)
next
  case (step_import_thumbnail m t)
  have "keeps_content m (import_thumbnail t m)"
    unfolding import_thumbnail_def by (rule keeps_content_trans [OF thumbnails_keep_content(1,3)])
  then show ?case using step_import_thumbnail by (blast intro: keeps_content_addressed)
next
  case (step_rejected n m)
  have "keeps_content m (backfill_rejected n m)" by (simp add: backfill_rejected_def)
  then show ?case using step_rejected by (blast intro: keeps_content_addressed)
next
  case (step_forget m i)
  then show ?case by (auto simp: addressed_def forget_def getImage_def delete_conv split: if_splits)
qed (auto intro: store_addressed cache_addressed ensure_addressed
    keeps_content_addressed [OF ensure_thumbnail_keeps] keeps_content_addressed [OF schedule_keeps]
    keeps_content_addressed [OF batch_keeps] keeps_content_addressed [OF done_keeps]
    keeps_content_addressed [OF export_keeps])

lemma no_images_addressed: "addressed digest given no_images"
  by (simp add: addressed_def no_images_def getImage_def)

text \<open>C14: An image is what its id says: whatever has been stored, cached, imported, deleted or made in the
  background, over any number of page loads and in any order, the content that ensureImageCached returns
  for an id hashes to that id, or it came together with that id from outside, out of an imported archive
  or the persisted input.\<close>

theorem images_content_addressed:
  assumes "image_run cv digest given rejects no_images m" "fst (ensureImageCached i m) = Some url"
  shows "hashDataUrl digest url = i \<or> (i, url) \<in> given"
proof -
  have "addressed digest given m"
    using assms(1)
    by (induction rule: rtranclp_induct) (auto simp: no_images_addressed intro: step_addressed)
  from ensure_addressed(2) [OF this assms(2)] show ?thesis by (simp add: named_def)
qed

definition blind_canvas :: Canvas where
  "blind_canvas = \<lparr>loadImage = (\<lambda>url. None), toDataURL = (\<lambda>url w h. None)\<rparr>"

definition stored_once :: "string \<times> ImageModule" where
  "stored_once = storeImage blind_canvas None (Fin 0) Upload ''data:x'' no_images"

lemma stored_once_found: "fst (ensureImageCached (fst stored_once) (snd stored_once)) = Some ''data:x''"
  by (simp add: stored_once_def storeImage_def no_images_def blind_canvas_def createImageThumbnail_def Let_def
      getImage_def put_made_thumbnail_def putImage_def new_image_def ensureImageCached_def getCachedImage_def)

theorem images_content_addressed_witness:
  "hashDataUrl None (the (fst (ensureImageCached (fst stored_once) (snd stored_once)))) = fst stored_once"
proof -
  have "image_run blind_canvas None {} False no_images (snd stored_once)"
    unfolding stored_once_def by (rule r_into_rtranclp) (rule step_store)
  from images_content_addressed [OF this stored_once_found] show ?thesis
    by (simp only: stored_once_found option.sel empty_iff simp_thms)
qed

subsection \<open>The queue of thumbnails\<close>

text \<open>Somebody will look at a queue that is not empty, and an id is marked as running only by a job.\<close>

definition live :: "ImageModule \<Rightarrow> bool" where
  "live m \<longleftrightarrow>
     (thumbnailBackfillIds m \<noteq> [] \<longrightarrow> thumbnailBackfillScheduled m \<or> batches m \<noteq> [] \<or> jobs m \<noteq> []) \<and>
     set (thumbnailBackfillRunningIds m) \<subseteq> fst ` set (jobs m)"

text \<open>The part of the state the queue depends on.\<close>

definition same_queue :: "ImageModule \<Rightarrow> ImageModule \<Rightarrow> bool" where
  "same_queue m m' \<longleftrightarrow>
     thumbnailBackfillIds m' = thumbnailBackfillIds m \<and>
     thumbnailBackfillRunningIds m' = thumbnailBackfillRunningIds m \<and>
     thumbnailBackfillScheduled m' = thumbnailBackfillScheduled m \<and> batches m' = batches m \<and> jobs m' = jobs m"

lemma same_queue_live: "same_queue m m' \<Longrightarrow> live m \<Longrightarrow> live m'"
  by (simp add: same_queue_def live_def)

lemma same_queue_db:
  "same_queue m (putImage im m)" "same_queue m (putImageThumbnail t m)" "same_queue m (deleteImage i m)"
  "same_queue m (cacheImage i url m)" "same_queue m (cacheThumbnail i ct m)"
  by (simp_all add: same_queue_def putImage_def putImageThumbnail_def deleteImage_def cacheImage_def cacheThumbnail_def)

lemma same_queue_trans: "same_queue m m' \<Longrightarrow> same_queue m' m'' \<Longrightarrow> same_queue m m''"
  by (simp add: same_queue_def)

lemma same_queue_refl [simp]: "same_queue m m"
  by (simp add: same_queue_def)

lemma same_queue_sizes:
  "same_queue m m' \<Longrightarrow> same_queue m (fill_size im w h m')"
  "same_queue m m' \<Longrightarrow> same_queue m (correct_size im meta m')"
  "same_queue m m' \<Longrightarrow> same_queue m (put_made_thumbnail i mt m')"
  by (auto simp: fill_size_def correct_size_def put_made_thumbnail_def
      intro: same_queue_trans [OF _ same_queue_db(1)] same_queue_trans [OF _ same_queue_db(2)] split: option.split)

lemma same_queue_getImageThumbnail: "same_queue m (snd (getImageThumbnail cv i m))"
  by (auto simp: getImageThumbnail_def make_thumbnail_def Let_def same_queue_db same_queue_sizes
      split: option.split list.split)

lemma same_queue_store: "same_queue m (snd (storeImage cv digest now source url m))"
  by (auto simp: storeImage_def Let_def same_queue_db same_queue_sizes split: option.split)

lemma same_queue_get:
  "same_queue m (snd (getCachedThumbnail i m))" "same_queue m (snd (getCachedImage i m))"
  by (auto simp: getCachedThumbnail_def getCachedImage_def same_queue_def split: option.split)

lemma same_queue_ensure: "same_queue m (snd (ensureImageCached i m))"
proof -
  obtain u m1 where g: "getCachedImage i m = (u, m1)" by (cases "getCachedImage i m")
  have "same_queue m m1" using same_queue_get(2) [of m i] by (simp add: g)
  then show ?thesis
    by (auto simp: ensureImageCached_def g intro: same_queue_trans [OF _ same_queue_db(4)] split: option.split list.split)
qed

lemma live_tick:
  "set (thumbnailBackfillRunningIds m) \<subseteq> fst ` set (jobs m) \<Longrightarrow> live (scheduleThumbnailBackfillTick m)"
  by (auto simp: live_def scheduleThumbnailBackfillTick_def)

lemma enqueue_jobs:
  "jobs (enqueue_backfill p m i) = jobs m"
  "thumbnailBackfillRunningIds (enqueue_backfill p m i) = thumbnailBackfillRunningIds m"
proof -
  obtain t m1 where g: "getCachedThumbnail i m = (t, m1)" by (cases "getCachedThumbnail i m")
  have "same_queue m m1" using same_queue_get(1) [of m i] by (simp add: g)
  then show "jobs (enqueue_backfill p m i) = jobs m"
    "thumbnailBackfillRunningIds (enqueue_backfill p m i) = thumbnailBackfillRunningIds m"
    by (auto simp: enqueue_backfill_def g same_queue_def split: option.split)
qed

lemma live_schedule: "live m \<Longrightarrow> live (scheduleThumbnailBackfill ids p m)"
proof -
  assume "live m"
  have "jobs (foldl (enqueue_backfill p) m ids) = jobs m \<and>
      thumbnailBackfillRunningIds (foldl (enqueue_backfill p) m ids) = thumbnailBackfillRunningIds m"
    by (induction ids arbitrary: m) (auto simp: enqueue_jobs)
  then show ?thesis using \<open>live m\<close> unfolding scheduleThumbnailBackfill_def by (intro live_tick) (simp add: live_def)
qed

lemma start_jobs:
  "fst ` set (jobs (startThumbnailBackfill m i)) = insert i (fst ` set (jobs m))"
  "set (thumbnailBackfillRunningIds (startThumbnailBackfill m i)) = insert i (set (thumbnailBackfillRunningIds m))"
proof -
  let ?m1 = "m\<lparr>thumbnailBackfillRunningIds := set_add (thumbnailBackfillRunningIds m) i\<rparr>"
  have "same_queue ?m1 (snd (getCachedThumbnail i ?m1))" by (rule same_queue_get)
  then show "fst ` set (jobs (startThumbnailBackfill m i)) = insert i (fst ` set (jobs m))"
    "set (thumbnailBackfillRunningIds (startThumbnailBackfill m i)) = insert i (set (thumbnailBackfillRunningIds m))"
    by (auto simp: startThumbnailBackfill_def Let_def case_prod_beta same_queue_def)
qed

lemma live_batch:
  assumes "live m"
  shows "live (backfill_batch n m)"
proof -
  have s: "set (thumbnailBackfillRunningIds (foldl startThumbnailBackfill m' ids)) \<subseteq>
      fst ` set (jobs (foldl startThumbnailBackfill m' ids))"
    if "set (thumbnailBackfillRunningIds m') \<subseteq> fst ` set (jobs m')" for m' ids
    using that
  proof (induction ids arbitrary: m')
    case (Cons a ids)
    have "set (thumbnailBackfillRunningIds (startThumbnailBackfill m' a)) \<subseteq> fst ` set (jobs (startThumbnailBackfill m' a))"
      unfolding start_jobs using Cons.prems by blast
    from Cons.IH [OF this] show ?case by simp
  qed simp
  have "live (if thumbnailBackfillIds m2 \<noteq> [] then scheduleThumbnailBackfillTick m2 else m2)"
    if "set (thumbnailBackfillRunningIds m2) \<subseteq> fst ` set (jobs m2)" for m2
    using that live_tick [OF that] by (simp add: live_def)
  then show ?thesis using assms unfolding backfill_batch_def Let_def by (simp add: s live_def)
qed

lemma live_done:
  assumes "live m" "n < length (jobs m)"
  shows "live (backfill_done cv failed n m)"
proof -
  obtain i cached where j: "jobs m ! n = (i, cached)" by (cases "jobs m ! n")
  define m1 where "m1 = m\<lparr>jobs := take n (jobs m) @ drop (Suc n) (jobs m)\<rparr>"
  have "set (jobs m) = insert (i, cached) (set (jobs m1))"
    using assms(2) j by (subst id_take_nth_drop [OF assms(2)]) (auto simp: m1_def)
  then have r: "set (filter (\<lambda>j. j \<noteq> i) (thumbnailBackfillRunningIds m1)) \<subseteq> fst ` set (jobs m1)"
    using assms(1) by (auto simp: live_def m1_def)
  have "live (scheduleThumbnailBackfillTick (m2\<lparr>thumbnailBackfillRunningIds := filter (\<lambda>j. j \<noteq> i) (thumbnailBackfillRunningIds m2)\<rparr>))"
    if "same_queue m1 m2" for m2
    by (rule live_tick) (use r that in \<open>simp add: same_queue_def\<close>)
  moreover obtain t m' where g: "getImageThumbnail cv i m1 = (t, m')" by (cases "getImageThumbnail cv i m1")
  moreover have "same_queue m1 m'" using same_queue_getImageThumbnail [of m1 cv i] by (simp add: g)
  ultimately show ?thesis
    by (auto simp: backfill_done_def j Let_def m1_def [symmetric] intro: same_queue_trans [OF _ same_queue_db(5)]
        split: option.split)
qed

lemma live_ensure_thumbnail:
  assumes "live m"
  shows "live (snd (ensureImageThumbnailCached i m))"
proof -
  obtain t m1 where g: "getCachedThumbnail i m = (t, m1)" by (cases "getCachedThumbnail i m")
  have "live m1" using same_queue_live [OF same_queue_get(1) assms, of i] by (simp add: g)
  then show ?thesis
    by (auto simp: ensureImageThumbnailCached_def g live_schedule
        intro: same_queue_live [OF same_queue_db(5)] split: option.split)
qed

lemma same_queue_export: "same_queue m (export_thumbnail cv i m)"
proof -
  obtain t m1 where g: "getImageThumbnail cv i m = (t, m1)" by (cases "getImageThumbnail cv i m")
  have "same_queue m m1" using same_queue_getImageThumbnail [of m cv i] by (simp add: g)
  then show ?thesis
    by (auto simp: export_thumbnail_def g intro: same_queue_trans [OF _ same_queue_db(5)] split: option.split)
qed

lemma same_queue_import:
  "same_queue m (import_image i url c src w h m)" "same_queue m (import_thumbnail t m)"
  unfolding import_image_def import_thumbnail_def
  by (rule same_queue_trans, rule same_queue_db, rule same_queue_db)+

lemma step_live: "image_step cv digest given False m m' \<Longrightarrow> live m \<Longrightarrow> live m'"
proof (induction rule: image_step.induct)
  case (step_tick m)
  then show ?case by (auto simp: backfill_tick_def live_def Let_def)
next
  case (step_forget m i)
  then show ?case by (auto simp: live_def forget_def)
next
  case (step_clear m)
  then show ?case by (auto simp: live_def clear_all_images_def clearImages_def)
next
  case (step_page m)
  then show ?case by (simp add: live_def new_page_def no_images_def)
qed (auto intro: live_schedule live_batch live_done live_ensure_thumbnail
    same_queue_live [OF same_queue_store] same_queue_live [OF same_queue_ensure]
    same_queue_live [OF same_queue_db(3)] same_queue_live [OF same_queue_db(4)]
    same_queue_live [OF same_queue_import(1)] same_queue_live [OF same_queue_import(2)]
    same_queue_live [OF same_queue_export])

lemma no_images_live: "live no_images"
  by (simp add: live_def no_images_def)

text \<open>C18: As long as no read of sizes is rejected by the database, the thumbnail queue does not stall:
  whenever an id is waiting, a tick is scheduled, a batch is being sized or a job is running.  (A rejected
  read ends its batch without a further look at the queue, see backfill_rejected.)\<close>

theorem backfill_never_stalls:
  assumes "image_run cv digest given False no_images m" "thumbnailBackfillIds m \<noteq> []"
  shows "thumbnailBackfillScheduled m \<or> batches m \<noteq> [] \<or> jobs m \<noteq> []"
proof -
  have "live m"
    using assms(1)
    by (induction rule: rtranclp_induct) (auto simp: no_images_live intro: step_live)
  then show ?thesis using assms(2) by (simp add: live_def)
qed

definition one_waiting :: ImageModule where
  "one_waiting = scheduleThumbnailBackfill [''a''] Background no_images"

theorem backfill_never_stalls_witness:
  "thumbnailBackfillIds one_waiting \<noteq> [] \<and>
   (thumbnailBackfillScheduled one_waiting \<or> batches one_waiting \<noteq> [] \<or> jobs one_waiting \<noteq> [])"
proof -
  have q: "thumbnailBackfillIds one_waiting \<noteq> []"
    by (simp add: one_waiting_def scheduleThumbnailBackfill_def enqueue_backfill_def getCachedThumbnail_def
        no_images_def scheduleThumbnailBackfillTick_def)
  have "image_run blind_canvas None {} False no_images one_waiting"
    unfolding one_waiting_def by (rule r_into_rtranclp) (rule step_schedule)
  from backfill_never_stalls [OF this q] q show ?thesis by (rule conjI [rotated])
qed

text \<open>After a rejected read the last id of the queue waits and nothing will look at it.\<close>

lemma backfill_stalls:
  "\<exists>m. image_run cv digest given True no_images m \<and> map fst (thumbnailBackfillIds m) = [''a''] \<and>
     \<not> thumbnailBackfillScheduled m \<and> batches m = [] \<and> jobs m = []"
proof -
  note eval = one_waiting_def no_images_def backfill_tick_def backfill_rejected_def
    scheduleThumbnailBackfill_def enqueue_backfill_def getCachedThumbnail_def scheduleThumbnailBackfillTick_def
    getOrderedThumbnailBackfillIds_def
  let ?m = "backfill_rejected 0 (backfill_tick one_waiting)"
  have s1: "image_step cv digest given True no_images one_waiting" unfolding one_waiting_def by (rule step_schedule)
  have s2: "image_step cv digest given True one_waiting (backfill_tick one_waiting)"
    by (rule step_tick) (simp add: eval)
  have s3: "image_step cv digest given True (backfill_tick one_waiting) ?m"
    by (rule step_rejected) (simp_all add: eval)
  have "image_run cv digest given True no_images ?m"
    by (rule r_into_rtranclp [of "image_step cv digest given True", OF s1, THEN rtranclp.rtrancl_into_rtrancl,
          OF s2, THEN rtranclp.rtrancl_into_rtrancl, OF s3])
  then show ?thesis by (intro exI [of _ ?m] conjI) (simp_all add: eval)
qed

subsection \<open>The limit on concurrent thumbnails\<close>

text \<open>Images whose thumbnail is not cached and which have less than two megapixels.\<close>

definition small_in :: "ImageModule \<Rightarrow> string \<Rightarrow> bool" where
  "small_in m i \<longleftrightarrow> map_of (thumbnailCache m) i = None \<and>
     (case image_size m i of
        (Some w, Some h) \<Rightarrow> 0 < w \<and> 0 < h \<and> w * h < 2000000
      | _ \<Rightarrow> False)"

lemma small_in_fields [simp]:
  "small_in (m\<lparr>thumbnailBackfillIds := q\<rparr>) = small_in m" "small_in (m\<lparr>batches := bs\<rparr>) = small_in m"
  "small_in (m\<lparr>thumbnailBackfillRunningIds := r\<rparr>) = small_in m" "small_in (m\<lparr>jobs := js\<rparr>) = small_in m"
  "small_in (m\<lparr>thumbnailBackfillScheduled := b\<rparr>) = small_in m"
  by (simp_all add: fun_eq_iff small_in_def image_size_def getImage_def)

lemma small_uncached: "small_in m i \<Longrightarrow> getCachedThumbnail i m = (None, m)"
  by (simp add: small_in_def getCachedThumbnail_def)

lemma small_concurrency:
  "n < 2000000 \<Longrightarrow> \<forall>i \<in> set ids. small_in m i \<Longrightarrow> thumbnail_concurrency n (map (image_size m) ids) = 4"
proof (induction ids arbitrary: n)
  case (Cons i ids)
  then obtain w h where "image_size m i = (Some w, Some h)" "0 < w" "0 < h" "w * h < 2000000"
    by (auto simp: small_in_def split: prod.splits option.splits)
  with Cons show ?case by (simp add: sized_def)
qed simp

lemma enqueue_small:
  assumes "distinct ids" "\<forall>i \<in> set ids. small_in m i"
    "set ids \<inter> set (thumbnailBackfillRunningIds m) = {}" "set ids \<inter> fst ` set (thumbnailBackfillIds m) = {}"
  shows "foldl (enqueue_backfill p) m ids =
    m\<lparr>thumbnailBackfillIds := thumbnailBackfillIds m @ map (\<lambda>i. (i, p)) ids\<rparr>"
  using assms
proof (induction ids arbitrary: m)
  case (Cons i ids)
  then have "map_of (thumbnailBackfillIds m) i = None" by (simp add: map_of_eq_None_iff)
  then have e: "enqueue_backfill p m i = m\<lparr>thumbnailBackfillIds := thumbnailBackfillIds m @ [(i, p)]\<rparr>"
    using Cons.prems by (simp add: enqueue_backfill_def small_uncached update_absent)
  show ?case using Cons.prems by (auto simp: e Cons.IH)
qed simp

lemma schedule_small:
  assumes "distinct ids" "\<forall>i \<in> set ids. small_in m i" "ids \<noteq> []"
    "set ids \<inter> set (thumbnailBackfillRunningIds m) = {}" "set ids \<inter> fst ` set (thumbnailBackfillIds m) = {}"
  shows "scheduleThumbnailBackfill ids p m =
    m\<lparr>thumbnailBackfillIds := thumbnailBackfillIds m @ map (\<lambda>i. (i, p)) ids, thumbnailBackfillScheduled := True\<rparr>"
  using assms by (simp add: scheduleThumbnailBackfill_def enqueue_small scheduleThumbnailBackfillTick_def)

lemma start_small:
  assumes "distinct ids" "\<forall>i \<in> set ids. small_in m i" "set ids \<inter> set (thumbnailBackfillRunningIds m) = {}"
  shows "foldl startThumbnailBackfill m ids =
    m\<lparr>thumbnailBackfillRunningIds := thumbnailBackfillRunningIds m @ ids,
      jobs := jobs m @ map (\<lambda>i. (i, False)) ids\<rparr>"
  using assms
proof (induction ids arbitrary: m)
  case (Cons i ids)
  then have e: "startThumbnailBackfill m i =
      m\<lparr>thumbnailBackfillRunningIds := thumbnailBackfillRunningIds m @ [i], jobs := jobs m @ [(i, False)]\<rparr>"
    by (simp add: startThumbnailBackfill_def set_add_def small_uncached)
  show ?case using Cons.prems by (auto simp: e Cons.IH)
qed simp

lemma take_out:
  assumes "set xs \<inter> set ys = {}"
  shows "filter (\<lambda>(i, _). i \<notin> set xs) (map (\<lambda>i. (i, p)) xs @ map (\<lambda>i. (i, q)) ys) = map (\<lambda>i. (i, q)) ys"
proof -
  have "filter (\<lambda>i. i \<notin> set xs) ys = ys" using assms by (auto simp: filter_id_conv)
  then show ?thesis by (simp add: filter_map o_def)
qed

text \<open>A queue at rest.\<close>

definition at_rest :: "ImageModule \<Rightarrow> bool" where
  "at_rest m \<longleftrightarrow> thumbnailBackfillIds m = [] \<and> thumbnailBackfillRunningIds m = [] \<and> batches m = [] \<and>
     jobs m = [] \<and> \<not> thumbnailBackfillScheduled m"

text \<open>The ids are queued and a tick begins to size them; others become visible and the next tick comes before
  the sizes.\<close>

definition two_ticks :: "string list \<Rightarrow> string list \<Rightarrow> ImageModule \<Rightarrow> ImageModule" where
  "two_ticks xs ys m =
     backfill_tick (scheduleThumbnailBackfill ys Visible (backfill_tick (scheduleThumbnailBackfill xs Background m)))"

lemma two_ticks_state:
  assumes "at_rest m" "distinct (xs @ ys)" "\<forall>i \<in> set (xs @ ys). small_in m i" "xs \<noteq> []" "length xs \<le> 4" "length ys = 4"
  shows "thumbnailBackfillScheduled (scheduleThumbnailBackfill xs Background m)"
    "thumbnailBackfillScheduled (scheduleThumbnailBackfill ys Visible
       (backfill_tick (scheduleThumbnailBackfill xs Background m)))"
    "two_ticks xs ys m = m\<lparr>thumbnailBackfillIds := map (\<lambda>i. (i, Background)) xs @ map (\<lambda>i. (i, Visible)) ys,
       batches := [xs, ys]\<rparr>"
proof -
  have r: "thumbnailBackfillIds m = []" "thumbnailBackfillRunningIds m = []" "batches m = []"
    "\<not> thumbnailBackfillScheduled m" using assms(1) by (simp_all add: at_rest_def)
  have s1: "scheduleThumbnailBackfill xs Background m =
      m\<lparr>thumbnailBackfillIds := map (\<lambda>i. (i, Background)) xs, thumbnailBackfillScheduled := True\<rparr>"
    by (subst schedule_small) (use assms r in auto)
  then show "thumbnailBackfillScheduled (scheduleThumbnailBackfill xs Background m)" by simp
  have t1: "backfill_tick (scheduleThumbnailBackfill xs Background m) =
      m\<lparr>thumbnailBackfillIds := map (\<lambda>i. (i, Background)) xs, batches := [xs]\<rparr>"
    using assms(5) r by (simp add: s1 backfill_tick_def getOrderedThumbnailBackfillIds_def filter_map o_def)
  have s2: "scheduleThumbnailBackfill ys Visible (backfill_tick (scheduleThumbnailBackfill xs Background m)) =
      m\<lparr>thumbnailBackfillIds := map (\<lambda>i. (i, Background)) xs @ map (\<lambda>i. (i, Visible)) ys, batches := [xs],
        thumbnailBackfillScheduled := True\<rparr>"
    unfolding t1 by (subst schedule_small) (use assms r in auto)
  then show "thumbnailBackfillScheduled (scheduleThumbnailBackfill ys Visible
      (backfill_tick (scheduleThumbnailBackfill xs Background m)))" by simp
  show "two_ticks xs ys m = m\<lparr>thumbnailBackfillIds := map (\<lambda>i. (i, Background)) xs @ map (\<lambda>i. (i, Visible)) ys,
       batches := [xs, ys]\<rparr>"
    using assms(6) r unfolding two_ticks_def s2
    by (simp add: backfill_tick_def getOrderedThumbnailBackfillIds_def filter_map o_def)
qed

lemma batch_small:
  assumes "batches m = xs # bs" "thumbnailBackfillIds m = map (\<lambda>i. (i, p)) xs @ map (\<lambda>i. (i, q)) ys" "xs \<noteq> []"
    "length xs \<le> 4" "distinct (xs @ ys)" "\<forall>i \<in> set xs. small_in m i" "set xs \<inter> set (thumbnailBackfillRunningIds m) = {}"
  shows "backfill_batch 0 m = m\<lparr>batches := bs, thumbnailBackfillIds := map (\<lambda>i. (i, q)) ys,
    thumbnailBackfillRunningIds := thumbnailBackfillRunningIds m @ xs, jobs := jobs m @ map (\<lambda>i. (i, False)) xs,
    thumbnailBackfillScheduled := thumbnailBackfillScheduled m \<or> ys \<noteq> []\<rparr>"
proof -
  have "getThumbnailConcurrencyForBatch (map (image_size m) xs) = 4"
    unfolding getThumbnailConcurrencyForBatch_def by (rule small_concurrency) (use assms in auto)
  moreover have "set xs \<inter> set ys = {}" using assms(5) by simp
  ultimately show ?thesis
    using assms take_out [of xs ys p q]
    by (simp add: backfill_batch_def Let_def start_small scheduleThumbnailBackfillTick_def del: map_eq_Cons_conv)
qed

text \<open>C38: The limit on concurrent thumbnails is not kept.  From every state in which the queue is at rest, with
  up to four queued images and four that become visible, all different, without a cached thumbnail and of
  less than two megapixels, there is a run in which the second tick comes before the sizes of the first
  batch, and at its end the thumbnails of all of them are being made at the same time.\<close>

theorem backfill_exceeds_limit:
  assumes "at_rest m" "distinct (xs @ ys)" "\<forall>i \<in> set (xs @ ys). small_in m i" "xs \<noteq> []"
    "length xs \<le> MAX_THUMBNAIL_BACKFILL_CONCURRENT" "length ys = MAX_THUMBNAIL_BACKFILL_CONCURRENT"
  shows "\<exists>m'. image_run cv digest given rejects m m' \<and> map fst (jobs m') = xs @ ys \<and>
    thumbnailBackfillRunningIds m' = xs @ ys \<and>
    MAX_THUMBNAIL_BACKFILL_CONCURRENT < length (thumbnailBackfillRunningIds m')"
proof -
  note t = two_ticks_state [OF assms]
  let ?a = "scheduleThumbnailBackfill xs Background m"
  let ?b = "scheduleThumbnailBackfill ys Visible (backfill_tick ?a)"
  define c where "c = two_ticks xs ys m"
  have r: "thumbnailBackfillRunningIds m = []" "jobs m = []" using assms(1) by (simp_all add: at_rest_def)
  have c: "batches c = [xs, ys]" "thumbnailBackfillIds c = map (\<lambda>i. (i, Background)) xs @ map (\<lambda>i. (i, Visible)) ys"
    "thumbnailBackfillRunningIds c = []" "jobs c = []" "small_in c = small_in m"
    using r by (simp_all add: c_def t(3))
  define d where "d = backfill_batch 0 c"
  have "d = c\<lparr>batches := [ys], thumbnailBackfillIds := map (\<lambda>i. (i, Visible)) ys, thumbnailBackfillRunningIds := xs,
      jobs := map (\<lambda>i. (i, False)) xs, thumbnailBackfillScheduled := thumbnailBackfillScheduled c \<or> ys \<noteq> []\<rparr>"
    using batch_small [OF c(1,2)] assms c by (simp add: d_def)
  then have d: "batches d = [ys]" "thumbnailBackfillIds d = map (\<lambda>i. (i, Visible)) ys @ map (\<lambda>i. (i, Visible)) []"
    "thumbnailBackfillRunningIds d = xs" "jobs d = map (\<lambda>i. (i, False)) xs" "small_in d = small_in m"
    by (simp_all add: c)
  have "ys \<noteq> []" "set ys \<inter> set xs = {}" using assms by auto
  then have e: "thumbnailBackfillRunningIds (backfill_batch 0 d) = xs @ ys" "map fst (jobs (backfill_batch 0 d)) = xs @ ys"
    using batch_small [OF d(1,2)] assms d by (simp_all add: o_def)
  have s: "image_step cv digest given rejects m ?a" "image_step cv digest given rejects ?a (backfill_tick ?a)"
    "image_step cv digest given rejects (backfill_tick ?a) ?b" "image_step cv digest given rejects ?b c"
    "image_step cv digest given rejects c d" "image_step cv digest given rejects d (backfill_batch 0 d)"
    using t(1,2) c(1) d(1) unfolding c_def two_ticks_def d_def by (auto intro: image_step.intros)
  have "image_run cv digest given rejects m (backfill_batch 0 d)"
    by (rule r_into_rtranclp [of "image_step cv digest given rejects", OF s(1), THEN rtranclp.rtrancl_into_rtrancl,
          OF s(2), THEN rtranclp.rtrancl_into_rtrancl, OF s(3), THEN rtranclp.rtrancl_into_rtrancl, OF s(4),
          THEN rtranclp.rtrancl_into_rtrancl, OF s(5), THEN rtranclp.rtrancl_into_rtrancl, OF s(6)])
  moreover have "MAX_THUMBNAIL_BACKFILL_CONCURRENT < length (thumbnailBackfillRunningIds (backfill_batch 0 d))"
    using assms by (cases xs) (simp_all add: e)
  ultimately show ?thesis using e by blast
qed

definition small_image :: "string \<Rightarrow> string \<times> StoredImage" where
  "small_image i =
     (i, \<lparr>si_id = i, si_dataUrl = i, si_createdAt = None, si_source = None, si_width = Some 100,
          si_height = Some 100, si_thumbnailDataUrl = None, si_thumbnailVersion = None\<rparr>)"

definition small_images :: ImageModule where
  "small_images = no_images\<lparr>db_images := map small_image [''a'', ''b'', ''c'', ''d'', ''e'']\<rparr>"

theorem backfill_exceeds_limit_witness:
  "\<exists>m'. image_run blind_canvas None {} False small_images m' \<and>
     thumbnailBackfillRunningIds m' = [''a'', ''b'', ''c'', ''d'', ''e'']"
proof -
  have "at_rest small_images" by (simp add: at_rest_def small_images_def no_images_def)
  moreover have "\<forall>i \<in> set ([''a''] @ [''b'', ''c'', ''d'', ''e'']). small_in small_images i"
    by (simp add: small_in_def small_images_def no_images_def small_image_def image_size_def getImage_def)
  ultimately show ?thesis
    using backfill_exceeds_limit [of small_images "[''a'']" "[''b'', ''c'', ''d'', ''e'']" blind_canvas None "{}" False]
    by auto
qed

end
