(* ===== verification/Input_Drafts.thy ===== *)
theory Input_Drafts
  imports Agent_Rounds Image_Cache
begin

section \<open>Image workbench: the input and its drafts\<close>

text \<open>
  The input of the workbench in \<open>web/gpt-image-playground/src/store.ts\<close>: the prompt, the input images and the
  mask, the actions that change them, and the drafts that keep them while the user is in the other mode
  or in another conversation.

  The record \<open>InputFields\<close> is the part of the state the code picks (\<open>prompt\<close>, \<open>inputImages\<close>, \<open>maskDraft\<close>,
  \<open>maskEditorImageId\<close>); drafts and the state extend it.  Of the other state, \<open>AppState\<close> has what these actions
  read or write.  An object indexed by conversations is an association list.  The clock, a fresh id
  and the active profile, which the settings determine, are arguments.
\<close>

subsection \<open>The state\<close>

datatype AppMode = Gallery | Agent

record MaskDraft =
  targetImageId :: string
  maskDataUrl :: string
  md_updatedAt :: jsnum

record InputFields =
  i_prompt :: utext
  i_inputImages :: "InputImage list"
  i_maskDraft :: "MaskDraft option"
  i_maskEditorImageId :: "string option"

record AgentInputDraft = InputFields +
  d_updatedAt :: "jsnum option"

datatype TaskStatus = TaskRunning | TaskDone | TaskError

record TaskRecord =
  t_id :: string
  t_prompt :: utext
  t_inputImageIds :: "string list"
  t_maskTargetImageId :: "string option"
  t_maskImageId :: "string option"
  t_outputImages :: "string list"
  t_transparentOriginalImages :: "string list option"
  t_streamPartialImageIds :: "string list option"
  t_outputErrors :: "(nat \<times> utext) list option"
  t_rawResponsePayload :: "string option"
  t_status :: TaskStatus
  t_agentConversationId :: "string option"
  t_agentRoundId :: "string option"
  t_agentToolCallId :: "string option"

record ApiProfile =
  ap_name :: utext
  ap_provider :: string
  ap_apiMode :: string

text \<open>The two dialogs of \<open>setAppMode\<close>, with the name of the profile in their text.\<close>

datatype ConfirmDialog = NeedsResponsesApi utext | ProviderWithoutAgent utext

record AppState = InputFields +
  appMode :: AppMode
  galleryInputDraft :: "AgentInputDraft option"
  agentConversations :: "AgentConversation list"
  activeAgentConversationId :: "string option"
  agentInputDrafts :: "(string \<times> AgentInputDraft) list"
  agentSidebarCollapsed :: bool
  agentAssetPanelCollapsed :: bool
  agentMobileHeaderVisible :: bool
  agentEditingRoundId :: "string option"
  tasks :: "TaskRecord list"
  selectedTaskIds :: "string list"
  selectedFavoriteCollectionIds :: "string list"
  confirmDialog :: "ConfirmDialog option"

text \<open>An id that is not null and not the empty string, which is false in a condition.\<close>

definition present :: "string option \<Rightarrow> string option" where
  "present x = (case x of Some (c # cs) \<Rightarrow> x | _ \<Rightarrow> None)"

text \<open>\<open>{ ...state, ...fields }\<close>.\<close>

definition put_inputs :: "'a InputFields_scheme \<Rightarrow> 'b InputFields_scheme \<Rightarrow> 'b InputFields_scheme" where
  "put_inputs f s =
     s\<lparr>i_prompt := i_prompt f, i_inputImages := i_inputImages f, i_maskDraft := i_maskDraft f,
       i_maskEditorImageId := i_maskEditorImageId f\<rparr>"

subsection \<open>Drafts\<close>

definition clearInputDraftState :: InputFields where
  "clearInputDraftState =
     \<lparr>i_prompt = [], i_inputImages = [], i_maskDraft = None, i_maskEditorImageId = None\<rparr>"

definition draft_of :: "jsnum option \<Rightarrow> 'a InputFields_scheme \<Rightarrow> AgentInputDraft" where
  "draft_of t s =
     \<lparr>i_prompt = i_prompt s, i_inputImages = i_inputImages s, i_maskDraft = i_maskDraft s,
      i_maskEditorImageId = i_maskEditorImageId s, d_updatedAt = t\<rparr>"

definition copyAgentInputDraft :: "jsnum \<Rightarrow> AgentInputDraft \<Rightarrow> AgentInputDraft" where
  "copyAgentInputDraft now draft =
     draft_of (Some (case d_updatedAt draft of None \<Rightarrow> now | Some t \<Rightarrow> t)) draft"

definition getCurrentAgentInputDraft :: "jsnum \<Rightarrow> AppState \<Rightarrow> AgentInputDraft" where
  "getCurrentAgentInputDraft now s = draft_of (Some now) s"

definition isEmptyAgentInputDraft :: "AgentInputDraft \<Rightarrow> bool" where
  "isEmptyAgentInputDraft draft \<longleftrightarrow>
     i_prompt draft = [] \<and> i_inputImages draft = [] \<and> i_maskDraft draft = None \<and>
     present (i_maskEditorImageId draft) = None"

definition setAgentInputDraft ::
  "jsnum \<Rightarrow> (string \<times> AgentInputDraft) list \<Rightarrow> string \<Rightarrow> AgentInputDraft \<Rightarrow> (string \<times> AgentInputDraft) list" where
  "setAgentInputDraft now drafts conversationId draft =
     (if isEmptyAgentInputDraft draft then AList.delete conversationId drafts
      else AList.update conversationId (copyAgentInputDraft now draft) drafts)"

definition saveActiveAgentInputDrafts :: "jsnum \<Rightarrow> AppState \<Rightarrow> (string \<times> AgentInputDraft) list" where
  "saveActiveAgentInputDrafts now s =
     (case present (activeAgentConversationId s) of
        None \<Rightarrow> agentInputDrafts s
      | Some c \<Rightarrow>
          if appMode s \<noteq> Agent then agentInputDrafts s
          else setAgentInputDraft now (agentInputDrafts s) c (getCurrentAgentInputDraft now s))"

definition save_draft :: "jsnum \<Rightarrow> AgentInputDraft \<Rightarrow> AgentInputDraft option" where
  "save_draft now draft = (if isEmptyAgentInputDraft draft then None else Some (copyAgentInputDraft now draft))"

definition saveGalleryInputDraft :: "jsnum \<Rightarrow> AppState \<Rightarrow> AgentInputDraft option" where
  "saveGalleryInputDraft now s =
     (if appMode s \<noteq> Gallery then galleryInputDraft s else save_draft now (getCurrentAgentInputDraft now s))"

definition restoreGalleryInputDraftState :: "AgentInputDraft option \<Rightarrow> InputFields" where
  "restoreGalleryInputDraftState draft =
     (case draft of None \<Rightarrow> clearInputDraftState
      | Some d \<Rightarrow> \<lparr>i_prompt = i_prompt d, i_inputImages = i_inputImages d, i_maskDraft = i_maskDraft d,
                   i_maskEditorImageId = i_maskEditorImageId d\<rparr>)"

definition restoreAgentInputDraftState :: "(string \<times> AgentInputDraft) list \<Rightarrow> string option \<Rightarrow> InputFields" where
  "restoreAgentInputDraftState drafts conversationId =
     restoreGalleryInputDraftState
       (case present conversationId of None \<Rightarrow> None | Some c \<Rightarrow> map_of drafts c)"

text \<open>The patch of an action, and the state after \<open>set((s) => syncActiveInputDraft(s, patch))\<close>.\<close>

record InputPatch =
  p_prompt :: "utext option"
  p_inputImages :: "InputImage list option"
  p_maskDraft :: "MaskDraft option option"
  p_maskEditorImageId :: "string option option"

definition no_patch :: InputPatch where
  "no_patch = \<lparr>p_prompt = None, p_inputImages = None, p_maskDraft = None, p_maskEditorImageId = None\<rparr>"

definition patched :: "InputPatch \<Rightarrow> AppState \<Rightarrow> AppState" where
  "patched p s =
     s\<lparr>i_prompt := (case p_prompt p of None \<Rightarrow> i_prompt s | Some x \<Rightarrow> x),
       i_inputImages := (case p_inputImages p of None \<Rightarrow> i_inputImages s | Some x \<Rightarrow> x),
       i_maskDraft := (case p_maskDraft p of None \<Rightarrow> i_maskDraft s | Some x \<Rightarrow> x),
       i_maskEditorImageId := (case p_maskEditorImageId p of None \<Rightarrow> i_maskEditorImageId s | Some x \<Rightarrow> x)\<rparr>"

definition syncActiveInputDraft :: "jsnum \<Rightarrow> AppState \<Rightarrow> InputPatch \<Rightarrow> AppState" where
  "syncActiveInputDraft now s p =
     (let s1 = patched p s; draft = draft_of None s1
      in if appMode s = Gallery then s1\<lparr>galleryInputDraft := save_draft now draft\<rparr>
         else case present (activeAgentConversationId s) of
             None \<Rightarrow> s1
           | Some c \<Rightarrow> s1\<lparr>agentInputDrafts := setAgentInputDraft now (agentInputDrafts s) c draft\<rparr>)"

text \<open>The drafts that are written to the local storage: without the contents of the images, and only of
  conversations that exist.\<close>

definition getPersistableAgentInputDrafts :: "jsnum \<Rightarrow> AppState \<Rightarrow> (string \<times> AgentInputDraft) list" where
  "getPersistableAgentInputDrafts now s =
     map (\<lambda>(c, d). (c, (copyAgentInputDraft now d)
           \<lparr>i_inputImages := map (\<lambda>img. \<lparr>img_id = img_id img, dataUrl = []\<rparr>) (i_inputImages d)\<rparr>))
       (filter (\<lambda>(c, d). c \<in> c_id ` set (agentConversations s) \<and> \<not> isEmptyAgentInputDraft d)
         (saveActiveAgentInputDrafts now s))"

abbreviation AGENT_INPUT_DRAFT_RETENTION_MS :: rat where
  "AGENT_INPUT_DRAFT_RETENTION_MS \<equiv> 3 * 24 * 60 * 60 * 1000"

definition cleanStaleAgentInputDrafts ::
  "(string \<times> AgentInputDraft) list \<Rightarrow> string option \<Rightarrow> rat \<Rightarrow> (string \<times> AgentInputDraft) list" where
  "cleanStaleAgentInputDrafts drafts activeConversationId now =
     filter (\<lambda>(c, d). Some c = activeConversationId \<or>
         num_le (Fin (now - AGENT_INPUT_DRAFT_RETENTION_MS)) (case d_updatedAt d of None \<Rightarrow> Fin now | Some t \<Rightarrow> t))
       drafts"

subsection \<open>Actions on the input\<close>

definition orderImagesWithMaskFirst :: "InputImage list \<Rightarrow> string option \<Rightarrow> InputImage list" where
  "orderImagesWithMaskFirst images maskTargetImageId =
     (case present maskTargetImageId of None \<Rightarrow> images
      | Some t \<Rightarrow>
         (case findIndex (\<lambda>img. img_id img = t) images of None \<Rightarrow> images
          | Some k \<Rightarrow> if k = 0 then images else (images ! k) # take k images @ drop (Suc k) images))"

definition setPrompt :: "jsnum \<Rightarrow> utext \<Rightarrow> AppState \<Rightarrow> AppState" where
  "setPrompt now prompt s = syncActiveInputDraft now s (no_patch\<lparr>p_prompt := Some prompt\<rparr>)"

definition addInputImage :: "jsnum \<Rightarrow> InputImage \<Rightarrow> AppState \<Rightarrow> AppState" where
  "addInputImage now img s =
     (if img_id img \<in> img_id ` set (i_inputImages s) then s
      else syncActiveInputDraft now s (no_patch\<lparr>p_inputImages := Some (i_inputImages s @ [img])\<rparr>))"

text \<open>The id of the image the mask belongs to, \<open>s.maskDraft?.targetImageId\<close>.\<close>

definition mask_target :: "AppState \<Rightarrow> string option" where
  "mask_target s = map_option targetImageId (i_maskDraft s)"

definition clear_mask_if :: "bool \<Rightarrow> InputPatch \<Rightarrow> InputPatch" where
  "clear_mask_if b p = (if b then p\<lparr>p_maskDraft := Some None, p_maskEditorImageId := Some None\<rparr> else p)"

text \<open>The patch that replaces the images and moves the mentions of the prompt with them.\<close>

definition images_patch :: "AppState \<Rightarrow> InputImage list \<Rightarrow> (string \<times> string) list \<Rightarrow> InputPatch" where
  "images_patch s inputImages equivalentImageIds =
     no_patch\<lparr>p_inputImages := Some inputImages,
       p_prompt := Some (remapImageMentionsForOrder (i_prompt s) (i_inputImages s) inputImages equivalentImageIds)\<rparr>"

text \<open>The state after the call of \<open>set\<close> in \<open>replaceInputImage\<close>, and the id of the image that was replaced.\<close>

definition replace_input :: "jsnum \<Rightarrow> int \<Rightarrow> InputImage \<Rightarrow> AppState \<Rightarrow> AppState \<times> string option" where
  "replace_input now idx img s =
     (let images = i_inputImages s; k = nat idx
      in if idx < 0 \<or> int (length images) \<le> idx then (s, None)
         else let previous = images ! k
         in if img_id previous = img_id img then (s, None)
            else if img_id img \<in> img_id ` set (take k images @ drop (Suc k) images) then (s, None)
            else (syncActiveInputDraft now s
                    (clear_mask_if (mask_target s = Some (img_id previous))
                      (images_patch s (images[k := img]) [(img_id previous, img_id img)])),
                  Some (img_id previous)))"

definition removeInputImage :: "jsnum \<Rightarrow> int \<Rightarrow> AppState \<Rightarrow> AppState" where
  "removeInputImage now idx s =
     (let images = i_inputImages s; k = nat idx; inside = (0 \<le> idx \<and> idx < int (length images));
          removed = (if inside then Some (img_id (images ! k)) else None)
      in syncActiveInputDraft now s
           (clear_mask_if (removed = mask_target s)
             (images_patch s (if inside then take k images @ drop (Suc k) images else images) [])))"

definition clear_inputs :: "jsnum \<Rightarrow> AppState \<Rightarrow> AppState" where
  "clear_inputs now s = syncActiveInputDraft now s (clear_mask_if True (images_patch s [] []))"

definition setInputImages :: "jsnum \<Rightarrow> InputImage list \<Rightarrow> (string \<times> string) list \<Rightarrow> AppState \<Rightarrow> AppState" where
  "setInputImages now imgs equivalentImageIds s =
     (let inputImages = orderImagesWithMaskFirst imgs (mask_target s)
      in syncActiveInputDraft now s
           (clear_mask_if (case mask_target s of None \<Rightarrow> False | Some t \<Rightarrow> t \<notin> img_id ` set inputImages)
             (images_patch s inputImages equivalentImageIds)))"

text \<open>An element is taken out of a list and put in again elsewhere (the two calls of \<open>splice\<close>).\<close>

definition moved :: "nat \<Rightarrow> nat \<Rightarrow> 'a list \<Rightarrow> 'a list" where
  "moved k j xs = (let rest = take k xs @ drop (Suc k) xs in take j rest @ xs ! k # drop j rest)"

definition insert_index :: "AppState \<Rightarrow> int \<Rightarrow> int \<Rightarrow> int" where
  "insert_index s fromIdx toIdx =
     (let minTargetIdx =
            (case present (mask_target s) of None \<Rightarrow> 0
             | Some t \<Rightarrow> if t \<in> img_id ` set (i_inputImages s) then 1 else 0);
          targetIdx = max minTargetIdx (min (int (length (i_inputImages s))) toIdx)
      in if fromIdx < targetIdx then targetIdx - 1 else targetIdx)"

definition moveInputImage :: "jsnum \<Rightarrow> int \<Rightarrow> int \<Rightarrow> AppState \<Rightarrow> AppState" where
  "moveInputImage now fromIdx toIdx s =
     (let images = i_inputImages s; insertIdx = insert_index s fromIdx toIdx
      in if fromIdx < 0 \<or> int (length images) \<le> fromIdx then s
         else if present (mask_target s) = Some (img_id (images ! nat fromIdx)) then s
         else if insertIdx = fromIdx then s
         else syncActiveInputDraft now s (images_patch s (moved (nat fromIdx) (nat insertIdx) images) []))"

definition setMaskDraft :: "jsnum \<Rightarrow> MaskDraft option \<Rightarrow> AppState \<Rightarrow> AppState" where
  "setMaskDraft now maskDraft s =
     syncActiveInputDraft now s
       ((images_patch s (orderImagesWithMaskFirst (i_inputImages s) (map_option targetImageId maskDraft)) [])
         \<lparr>p_maskDraft := Some maskDraft\<rparr>)"

definition clearMaskDraft :: "jsnum \<Rightarrow> AppState \<Rightarrow> AppState" where
  "clearMaskDraft now s = syncActiveInputDraft now s (no_patch\<lparr>p_maskDraft := Some None\<rparr>)"

definition setMaskEditorImageId :: "jsnum \<Rightarrow> string option \<Rightarrow> AppState \<Rightarrow> AppState" where
  "setMaskEditorImageId now maskEditorImageId s =
     syncActiveInputDraft now s (no_patch\<lparr>p_maskEditorImageId := Some maskEditorImageId\<rparr>)"

subsection \<open>Modes and conversations\<close>

definition setAppMode :: "ApiProfile \<Rightarrow> jsnum \<Rightarrow> AppMode \<Rightarrow> AppState \<Rightarrow> AppState" where
  "setAppMode activeProfile now mode s =
     (if mode = Gallery then
        let drafts = saveActiveAgentInputDrafts now s;
            gallery = saveGalleryInputDraft now s;
            s1 = s\<lparr>appMode := Gallery, agentInputDrafts := drafts, galleryInputDraft := gallery,
                   agentMobileHeaderVisible := True, selectedTaskIds := [],
                   selectedFavoriteCollectionIds := [], agentEditingRoundId := None\<rparr>
        in if appMode s = Agent then put_inputs (restoreGalleryInputDraftState gallery) s1 else s1
      else if ap_provider activeProfile = ''openai'' \<and> ap_apiMode activeProfile = ''responses'' then
        put_inputs (restoreAgentInputDraftState (agentInputDrafts s) (activeAgentConversationId s))
          (s\<lparr>appMode := Agent, galleryInputDraft := saveGalleryInputDraft now s, agentMobileHeaderVisible := False,
             agentSidebarCollapsed := True, agentAssetPanelCollapsed := True, selectedTaskIds := [],
             selectedFavoriteCollectionIds := []\<rparr>)
      else if ap_provider activeProfile = ''openai''
      then s\<lparr>confirmDialog := Some (NeedsResponsesApi (ap_name activeProfile))\<rparr>
      else s\<lparr>confirmDialog := Some (ProviderWithoutAgent (ap_name activeProfile))\<rparr>)"

definition new_title :: utext where
  "new_title = [0x65B0, 0x5BF9, 0x8BDD]"

definition createAgentConversation :: "string \<Rightarrow> jsnum \<Rightarrow> AgentConversation" where
  "createAgentConversation fresh now =
     \<lparr>c_id = fresh, c_title = new_title, c_activeRoundId = None, c_createdAt = now, c_updatedAt = now,
      c_rounds = [], c_messages = []\<rparr>"

definition isEmptyAgentConversation :: "AgentConversation \<Rightarrow> bool" where
  "isEmptyAgentConversation c \<longleftrightarrow> c_rounds c = [] \<and> c_messages c = [] \<and> present (c_activeRoundId c) = None"

definition later_conversation :: "AgentConversation option \<Rightarrow> AgentConversation \<Rightarrow> AgentConversation option" where
  "later_conversation latest c =
     (case latest of None \<Rightarrow> Some c
      | Some l \<Rightarrow>
          if c_updatedAt c \<noteq> c_updatedAt l \<or> c_updatedAt c = NaN
          then (if num_less (c_updatedAt l) (c_updatedAt c) then Some c else Some l)
          else if num_less (c_createdAt l) (c_createdAt c) then Some c else Some l)"

definition getLatestAgentConversation :: "AgentConversation list \<Rightarrow> AgentConversation option" where
  "getLatestAgentConversation conversations = foldl later_conversation None conversations"

text \<open>The part the two branches of the action share: the drafts are saved and those of the conversation shown.\<close>

definition show_conversation :: "jsnum \<Rightarrow> AgentConversation list \<Rightarrow> string \<Rightarrow> AppState \<Rightarrow> AppState" where
  "show_conversation now conversations c s =
     (let drafts = saveActiveAgentInputDrafts now s
      in put_inputs (restoreAgentInputDraftState drafts (Some c))
           (s\<lparr>agentConversations := conversations, activeAgentConversationId := Some c, agentInputDrafts := drafts,
              agentSidebarCollapsed := True, agentEditingRoundId := None\<rparr>))"

definition create_conversation :: "string \<Rightarrow> jsnum \<Rightarrow> AppState \<Rightarrow> AppState \<times> string" where
  "create_conversation fresh now s =
     (let add = (show_conversation now (agentConversations s @ [createAgentConversation fresh now]) fresh s, fresh)
      in case getLatestAgentConversation (agentConversations s) of None \<Rightarrow> add
         | Some latest \<Rightarrow>
             if isEmptyAgentConversation latest
             then (show_conversation now
                     (map (\<lambda>c. if c_id c = c_id latest then c\<lparr>c_createdAt := now, c_updatedAt := now\<rparr> else c)
                       (agentConversations s))
                     (c_id latest) s,
                   c_id latest)
             else add)"

definition setActiveAgentConversationId :: "jsnum \<Rightarrow> string option \<Rightarrow> AppState \<Rightarrow> AppState" where
  "setActiveAgentConversationId now c s =
     (if activeAgentConversationId s = c
      then s\<lparr>activeAgentConversationId := c, agentSidebarCollapsed := True, agentAssetPanelCollapsed := True,
             agentEditingRoundId := None\<rparr>
      else let drafts = saveActiveAgentInputDrafts now s
           in put_inputs (restoreAgentInputDraftState drafts c)
                (s\<lparr>activeAgentConversationId := c, agentInputDrafts := drafts, agentSidebarCollapsed := True,
                   agentAssetPanelCollapsed := True, agentEditingRoundId := None\<rparr>))"

definition setActiveAgentRoundId :: "jsnum \<Rightarrow> string \<Rightarrow> string option \<Rightarrow> AppState \<Rightarrow> AppState" where
  "setActiveAgentRoundId now c r s =
     s\<lparr>agentConversations :=
         map (\<lambda>x. if c_id x = c then x\<lparr>c_activeRoundId := r, c_updatedAt := now\<rparr> else x) (agentConversations s)\<rparr>"

definition renameAgentConversation :: "jsnum \<Rightarrow> string \<Rightarrow> utext \<Rightarrow> AppState \<Rightarrow> AppState" where
  "renameAgentConversation now c title s =
     s\<lparr>agentConversations :=
         map (\<lambda>x. if c_id x = c then x\<lparr>c_title := title, c_updatedAt := now\<rparr> else x) (agentConversations s)\<rparr>"

definition deleteAgentConversation :: "string \<Rightarrow> AppState \<Rightarrow> AppState" where
  "deleteAgentConversation c s =
     (let s1 = s\<lparr>agentConversations := filter (\<lambda>x. c_id x \<noteq> c) (agentConversations s),
                 activeAgentConversationId :=
                   (if activeAgentConversationId s = Some c then None else activeAgentConversationId s),
                 agentInputDrafts := AList.delete c (agentInputDrafts s)\<rparr>
      in if activeAgentConversationId s = Some c then put_inputs clearInputDraftState s1 else s1)"

subsection \<open>Steps of the user\<close>

text \<open>The actions in any order and with any arguments; the controls that change conversations are shown in the
  agent mode only.  \<open>careful\<close> restricts two calls for the invariant of the images below: the images that are
  set have different ids, and a mask is set for one of the input images.  The code does not make sure of
  either (\<open>reuseConfig\<close> sets the images of a task, which may name one twice, and both it and the editing of a
  round set the mask after an await), so the relation with \<open>careful\<close> false is the one of the program.\<close>

inductive input_step :: "bool \<Rightarrow> AppState \<Rightarrow> AppState \<Rightarrow> bool" for careful where
  step_prompt: "input_step careful s (setPrompt now p s)"
| step_add: "input_step careful s (addInputImage now img s)"
| step_replace: "input_step careful s (fst (replace_input now idx img s))"
| step_remove: "input_step careful s (removeInputImage now idx s)"
| step_clear: "input_step careful s (clear_inputs now s)"
| step_images: "(careful \<Longrightarrow> distinct (map img_id imgs)) \<Longrightarrow> input_step careful s (setInputImages now imgs eqv s)"
| step_move: "input_step careful s (moveInputImage now from_idx to_idx s)"
| step_mask: "(careful \<Longrightarrow> targetImageId mk \<noteq> [] \<and> targetImageId mk \<in> img_id ` set (i_inputImages s)) \<Longrightarrow>
    input_step careful s (setMaskDraft now (Some mk) s)"
| step_no_mask: "input_step careful s (setMaskDraft now None s)"
| step_clear_mask: "input_step careful s (clearMaskDraft now s)"
| step_editor: "input_step careful s (setMaskEditorImageId now e s)"
| step_mode: "input_step careful s (setAppMode profile now mode s)"
| step_create: "appMode s = Agent \<Longrightarrow> input_step careful s (fst (create_conversation fresh now s))"
| step_active: "appMode s = Agent \<Longrightarrow> input_step careful s (setActiveAgentConversationId now c s)"
| step_round: "input_step careful s (setActiveAgentRoundId now c' r s)"
| step_rename: "input_step careful s (renameAgentConversation now c' title s)"
| step_delete: "appMode s = Agent \<Longrightarrow> input_step careful s (deleteAgentConversation c' s)"

subsection \<open>The input is that of its draft\<close>

text \<open>What the user sees of an input; an editor without an image is closed.\<close>

definition view :: "'a InputFields_scheme \<Rightarrow> utext \<times> InputImage list \<times> MaskDraft option \<times> string option" where
  "view f = (i_prompt f, i_inputImages f, i_maskDraft f, present (i_maskEditorImageId f))"

definition synced :: "AppState \<Rightarrow> bool" where
  "synced s \<longleftrightarrow>
     (appMode s = Gallery \<longrightarrow> view s = view (restoreGalleryInputDraftState (galleryInputDraft s))) \<and>
     (appMode s = Agent \<longrightarrow> present (activeAgentConversationId s) \<noteq> None \<longrightarrow>
        view s = view (restoreAgentInputDraftState (agentInputDrafts s) (activeAgentConversationId s)))"

lemma view_put [simp]: "view (put_inputs f s) = view f"
  by (simp add: view_def put_inputs_def)

lemma put_inputs_simps [simp]:
  "i_prompt (put_inputs f s) = i_prompt f" "i_inputImages (put_inputs f s) = i_inputImages f"
  "i_maskDraft (put_inputs f s) = i_maskDraft f" "i_maskEditorImageId (put_inputs f s) = i_maskEditorImageId f"
  by (simp_all add: put_inputs_def)

lemma put_inputs_other [simp]:
  fixes s :: AppState
  shows "appMode (put_inputs f s) = appMode s" "galleryInputDraft (put_inputs f s) = galleryInputDraft s"
    "activeAgentConversationId (put_inputs f s) = activeAgentConversationId s"
    "agentInputDrafts (put_inputs f s) = agentInputDrafts s" "agentConversations (put_inputs f s) = agentConversations s"
    "tasks (put_inputs f s) = tasks s"
  by (simp_all add: put_inputs_def)

lemma patched_other [simp]:
  "appMode (patched p s) = appMode s" "galleryInputDraft (patched p s) = galleryInputDraft s"
  "activeAgentConversationId (patched p s) = activeAgentConversationId s"
  "agentInputDrafts (patched p s) = agentInputDrafts s" "agentConversations (patched p s) = agentConversations s"
  "tasks (patched p s) = tasks s"
  by (simp_all add: patched_def)

lemma view_draft_of [simp]: "view (draft_of t f) = view f"
  by (simp add: view_def draft_of_def)

lemma view_copy [simp]: "view (copyAgentInputDraft now d) = view d"
  by (simp add: copyAgentInputDraft_def)

lemma view_empty: "isEmptyAgentInputDraft d \<Longrightarrow> view d = view clearInputDraftState"
  by (simp add: isEmptyAgentInputDraft_def view_def clearInputDraftState_def present_def)

lemma view_restore_Some [simp]: "view (restoreGalleryInputDraftState (Some d)) = view d"
  by (simp add: view_def restoreGalleryInputDraftState_def)

lemma view_restore_None [simp]: "restoreGalleryInputDraftState None = clearInputDraftState"
  by (simp add: restoreGalleryInputDraftState_def)

lemma view_restore_saved [simp]: "view (restoreGalleryInputDraftState (save_draft now d)) = view d"
  by (simp add: save_draft_def view_empty)

lemma present_idem [simp]: "present c = Some k \<Longrightarrow> present (Some k) = Some k"
  by (auto simp: present_def split: option.splits list.splits)

lemma view_restore_set [simp]:
  "present c = Some k \<Longrightarrow> view (restoreAgentInputDraftState (setAgentInputDraft now drafts k d) c) = view d"
  by (simp add: restoreAgentInputDraftState_def setAgentInputDraft_def delete_conv' update_conv' view_empty)

lemma view_update_drafts [simp]:
  fixes s :: AppState
  shows "view (s\<lparr>galleryInputDraft := g\<rparr>) = view s" "view (s\<lparr>agentInputDrafts := ds\<rparr>) = view s"
    "view (s\<lparr>appMode := mode\<rparr>) = view s" "view (s\<lparr>activeAgentConversationId := c\<rparr>) = view s"
    "view (s\<lparr>agentConversations := cs\<rparr>) = view s" "view (s\<lparr>agentSidebarCollapsed := b\<rparr>) = view s"
    "view (s\<lparr>agentAssetPanelCollapsed := b\<rparr>) = view s" "view (s\<lparr>agentMobileHeaderVisible := b\<rparr>) = view s"
    "view (s\<lparr>agentEditingRoundId := e\<rparr>) = view s" "view (s\<lparr>selectedTaskIds := ids\<rparr>) = view s"
    "view (s\<lparr>selectedFavoriteCollectionIds := ids\<rparr>) = view s" "view (s\<lparr>confirmDialog := d\<rparr>) = view s"
  by (simp_all add: view_def)

lemma synced_conversations [simp]: "synced (s\<lparr>agentConversations := cs\<rparr>) \<longleftrightarrow> synced s"
  by (simp add: synced_def)

lemma synced_sync: "synced (syncActiveInputDraft now s p)"
  by (cases "appMode s")
    (auto simp: synced_def syncActiveInputDraft_def Let_def split: option.split)

lemma restore_saved_active:
  assumes "synced s" "appMode s = Agent" "present c = present (activeAgentConversationId s)" "present c \<noteq> None"
  shows "view (restoreAgentInputDraftState (saveActiveAgentInputDrafts now s) c) = view s"
  using assms
  by (auto simp: saveActiveAgentInputDrafts_def getCurrentAgentInputDraft_def split: option.split)

lemma synced_show: "synced (show_conversation now cs c s)"
  if "appMode s = Agent"
  using that by (simp add: synced_def show_conversation_def Let_def)

lemma synced_step: "input_step careful s s' \<Longrightarrow> synced s \<Longrightarrow> synced s'"
proof (induction rule: input_step.induct)
  case (step_mode s profile now mode)
  then show ?case
    by (cases mode; cases "appMode s")
      (auto simp: setAppMode_def Let_def synced_def saveGalleryInputDraft_def getCurrentAgentInputDraft_def)
next
  case (step_create s fresh now)
  then show ?case by (simp add: create_conversation_def Let_def synced_show split: option.split)
next
  case (step_active s now c)
  then show ?case by (auto simp: setActiveAgentConversationId_def Let_def synced_def)
next
  case (step_delete s c)
  then show ?case
    by (auto simp: deleteAgentConversation_def Let_def synced_def restoreAgentInputDraftState_def delete_conv'
        present_def split: option.splits list.splits)
qed (auto simp: setPrompt_def addInputImage_def replace_input_def removeInputImage_def clear_inputs_def
    setInputImages_def moveInputImage_def setMaskDraft_def clearMaskDraft_def setMaskEditorImageId_def
    setActiveAgentRoundId_def renameAgentConversation_def Let_def synced_sync)

subsection \<open>Different images, and the mask on the first\<close>

definition wf_images :: "InputImage list \<Rightarrow> MaskDraft option \<Rightarrow> bool" where
  "wf_images images md \<longleftrightarrow>
     distinct (map img_id images) \<and>
     (\<forall>mk. md = Some mk \<longrightarrow> targetImageId mk \<noteq> [] \<and> images \<noteq> [] \<and> img_id (hd images) = targetImageId mk)"

abbreviation wf_input :: "'a InputFields_scheme \<Rightarrow> bool" where
  "wf_input f \<equiv> wf_images (i_inputImages f) (i_maskDraft f)"

definition wf_app :: "AppState \<Rightarrow> bool" where
  "wf_app s \<longleftrightarrow>
     wf_input s \<and> (\<forall>d. galleryInputDraft s = Some d \<longrightarrow> wf_input d) \<and>
     (\<forall>c d. map_of (agentInputDrafts s) c = Some d \<longrightarrow> wf_input d)"

lemma wf_draft_of [simp]: "wf_input (draft_of t f) \<longleftrightarrow> wf_input f"
  by (simp add: draft_of_def)

lemma wf_copy [simp]: "wf_input (copyAgentInputDraft now d) \<longleftrightarrow> wf_input d"
  by (simp add: copyAgentInputDraft_def)

lemma wf_clear [simp]: "wf_input clearInputDraftState"
  by (simp add: clearInputDraftState_def wf_images_def)

lemma wf_restore:
  "(\<And>d. g = Some d \<Longrightarrow> wf_input d) \<Longrightarrow> wf_input (restoreGalleryInputDraftState g)"
  by (cases g) (auto simp: restoreGalleryInputDraftState_def)

lemma wf_restore_agent:
  "(\<And>k d. map_of ds k = Some d \<Longrightarrow> wf_input d) \<Longrightarrow> wf_input (restoreAgentInputDraftState ds c)"
  unfolding restoreAgentInputDraftState_def by (rule wf_restore) (auto split: option.splits)

lemma wf_set_draft:
  "wf_input d \<Longrightarrow> (\<And>k d. map_of ds k = Some d \<Longrightarrow> wf_input d) \<Longrightarrow>
   map_of (setAgentInputDraft now ds c d) k = Some d' \<Longrightarrow> wf_input d'"
  by (auto simp: setAgentInputDraft_def delete_conv' update_conv' split: if_splits)

lemma wf_save: "wf_input d \<Longrightarrow> save_draft now d = Some d' \<Longrightarrow> wf_input d'"
  by (auto simp: save_draft_def split: if_splits)

lemma wf_save_active:
  "wf_app s \<Longrightarrow> map_of (saveActiveAgentInputDrafts now s) k = Some d \<Longrightarrow> wf_input d"
  by (auto simp: wf_app_def saveActiveAgentInputDrafts_def getCurrentAgentInputDraft_def
      split: option.splits if_splits dest: wf_set_draft [rotated 2])

lemma wf_save_gallery: "wf_app s \<Longrightarrow> saveGalleryInputDraft now s = Some d \<Longrightarrow> wf_input d"
  by (auto simp: wf_app_def saveGalleryInputDraft_def getCurrentAgentInputDraft_def
      split: if_splits dest: wf_save [rotated])

lemma wf_sync:
  assumes "wf_app s" "wf_input (patched p s)"
  shows "wf_app (syncActiveInputDraft now s p)"
  using assms
  by (auto simp: wf_app_def syncActiveInputDraft_def Let_def split: option.splits if_splits
      dest: wf_save [rotated] wf_set_draft [rotated 2])

lemma wf_put:
  assumes "wf_input f" "\<And>d. galleryInputDraft s = Some d \<Longrightarrow> wf_input d"
    "\<And>c d. map_of (agentInputDrafts s) c = Some d \<Longrightarrow> wf_input d"
  shows "wf_app (put_inputs f s)"
  using assms by (simp add: wf_app_def)

lemma order_mask:
  assumes "distinct (map img_id images)"
  shows "distinct (map img_id (orderImagesWithMaskFirst images t))" (is ?distinct)
    "set (orderImagesWithMaskFirst images t) = set images" (is ?set)
    "present t = Some k \<Longrightarrow> k \<in> img_id ` set images \<Longrightarrow>
       orderImagesWithMaskFirst images t \<noteq> [] \<and> img_id (hd (orderImagesWithMaskFirst images t)) = k"
proof -
  have "?distinct \<and> ?set"
  proof (cases "\<exists>k i. present t = Some k \<and> findIndex (\<lambda>img. img_id img = k) images = Some i \<and> i \<noteq> 0")
    case True
    then obtain k i where i: "present t = Some k" "findIndex (\<lambda>img. img_id img = k) images = Some i" "i \<noteq> 0" by blast
    then have l: "i < length images" using findIndex_Some by blast
    have o: "orderImagesWithMaskFirst images t = (images ! i) # take i images @ drop (Suc i) images"
      using i by (simp add: orderImagesWithMaskFirst_def)
    have m: "mset (orderImagesWithMaskFirst images t) = mset images"
      unfolding o by (subst (4) id_take_nth_drop [OF l]) simp
    then have ?set using mset_eq_setD by blast
    moreover have "mset (map img_id (orderImagesWithMaskFirst images t)) = mset (map img_id images)"
      using m by (simp only: mset_map)
    from this have ?distinct using assms mset_eq_imp_distinct_iff by blast
    ultimately show ?thesis by blast
  next
    case False
    then have "orderImagesWithMaskFirst images t = images"
      by (auto simp: orderImagesWithMaskFirst_def split: option.split)
    then show ?thesis using assms by simp
  qed
  then show ?distinct ?set by simp_all
  show "orderImagesWithMaskFirst images t \<noteq> [] \<and> img_id (hd (orderImagesWithMaskFirst images t)) = k"
    if "present t = Some k" "k \<in> img_id ` set images"
  proof (cases "findIndex (\<lambda>img. img_id img = k) images")
    case None
    then show ?thesis using that(2) by (auto simp: findIndex_None)
  next
    case (Some i)
    then have "i < length images" "img_id (images ! i) = k" using findIndex_Some by fastforce+
    then show ?thesis
      using that(1) Some by (cases "i = 0") (auto simp: orderImagesWithMaskFirst_def hd_conv_nth)
  qed
qed

lemma patched_simps [simp]:
  "i_inputImages (patched (images_patch s images eqv) s) = images"
  "i_maskDraft (patched (images_patch s images eqv) s) = i_maskDraft s"
  "i_inputImages (patched (clear_mask_if b (images_patch s images eqv)) s) = images"
  "i_maskDraft (patched (clear_mask_if b (images_patch s images eqv)) s) = (if b then None else i_maskDraft s)"
  by (simp_all add: patched_def images_patch_def clear_mask_if_def no_patch_def)

lemma wf_images_simps [simp]: "wf_images images None \<longleftrightarrow> distinct (map img_id images)"
  by (simp add: wf_images_def)

lemma distinct_without:
  "distinct (map f xs) \<Longrightarrow> distinct (map f (take k xs @ drop (Suc k) xs))"
proof -
  assume d: "distinct (map f xs)"
  have "take k xs @ drop (Suc k) xs = xs \<or> (\<exists>x. mset xs = mset (x # take k xs @ drop (Suc k) xs))"
  proof (cases "k < length xs")
    case True
    then have "mset xs = mset (xs ! k # take k xs @ drop (Suc k) xs)"
      by (subst id_take_nth_drop [OF True]) simp
    then show ?thesis by blast
  qed simp
  then show ?thesis
  proof
    assume "\<exists>x. mset xs = mset (x # take k xs @ drop (Suc k) xs)"
    then obtain x where "mset xs = mset (x # take k xs @ drop (Suc k) xs)" by blast
    then have "mset (map f xs) = mset (map f (x # take k xs @ drop (Suc k) xs))" by (simp only: mset_map)
    then have "distinct (map f (x # take k xs @ drop (Suc k) xs))" using d mset_eq_imp_distinct_iff by blast
    then show ?thesis by simp
  qed (use d in simp)
qed

lemma hd_without: "0 < k \<Longrightarrow> xs \<noteq> [] \<Longrightarrow> take k xs @ drop (Suc k) xs \<noteq> [] \<and> hd (take k xs @ drop (Suc k) xs) = hd xs"
  by (cases xs; cases k) auto

lemma wf_add: "wf_app s \<Longrightarrow> wf_app (addInputImage now img s)"
  by (auto simp: addInputImage_def intro!: wf_sync)
    (auto simp: patched_def no_patch_def wf_app_def wf_images_def)

lemma wf_remove:
  assumes "wf_app s"
  shows "wf_app (removeInputImage now idx s)"
proof -
  let ?images = "i_inputImages s" and ?k = "nat idx"
  have w: "wf_input s" using assms by (simp add: wf_app_def)
  then have d: "distinct (map img_id ?images)" by (simp add: wf_images_def)
  have "wf_images (take ?k ?images @ drop (Suc ?k) ?images) (i_maskDraft s)"
    if "0 \<le> idx" "idx < int (length ?images)" "Some (img_id (?images ! ?k)) \<noteq> mask_target s"
  proof (cases "i_maskDraft s")
    case None
    then show ?thesis using distinct_without [OF d] by simp
  next
    case (Some mk)
    with w have h: "?images \<noteq> []" "img_id (hd ?images) = targetImageId mk" by (simp_all add: wf_images_def)
    then have "0 < ?k" using that Some by (cases "?k = 0") (simp_all add: mask_target_def hd_conv_nth)
    then show ?thesis
      using w Some h distinct_without [OF d, of ?k] hd_without [of ?k ?images] by (simp add: wf_images_def)
  qed
  with w d show ?thesis unfolding removeInputImage_def Let_def
    by (intro wf_sync [OF assms]) (auto simp: distinct_without simp del: map_append)
qed

lemma distinct_replace:
  assumes "distinct (map f xs)" "k < length xs" "f y \<notin> f ` set (take k xs @ drop (Suc k) xs)"
  shows "distinct (map f (xs[k := y]))"
  using assms distinct_without [OF assms(1), of k] by (auto simp: upd_conv_take_nth_drop)

lemma wf_replace:
  assumes "wf_app s"
  shows "wf_app (fst (replace_input now idx img s))"
proof -
  let ?images = "i_inputImages s" and ?k = "nat idx"
  have w: "wf_input s" using assms by (simp add: wf_app_def)
  then have d: "distinct (map img_id ?images)" by (simp add: wf_images_def)
  have "wf_images (?images[?k := img]) (if mask_target s = Some (img_id (?images ! ?k)) then None else i_maskDraft s)"
    if k: "0 \<le> idx" "idx < int (length ?images)"
      and new: "img_id img \<notin> img_id ` set (take ?k ?images @ drop (Suc ?k) ?images)"
  proof (cases "i_maskDraft s")
    case None
    then show ?thesis using distinct_replace [OF d _ new] k by simp
  next
    case (Some mk)
    with w have h: "?images \<noteq> []" "img_id (hd ?images) = targetImageId mk" "targetImageId mk \<noteq> []"
      by (simp_all add: wf_images_def)
    show ?thesis
    proof (cases "?k = 0")
      case True
      then show ?thesis using Some h distinct_replace [OF d _ new] k by (simp add: mask_target_def hd_conv_nth)
    next
      case False
      then have "hd (?images[?k := img]) = hd ?images" using h(1) by (cases ?images; cases ?k) auto
      then show ?thesis using Some h distinct_replace [OF d _ new] k by (simp add: wf_images_def)
    qed
  qed
  then show ?thesis using assms unfolding replace_input_def Let_def
    by (auto intro!: wf_sync [OF assms])
qed

lemma wf_set_images:
  assumes "wf_app s" "distinct (map img_id imgs)"
  shows "wf_app (setInputImages now imgs eqv s)"
proof -
  let ?o = "orderImagesWithMaskFirst imgs (mask_target s)"
  have "wf_images ?o (if (case mask_target s of None \<Rightarrow> False | Some t \<Rightarrow> t \<notin> img_id ` set ?o) then None else i_maskDraft s)"
  proof (cases "i_maskDraft s")
    case None
    then show ?thesis using order_mask(1) [OF assms(2)] by (simp add: mask_target_def)
  next
    case (Some mk)
    with assms(1) have t: "targetImageId mk \<noteq> []" by (simp add: wf_app_def wf_images_def)
    with Some have "present (mask_target s) = Some (targetImageId mk)"
      by (simp add: mask_target_def present_def split: list.split)
    then show ?thesis
      using Some t order_mask [OF assms(2), of "mask_target s"] by (auto simp: mask_target_def wf_images_def)
  qed
  then show ?thesis unfolding setInputImages_def Let_def by (intro wf_sync [OF assms(1)]) simp
qed

lemma wf_set_mask:
  assumes "wf_app s" "\<And>mk. md = Some mk \<Longrightarrow> targetImageId mk \<noteq> [] \<and> targetImageId mk \<in> img_id ` set (i_inputImages s)"
  shows "wf_app (setMaskDraft now md s)"
proof -
  let ?o = "orderImagesWithMaskFirst (i_inputImages s) (map_option targetImageId md)"
  have d: "distinct (map img_id (i_inputImages s))" using assms(1) by (simp add: wf_app_def wf_images_def)
  have "wf_images ?o md"
  proof (cases md)
    case (Some mk)
    then have "present (map_option targetImageId md) = Some (targetImageId mk)"
      using assms(2) [OF Some] by (simp add: present_def split: list.split)
    from order_mask(3) [OF d this] show ?thesis
      using Some assms(2) [OF Some] order_mask(1) [OF d] by (simp add: wf_images_def)
  qed (use order_mask(1) [OF d] in simp)
  then show ?thesis unfolding setMaskDraft_def
    by (intro wf_sync [OF assms(1)]) (simp add: patched_def images_patch_def no_patch_def)
qed

lemma mset_moved: "k < length xs \<Longrightarrow> mset (moved k j xs) = mset xs"
proof -
  assume k: "k < length xs"
  let ?rest = "take k xs @ drop (Suc k) xs"
  have "mset (moved k j xs) = mset (xs ! k # ?rest)"
    unfolding moved_def Let_def by (metis append_take_drop_id mset.simps(2) mset_append union_mset_add_mset_right)
  also have "\<dots> = mset xs" by (subst (4) id_take_nth_drop [OF k]) simp
  finally show ?thesis .
qed

lemma hd_insert: "ys \<noteq> [] \<Longrightarrow> 0 < j \<Longrightarrow> hd (take j ys @ x # drop j ys) = hd ys"
  by (cases ys; cases j) simp_all

lemma hd_moved:
  assumes "k < length xs" "0 < k" "0 < j"
  shows "hd (moved k j xs) = hd xs"
proof -
  have "xs \<noteq> []" using assms(1) by (cases xs) simp_all
  from hd_without [OF assms(2) this]
  have r: "take k xs @ drop (Suc k) xs \<noteq> []" "hd (take k xs @ drop (Suc k) xs) = hd xs"
    by (rule conjunct1, rule conjunct2)
  show ?thesis unfolding moved_def Let_def by (rule trans [OF hd_insert [OF r(1) assms(3)] r(2)])
qed

lemma moveInputImage_moved:
  assumes "wf_app s"
  obtains "moveInputImage now from_idx to_idx s = s"
  | k j where "k < length (i_inputImages s)" "\<And>mk. i_maskDraft s = Some mk \<Longrightarrow> 0 < k \<and> 0 < j"
    "moveInputImage now from_idx to_idx s = syncActiveInputDraft now s (images_patch s (moved k j (i_inputImages s)) [])"
proof -
  let ?images = "i_inputImages s" and ?k = "nat from_idx" and ?t = "present (mask_target s)"
  have t: "0 < ?k \<and> ?t = Some (targetImageId mk) \<and> targetImageId mk \<in> img_id ` set ?images"
    if "i_maskDraft s = Some mk" "present (mask_target s) \<noteq> Some (img_id (?images ! ?k))" for mk
  proof -
    have h: "?images \<noteq> []" "img_id (hd ?images) = targetImageId mk" "targetImageId mk \<noteq> []"
      using assms that(1) by (simp_all add: wf_app_def wf_images_def)
    then have p: "present (mask_target s) = Some (targetImageId mk)"
      using that(1) by (simp add: mask_target_def present_def split: list.split)
    then have "?k \<noteq> 0" using that(2) h by (metis hd_conv_nth)
    moreover have "targetImageId mk \<in> img_id ` set ?images" using h by (metis image_eqI list.set_sel(1))
    ultimately show ?thesis using p by simp
  qed
  show ?thesis
  proof (cases "moveInputImage now from_idx to_idx s = s")
    case False
    then have k: "?k < length ?images" and n: "?t \<noteq> Some (img_id (?images ! ?k))"
      and m: "moveInputImage now from_idx to_idx s =
        syncActiveInputDraft now s (images_patch s (moved ?k (nat (insert_index s from_idx to_idx)) ?images) [])"
      by (auto simp: moveInputImage_def Let_def split: if_splits)
    have j: "0 < ?k \<and> 0 < nat (insert_index s from_idx to_idx)" if "i_maskDraft s = Some mk" for mk
      using t [OF that n] by (auto simp: insert_index_def Let_def)
    show ?thesis by (rule that(2) [OF k j m])
  qed (rule that(1))
qed

lemma wf_move:
  assumes "wf_app s"
  shows "wf_app (moveInputImage now from_idx to_idx s)"
proof (cases rule: moveInputImage_moved [OF assms, of now from_idx to_idx])
  case (2 k j)
  have w: "wf_input s" using assms by (simp add: wf_app_def)
  have "mset (map img_id (moved k j (i_inputImages s))) = mset (map img_id (i_inputImages s))"
    using mset_moved [OF 2(1), of j] by (simp only: mset_map)
  then have "distinct (map img_id (moved k j (i_inputImages s)))"
    using w mset_eq_imp_distinct_iff by (metis wf_images_def)
  moreover have "moved k j (i_inputImages s) \<noteq> []" by (simp add: moved_def Let_def)
  ultimately have "wf_images (moved k j (i_inputImages s)) (i_maskDraft s)"
    using w 2(1,2) by (auto simp: wf_images_def hd_moved)
  then show ?thesis unfolding 2(3) by (intro wf_sync [OF assms]) simp
qed (use assms in simp)

lemma wf_mode: "wf_app s \<Longrightarrow> wf_app (setAppMode profile now mode s)"
proof -
  assume w: "wf_app s"
  have g: "\<And>d. galleryInputDraft s = Some d \<Longrightarrow> wf_input d"
    and a: "\<And>c d. map_of (agentInputDrafts s) c = Some d \<Longrightarrow> wf_input d"
    using w by (auto simp: wf_app_def)
  show ?thesis
  proof (cases mode)
    case Gallery
    have "wf_input (restoreGalleryInputDraftState (saveGalleryInputDraft now s))"
      by (rule wf_restore) (rule wf_save_gallery [OF w])
    then show ?thesis
      using w wf_save_gallery [OF w] wf_save_active [OF w] by (auto simp: Gallery setAppMode_def Let_def wf_app_def)
  next
    case Agent
    have "wf_input (restoreAgentInputDraftState (agentInputDrafts s) (activeAgentConversationId s))"
      by (rule wf_restore_agent) (rule a)
    then show ?thesis
      using w wf_save_gallery [OF w] by (auto simp: Agent setAppMode_def wf_app_def)
  qed
qed

lemma wf_show: "wf_app s \<Longrightarrow> wf_app (show_conversation now cs c s)"
proof -
  assume w: "wf_app s"
  have "wf_input (restoreAgentInputDraftState (saveActiveAgentInputDrafts now s) (Some c))"
    by (rule wf_restore_agent) (rule wf_save_active [OF w])
  then show ?thesis
    using w wf_save_active [OF w] by (auto simp: show_conversation_def Let_def wf_app_def)
qed

lemma wf_active: "wf_app s \<Longrightarrow> wf_app (setActiveAgentConversationId now c s)"
proof -
  assume w: "wf_app s"
  have "wf_input (restoreAgentInputDraftState (saveActiveAgentInputDrafts now s) c)"
    by (rule wf_restore_agent) (rule wf_save_active [OF w])
  then show ?thesis
    using w wf_save_active [OF w] by (auto simp: setActiveAgentConversationId_def Let_def wf_app_def)
qed

lemma wf_same_images:
  "wf_app s \<Longrightarrow> wf_app (setPrompt now p s)" "wf_app s \<Longrightarrow> wf_app (setMaskEditorImageId now e s)"
  "wf_app s \<Longrightarrow> wf_app (clearMaskDraft now s)" "wf_app s \<Longrightarrow> wf_app (clear_inputs now s)"
  unfolding setPrompt_def setMaskEditorImageId_def clearMaskDraft_def clear_inputs_def
  by (rule wf_sync, assumption, simp add: wf_app_def wf_images_def patched_def no_patch_def images_patch_def clear_mask_if_def)+

lemma wf_input_step: "input_step True s s' \<Longrightarrow> wf_app s \<Longrightarrow> wf_app s'"
proof (induction rule: input_step.induct)
  case (step_create s fresh now)
  then show ?case by (simp add: create_conversation_def Let_def wf_show split: option.split)
next
  case (step_round s now c r)
  then show ?case by (simp add: setActiveAgentRoundId_def wf_app_def)
next
  case (step_rename s now c title)
  then show ?case by (simp add: renameAgentConversation_def wf_app_def)
next
  case (step_delete s c)
  then show ?case by (auto simp: deleteAgentConversation_def Let_def wf_app_def delete_conv' split: if_splits)
qed (auto intro: wf_add wf_replace wf_remove wf_set_images wf_move wf_set_mask wf_mode wf_active wf_same_images)

definition start :: AppState where
  "start =
     \<lparr>i_prompt = [], i_inputImages = [], i_maskDraft = None, i_maskEditorImageId = None, appMode = Gallery,
      galleryInputDraft = None, agentConversations = [], activeAgentConversationId = None, agentInputDrafts = [],
      agentSidebarCollapsed = True, agentAssetPanelCollapsed = False, agentMobileHeaderVisible = False,
      agentEditingRoundId = None, tasks = [], selectedTaskIds = [], selectedFavoriteCollectionIds = [],
      confirmDialog = None\<rparr>"

lemma start_ok: "synced start" "wf_app start"
  by (simp_all add: start_def synced_def wf_app_def wf_images_def view_def clearInputDraftState_def)

text \<open>C7: The input and its draft never fall apart: after any sequence of the actions on the input, the mode
  and the conversations, with any arguments and from the initial state, the prompt, images and mask shown
  in the gallery are those its draft keeps, and those shown in a conversation are those the draft of that
  conversation keeps.  Conversations are changed in the agent mode, where the controls for it are.\<close>

theorem input_matches_draft:
  assumes "(input_step False)\<^sup>*\<^sup>* start s"
  shows "(appMode s = Gallery \<longrightarrow> view s = view (restoreGalleryInputDraftState (galleryInputDraft s))) \<and>
    (appMode s = Agent \<longrightarrow> present (activeAgentConversationId s) \<noteq> None \<longrightarrow>
       view s = view (restoreAgentInputDraftState (agentInputDrafts s) (activeAgentConversationId s)))"
proof -
  have "synced s"
    using assms by (induction rule: rtranclp_induct) (auto simp: start_ok intro: synced_step)
  then show ?thesis by (simp only: synced_def)
qed

text \<open>Where the images that are set have different ids and a mask is set for one of the input images, the ids
  stay different and the mask stays on the first image, in the input and in every draft.\<close>

lemma input_images_wf:
  assumes "(input_step True)\<^sup>*\<^sup>* start s"
  shows "wf_app s"
  using assms by (induction rule: rtranclp_induct) (auto simp: start_ok intro: wf_input_step)

definition sample_masked :: AppState where
  "sample_masked =
     setMaskDraft (Fin 2) (Some \<lparr>targetImageId = ''b'', maskDataUrl = ''m'', md_updatedAt = Fin 2\<rparr>)
       (setInputImages (Fin 1) [\<lparr>img_id = ''a'', dataUrl = ''x''\<rparr>, \<lparr>img_id = ''b'', dataUrl = ''y''\<rparr>] [] start)"

lemma sample_masked_images: "map img_id (i_inputImages sample_masked) = [''b'', ''a'']"
  by (simp add: sample_masked_def setMaskDraft_def setInputImages_def start_def mask_target_def
      orderImagesWithMaskFirst_def present_def syncActiveInputDraft_def patched_def images_patch_def clear_mask_if_def
      no_patch_def Let_def)

theorem input_matches_draft_witness:
  "map img_id (i_inputImages sample_masked) = [''b'', ''a''] \<and>
   view sample_masked = view (restoreGalleryInputDraftState (galleryInputDraft sample_masked))"
proof -
  let ?s = "setInputImages (Fin 1) [\<lparr>img_id = ''a'', dataUrl = ''x''\<rparr>, \<lparr>img_id = ''b'', dataUrl = ''y''\<rparr>] [] start"
  have a: "input_step False start ?s" by (rule step_images) simp
  have b: "input_step False ?s sample_masked" unfolding sample_masked_def by (rule step_mask) simp
  have r: "(input_step False)\<^sup>*\<^sup>* start sample_masked"
    by (rule rtranclp.rtrancl_into_rtrancl [of "input_step False", OF r_into_rtranclp [of "input_step False", OF a] b])
  have "appMode sample_masked = Gallery"
    by (simp add: sample_masked_def setMaskDraft_def setInputImages_def start_def syncActiveInputDraft_def Let_def)
  with input_matches_draft [OF r] sample_masked_images show ?thesis by blast
qed

subsection \<open>The input of the other mode\<close>

lemma sync_gallery: "appMode s = Agent \<Longrightarrow> galleryInputDraft (syncActiveInputDraft now s p) = galleryInputDraft s"
  by (simp add: syncActiveInputDraft_def Let_def split: option.split)

lemma step_gallery:
  "input_step careful s s' \<Longrightarrow> appMode s = Agent \<Longrightarrow> appMode s' = Agent \<Longrightarrow> galleryInputDraft s' = galleryInputDraft s"
proof (induction rule: input_step.induct)
  case (step_mode s profile now mode)
  then show ?case by (cases mode) (auto simp: setAppMode_def Let_def saveGalleryInputDraft_def)
qed (auto simp: setPrompt_def addInputImage_def replace_input_def removeInputImage_def clear_inputs_def
    setInputImages_def moveInputImage_def setMaskDraft_def clearMaskDraft_def setMaskEditorImageId_def
    setActiveAgentRoundId_def renameAgentConversation_def create_conversation_def show_conversation_def
    setActiveAgentConversationId_def deleteAgentConversation_def Let_def sync_gallery split: option.split)

abbreviation agent_run :: "AppState \<Rightarrow> AppState \<Rightarrow> bool" where
  "agent_run \<equiv> (\<lambda>s s'. input_step False s s' \<and> appMode s' = Agent)\<^sup>*\<^sup>*"

text \<open>C16: The input of the gallery survives a visit to the agent mode: the user changes the mode, does
  whatever they like there, and comes back to the prompt, the images and the mask they left.\<close>

theorem gallery_input_survives:
  assumes "appMode s = Gallery" "ap_provider profile = ''openai''" "ap_apiMode profile = ''responses''"
    "agent_run (setAppMode profile now Agent s) u"
  shows "appMode u = Agent \<and> view (setAppMode profile' now' Gallery u) = view s"
proof -
  let ?t = "setAppMode profile now Agent s"
  have t: "appMode ?t = Agent" "galleryInputDraft ?t = save_draft now (draft_of (Some now) s)"
    using assms(1-3)
    by (simp_all add: setAppMode_def saveGalleryInputDraft_def getCurrentAgentInputDraft_def)
  have "appMode u = Agent \<and> galleryInputDraft u = galleryInputDraft ?t"
    using assms(4) by (induction rule: rtranclp_induct) (auto simp: t(1) step_gallery)
  then show ?thesis using t(2) by (simp add: setAppMode_def saveGalleryInputDraft_def Let_def)
qed

definition responses_profile :: ApiProfile where
  "responses_profile = \<lparr>ap_name = [], ap_provider = ''openai'', ap_apiMode = ''responses''\<rparr>"

theorem gallery_input_survives_witness:
  "view (setAppMode responses_profile (Fin 9) Gallery
     (setPrompt (Fin 8) (u16 ''other'') (setAppMode responses_profile (Fin 7) Agent sample_masked))) =
   view sample_masked"
proof -
  let ?t = "setAppMode responses_profile (Fin 7) Agent sample_masked"
  have g: "appMode sample_masked = Gallery"
    by (simp add: sample_masked_def setMaskDraft_def setInputImages_def start_def syncActiveInputDraft_def Let_def)
  have a: "appMode ?t = Agent" by (simp add: setAppMode_def responses_profile_def)
  have p: "input_step False ?t (setPrompt (Fin 8) (u16 ''other'') ?t)" by (rule step_prompt)
  have "appMode (setPrompt (Fin 8) (u16 ''other'') ?t) = Agent"
    using a by (simp add: setPrompt_def syncActiveInputDraft_def Let_def split: option.split)
  with p have "agent_run ?t (setPrompt (Fin 8) (u16 ''other'') ?t)" by (intro r_into_rtranclp conjI)
  from gallery_input_survives [OF g _ _ this] show ?thesis by (simp add: responses_profile_def)
qed

end
