(* ===== verification/Image_References.thy ===== *)
theory Image_References
  imports Input_Drafts Js_Json
begin

section \<open>Image workbench: which images are still needed\<close>

text \<open>
  The removal of tasks and images in \<open>web/gpt-image-playground/src/store.ts\<close>: the ids of the images that
  tasks, conversations, drafts and the input refer to, the functions that delete images nobody refers to,
  the removal of tasks with the traces they leave in the responses of a conversation, and the sweep at the
  start of the page.

  \<open>World\<close> is the state of the page, the images (\<open>Image_Cache\<close>) and the rows of the table of tasks.  The removal
  of tasks is cut at its awaits: it takes a snapshot when it is called (\<open>Removal\<close>), replaces the tasks, later
  collects what is still used, and then deletes; in between, anything may happen to the world.  The rows
  of tasks it writes are written together, and so are the deletions that follow one collection.  Toasts
  and the flag of the support prompt are left out.
\<close>

record World =
  w_state :: AppState
  w_images :: ImageModule
  w_tasks :: "(string \<times> TaskRecord) list"

subsection \<open>Rows of the table of tasks\<close>

text \<open>\<open>JSON.stringify(v, null, 2)\<close> at an indentation of \<open>n\<close> spaces.\<close>

fun json_pretty :: "nat \<Rightarrow> jsval \<Rightarrow> string" where
  "json_pretty n (JArr vs) =
     (if vs = [] then ''[]''
      else ''['' @ [CHR 0x0A] @
           join ('','' @ [CHR 0x0A]) (map (\<lambda>v. replicate (n + 2) CHR '' '' @ json_pretty (n + 2) v) vs) @
           [CHR 0x0A] @ replicate n CHR '' '' @ '']'')"
| "json_pretty n (JObj ob) =
     (if filter (\<lambda>(k, v). v \<noteq> JUndef) ob = [] then ''{}''
      else ''{'' @ [CHR 0x0A] @
           join ('','' @ [CHR 0x0A])
             (map (\<lambda>(k, v). replicate (n + 2) CHR '' '' @ json_quote k @ '': '' @ json_pretty (n + 2) v)
               (filter (\<lambda>(k, v). v \<noteq> JUndef) ob)) @
           [CHR 0x0A] @ replicate n CHR '' '' @ ''}'')"
| "json_pretty n JUndef = json_stringify JUndef"
| "json_pretty n JNull = json_stringify JNull"
| "json_pretty n (JBool b) = json_stringify (JBool b)"
| "json_pretty n (JNum x) = json_stringify (JNum x)"
| "json_pretty n (JStr s) = json_stringify (JStr s)"

definition isRecord :: "jsval \<Rightarrow> bool" where
  "isRecord v = is_obj v"

definition without_key :: "string \<Rightarrow> jsval \<Rightarrow> jsval" where
  "without_key k v = (case v of JObj ob \<Rightarrow> JObj (AList.delete k ob) | _ \<Rightarrow> v)"

text \<open>An item of a response without the data of its picture.\<close>

definition getPersistableResponseOutputItem :: "jsval \<Rightarrow> jsval" where
  "getPersistableResponseOutputItem item =
     (if get_prop item ''type'' \<noteq> JStr ''image_generation_call'' then item
      else case get_prop item ''result'' of
          JStr _ \<Rightarrow> without_key ''result'' item
        | JObj ob \<Rightarrow>
            (let rest = fold AList.delete [''b64_json'', ''base64'', ''image'', ''data''] ob
             in if rest = [] then without_key ''result'' item
                else case item of JObj it \<Rightarrow> JObj (obj_set ''result'' (JObj rest) it) | _ \<Rightarrow> item)
        | _ \<Rightarrow> item)"

definition getPersistableRawResponsePayload :: "string option \<Rightarrow> string option" where
  "getPersistableRawResponsePayload raw =
     (case present raw of None \<Rightarrow> raw
      | Some text \<Rightarrow>
         (case json_parse text of
            Some (JObj payload) \<Rightarrow>
              (case obj_get payload ''output'' of
                 JArr items \<Rightarrow>
                   Some (json_pretty 0 (JObj (obj_set ''output''
                     (JArr (map (\<lambda>it. if isRecord it then getPersistableResponseOutputItem it else it) items)) payload)))
               | _ \<Rightarrow> raw)
          | _ \<Rightarrow> raw))"

definition getPersistableTask :: "TaskRecord \<Rightarrow> TaskRecord" where
  "getPersistableTask task =
     task\<lparr>t_rawResponsePayload := getPersistableRawResponsePayload (t_rawResponsePayload task)\<rparr>"

definition putTask :: "TaskRecord \<Rightarrow> World \<Rightarrow> World" where
  "putTask task w = w\<lparr>w_tasks := AList.update (t_id task) (getPersistableTask task) (w_tasks w)\<rparr>"

definition dbDeleteTask :: "string \<Rightarrow> World \<Rightarrow> World" where
  "dbDeleteTask i w = w\<lparr>w_tasks := AList.delete i (w_tasks w)\<rparr>"

definition setTasks :: "TaskRecord list \<Rightarrow> World \<Rightarrow> World" where
  "setTasks ts w = w\<lparr>w_state := (w_state w)\<lparr>tasks := ts\<rparr>\<rparr>"

subsection \<open>Responses without deleted pictures\<close>

text \<open>The filter with its counter of calls that have no id.\<close>

fun scrub_items :: "string list \<Rightarrow> string list \<Rightarrow> string list \<Rightarrow> nat \<Rightarrow> jsval list \<Rightarrow> jsval list" where
  "scrub_items toolCallIds taskIds outputTaskIds n [] = []"
| "scrub_items toolCallIds taskIds outputTaskIds n (it # items) =
     (if get_prop it ''type'' \<noteq> JStr ''image_generation_call''
      then it # scrub_items toolCallIds taskIds outputTaskIds n items
      else case get_prop it ''id'' of
          JStr (c # cs) \<Rightarrow>
            (if c # cs \<in> set toolCallIds then [] else [it]) @ scrub_items toolCallIds taskIds outputTaskIds n items
        | _ \<Rightarrow>
            (if n < length outputTaskIds \<and> outputTaskIds ! n \<in> set taskIds then [] else [it]) @
            scrub_items toolCallIds taskIds outputTaskIds (Suc n) items)"

definition scrubResponseOutputForDeletedAgentTasks :: "AgentRound \<Rightarrow> jsval list \<Rightarrow> TaskRecord list \<Rightarrow> jsval list" where
  "scrubResponseOutputForDeletedAgentTasks rd output deletedTasks =
     (if deletedTasks = [] then output
      else scrub_items
             (List.map_filter (\<lambda>t. if t_agentRoundId t = Some (r_id rd) then present (t_agentToolCallId t) else None)
               deletedTasks)
             (map t_id deletedTasks) (r_outputTaskIds rd) 0 output)"

definition deleted_in_round :: "TaskRecord list \<Rightarrow> AgentRound \<Rightarrow> TaskRecord list" where
  "deleted_in_round deletedTasks rd = filter (\<lambda>t. t_id t \<in> set (r_outputTaskIds rd)) deletedTasks"

definition scrub_round :: "TaskRecord list \<Rightarrow> AgentRound \<Rightarrow> AgentRound" where
  "scrub_round deletedTasks rd =
     (case r_responseOutput rd of
        Some (it # items) \<Rightarrow>
          if deleted_in_round deletedTasks rd = [] then rd
          else rd\<lparr>r_responseOutput :=
                 Some (scrubResponseOutputForDeletedAgentTasks rd (it # items) (deleted_in_round deletedTasks rd))\<rparr>
      | _ \<Rightarrow> rd)"

definition scrubAgentConversationsForDeletedTasks ::
  "AgentConversation list \<Rightarrow> TaskRecord list \<Rightarrow> AgentConversation list" where
  "scrubAgentConversationsForDeletedTasks conversations deletedTasks =
     (if deletedTasks = [] then conversations
      else map (\<lambda>c. c\<lparr>c_rounds := map (scrub_round deletedTasks) (c_rounds c)\<rparr>) conversations)"

text \<open>The new payload of a task, \<open>None\<close> if it stays as it is.  A property of null cannot be read: the exception
  leaves the task unchanged, too.\<close>

definition scrubbed_payload :: "AgentConversation list \<Rightarrow> TaskRecord list \<Rightarrow> TaskRecord \<Rightarrow> string option" where
  "scrubbed_payload conversations deletedTasks task =
     (case (present (t_rawResponsePayload task), present (t_agentRoundId task)) of
        (Some text, Some r) \<Rightarrow>
          (case find (\<lambda>x. r_id x = r) (concat (map c_rounds conversations)) of None \<Rightarrow> None
           | Some rd \<Rightarrow>
               if deleted_in_round deletedTasks rd = [] then None
               else case json_parse text of
                   Some (JObj payload) \<Rightarrow>
                     (case obj_get payload ''output'' of
                        JArr items \<Rightarrow>
                          (let output = scrubResponseOutputForDeletedAgentTasks rd items
                                 (deleted_in_round deletedTasks rd)
                           in if JNull \<in> set items \<or> length output = length items then None
                              else Some (json_pretty 0 (JObj (obj_set ''output'' (JArr output) payload))))
                      | _ \<Rightarrow> None)
                 | _ \<Rightarrow> None)
      | _ \<Rightarrow> None)"

definition scrubTaskRawResponsePayloadForDeletedTasks ::
  "AgentConversation list \<Rightarrow> TaskRecord list \<Rightarrow> TaskRecord \<Rightarrow> TaskRecord" where
  "scrubTaskRawResponsePayloadForDeletedTasks conversations deletedTasks task =
     (case scrubbed_payload conversations deletedTasks task of
        None \<Rightarrow> task
      | Some text \<Rightarrow> task\<lparr>t_rawResponsePayload := Some text\<rparr>)"

definition put_if_scrubbed :: "TaskRecord list \<Rightarrow> World \<Rightarrow> TaskRecord \<Rightarrow> World" where
  "put_if_scrubbed rest w task =
     (if (case find (\<lambda>t. t_id t = t_id task) rest of None \<Rightarrow> None | Some t \<Rightarrow> t_rawResponsePayload t) \<noteq>
         t_rawResponsePayload task
      then putTask task w else w)"

definition scrubAgentOutputPayloadsForDeletedTasks ::
  "TaskRecord list \<Rightarrow> TaskRecord list \<Rightarrow> World \<Rightarrow> TaskRecord list \<times> World" where
  "scrubAgentOutputPayloadsForDeletedTasks deletedTasks rest w =
     (if deletedTasks = [] then (rest, w)
      else let conversations = scrubAgentConversationsForDeletedTasks (agentConversations (w_state w)) deletedTasks;
               scrubbed = map (scrubTaskRawResponsePayloadForDeletedTasks conversations deletedTasks) rest;
               w1 = w\<lparr>w_state := (w_state w)\<lparr>agentConversations := conversations\<rparr>\<rparr>
           in (scrubbed, foldl (put_if_scrubbed rest) w1 scrubbed))"

subsection \<open>References\<close>

definition opt_ids :: "string option \<Rightarrow> string list" where
  "opt_ids x = (case present x of None \<Rightarrow> [] | Some i \<Rightarrow> [i])"

definition list_ids :: "string list option \<Rightarrow> string list" where
  "list_ids x = (case x of None \<Rightarrow> [] | Some ids \<Rightarrow> ids)"

definition draft_image_ids :: "AgentInputDraft \<Rightarrow> string list" where
  "draft_image_ids d = map img_id (i_inputImages d)"

definition isImageReferencedByState :: "AppState \<Rightarrow> string \<Rightarrow> bool" where
  "isImageReferencedByState s i \<longleftrightarrow>
     i \<in> img_id ` set (i_inputImages s) \<or>
     (case galleryInputDraft s of None \<Rightarrow> False | Some d \<Rightarrow> i \<in> set (draft_image_ids d)) \<or>
     (\<exists>d \<in> snd ` set (agentInputDrafts s). i \<in> set (draft_image_ids d)) \<or>
     (\<exists>t \<in> set (tasks s). i \<in> set (t_inputImageIds t) \<or> i \<in> set (t_outputImages t) \<or>
        i \<in> set (list_ids (t_transparentOriginalImages t)) \<or> i \<in> set (list_ids (t_streamPartialImageIds t)) \<or>
        t_maskTargetImageId t = Some i \<or> t_maskImageId t = Some i) \<or>
     (\<exists>c \<in> set (agentConversations s).
        (\<exists>r \<in> set (c_rounds c). i \<in> set (r_inputImageIds r) \<or> r_maskTargetImageId r = Some i \<or> r_maskImageId r = Some i) \<or>
        (\<exists>m \<in> set (c_messages c). i \<in> set (list_ids (m_inputImageIds m)) \<or>
           m_maskTargetImageId m = Some i \<or> m_maskImageId m = Some i))"

definition addTaskReferencedImageIds :: "string list \<Rightarrow> TaskRecord \<Rightarrow> string list" where
  "addTaskReferencedImageIds target task =
     foldl set_add target
       (t_inputImageIds task @ opt_ids (t_maskImageId task) @ t_outputImages task @
        filter (\<lambda>i. i \<noteq> []) (list_ids (t_transparentOriginalImages task)) @ list_ids (t_streamPartialImageIds task))"

definition conversation_image_ids :: "AgentConversation \<Rightarrow> string list" where
  "conversation_image_ids c =
     concat (map (\<lambda>r. r_inputImageIds r @ opt_ids (r_maskImageId r)) (c_rounds c)) @
     concat (map (\<lambda>m. opt_ids (m_maskImageId m)) (c_messages c))"

definition addAgentReferencedImageIds ::
  "string list \<Rightarrow> AgentConversation list \<Rightarrow> (string \<times> AgentInputDraft) list \<Rightarrow> string list" where
  "addAgentReferencedImageIds target conversations inputDrafts =
     foldl set_add target
       (concat (map conversation_image_ids conversations) @ concat (map (draft_image_ids \<circ> snd) inputDrafts))"

definition addInputDraftReferencedImageIds :: "string list \<Rightarrow> AgentInputDraft option \<Rightarrow> string list" where
  "addInputDraftReferencedImageIds target draft =
     (case draft of None \<Rightarrow> target | Some d \<Rightarrow> foldl set_add target (draft_image_ids d))"

text \<open>The set \<open>stillUsed\<close> the three removing functions build.\<close>

definition still_used :: "TaskRecord list \<Rightarrow> AppState \<Rightarrow> AgentInputDraft option \<Rightarrow> InputImage list \<Rightarrow> string list" where
  "still_used ts s gallery inputImages =
     (let u1 = foldl addTaskReferencedImageIds [] ts;
          u2 = addAgentReferencedImageIds u1 (agentConversations s) (agentInputDrafts s);
          u3 = addInputDraftReferencedImageIds u2 gallery
      in foldl set_add u3 (map img_id inputImages))"

subsection \<open>Deleting\<close>

definition delete_stored :: "ImageModule \<Rightarrow> string \<Rightarrow> ImageModule" where
  "delete_stored m i =
     (deleteImage i m)\<lparr>imageCache := AList.delete i (imageCache m), thumbnailCache := AList.delete i (thumbnailCache m)\<rparr>"

definition delete_unused :: "string list \<Rightarrow> string list \<Rightarrow> World \<Rightarrow> World" where
  "delete_unused used ids w =
     w\<lparr>w_images := foldl delete_stored (w_images w) (filter (\<lambda>i. i \<notin> set used) ids)\<rparr>"

definition deleteUnreferencedImageIds :: "string list \<Rightarrow> World \<Rightarrow> World" where
  "deleteUnreferencedImageIds imageIds w =
     (let s = w_state w
      in delete_unused (still_used (tasks s) s (galleryInputDraft s) (i_inputImages s))
           (js_set (filter (\<lambda>i. i \<noteq> []) imageIds)) w)"

text \<open>\<open>failed\<close>: the deletion in the database throws, which is ignored.\<close>

definition deleteImageIfUnreferenced :: "bool \<Rightarrow> string \<Rightarrow> World \<Rightarrow> World" where
  "deleteImageIfUnreferenced failed i w =
     (let m = forget i (w_images w)
      in w\<lparr>w_images := (if isImageReferencedByState (w_state w) i \<or> failed then m else deleteImage i m)\<rparr>)"

definition replaceInputImage :: "jsnum \<Rightarrow> bool \<Rightarrow> int \<Rightarrow> InputImage \<Rightarrow> World \<Rightarrow> World" where
  "replaceInputImage now failed idx img w =
     (let (s, removed) = replace_input now idx img (w_state w); w1 = w\<lparr>w_state := s\<rparr>
      in case present removed of None \<Rightarrow> w1 | Some i \<Rightarrow> deleteImageIfUnreferenced failed i w1)"

definition clearInputImages :: "jsnum \<Rightarrow> World \<Rightarrow> World" where
  "clearInputImages now w =
     w\<lparr>w_state := clear_inputs now (w_state w),
       w_images := (w_images w)\<lparr>imageCache :=
         foldl (\<lambda>m img. AList.delete (img_id img) m) (imageCache (w_images w)) (i_inputImages (w_state w))\<rparr>\<rparr>"

text \<open>The variables a removal keeps over its awaits: \<open>remaining\<close>, the ids of the rows and of the images, the
  draft and the input at the time of the call, and the selection it sets in the end.\<close>

record Removal =
  rm_rest :: "TaskRecord list"
  rm_taskIds :: "string list"
  rm_imageIds :: "string list"
  rm_gallery :: "AgentInputDraft option"
  rm_inputs :: "InputImage list"
  rm_selection :: "string list option"

text \<open>The part of \<open>removeTask\<close> and of \<open>removeMultipleTasks\<close> up to the removal from the list.\<close>

definition removeTask_begin :: "TaskRecord \<Rightarrow> World \<Rightarrow> Removal \<times> World" where
  "removeTask_begin task w =
     (let s = w_state w;
          taskImageIds = js_set (t_inputImageIds task @ opt_ids (t_maskImageId task) @ t_outputImages task @
            list_ids (t_transparentOriginalImages task) @ list_ids (t_streamPartialImageIds task));
          (rest, w1) = scrubAgentOutputPayloadsForDeletedTasks [task] (filter (\<lambda>t. t_id t \<noteq> t_id task) (tasks s)) w
      in (\<lparr>rm_rest = rest, rm_taskIds = [t_id task], rm_imageIds = taskImageIds, rm_gallery = galleryInputDraft s,
           rm_inputs = i_inputImages s, rm_selection = None\<rparr>, w1))"

definition removeMultipleTasks_begin :: "string list \<Rightarrow> World \<Rightarrow> Removal \<times> World" where
  "removeMultipleTasks_begin taskIds w =
     (let s = w_state w;
          deletedTasks = filter (\<lambda>t. t_id t \<in> set taskIds) (tasks s);
          (rest, w1) = scrubAgentOutputPayloadsForDeletedTasks deletedTasks
            (filter (\<lambda>t. t_id t \<notin> set taskIds) (tasks s)) w;
          newSelection = filter (\<lambda>i. i \<notin> set taskIds) (selectedTaskIds s)
      in (\<lparr>rm_rest = rest, rm_taskIds = taskIds, rm_imageIds = foldl addTaskReferencedImageIds [] deletedTasks,
           rm_gallery = galleryInputDraft s, rm_inputs = i_inputImages s,
           rm_selection = (if length newSelection \<noteq> length (selectedTaskIds s) then Some newSelection else None)\<rparr>, w1))"

definition removal_store :: "Removal \<Rightarrow> World \<Rightarrow> World" where
  "removal_store r w = fold dbDeleteTask (rm_taskIds r) (setTasks (rm_rest r) w)"

text \<open>\<open>s\<close> is the state at the time of the collection, \<open>w\<close> the world in which the images are deleted.\<close>

definition removal_delete :: "Removal \<Rightarrow> AppState \<Rightarrow> World \<Rightarrow> World" where
  "removal_delete r s w =
     delete_unused (still_used (rm_rest r) s (rm_gallery r) (rm_inputs r)) (rm_imageIds r) w"

definition removal_select :: "Removal \<Rightarrow> World \<Rightarrow> World" where
  "removal_select r w =
     (case rm_selection r of None \<Rightarrow> w | Some ids \<Rightarrow> w\<lparr>w_state := (w_state w)\<lparr>selectedTaskIds := ids\<rparr>\<rparr>)"

definition removal_finish :: "Removal \<Rightarrow> World \<Rightarrow> World" where
  "removal_finish r w =
     (let w1 = removal_store r w in removal_select r (removal_delete r (w_state w1) w1))"

text \<open>The two functions when nothing else happens during their awaits.\<close>

definition removeTask :: "TaskRecord \<Rightarrow> World \<Rightarrow> World" where
  "removeTask task w = (let (r, w1) = removeTask_begin task w in removal_finish r w1)"

definition removeMultipleTasks :: "string list \<Rightarrow> World \<Rightarrow> World" where
  "removeMultipleTasks taskIds w =
     (if taskIds = [] then w
      else let (r, w1) = removeMultipleTasks_begin taskIds w in removal_finish r w1)"

text \<open>The sweep at the end of the loading in \<open>initStore\<close>: the references it collects, and what it deletes.\<close>

definition startup_references :: "AppState \<Rightarrow> string list" where
  "startup_references s =
     (let u1 = foldl set_add [] (map img_id (i_inputImages s));
          u2 = (case galleryInputDraft s of None \<Rightarrow> u1 | Some d \<Rightarrow> foldl set_add u1 (draft_image_ids d));
          u3 = foldl set_add u2 (concat (map (draft_image_ids \<circ> snd) (agentInputDrafts s)));
          u4 = foldl set_add u3
                 (concat (map (\<lambda>c. concat (map r_inputImageIds (c_rounds c))) (agentConversations s)))
      in foldl addTaskReferencedImageIds u4 (tasks s))"

definition startup_sweep :: "World \<Rightarrow> World" where
  "startup_sweep w =
     (let used = startup_references (w_state w); imageIds = getAllImageIds (w_images w);
          m = foldl (\<lambda>m i. deleteImage i m) (w_images w) (filter (\<lambda>i. i \<notin> set used) imageIds)
      in w\<lparr>w_images := scheduleThumbnailBackfill (filter (\<lambda>i. i \<in> set used) imageIds) Background m\<rparr>)"

subsection \<open>The references that count\<close>

text \<open>What the collecting functions count, written down independently of them: the images of a task, the input
  images and masks of rounds, the masks of messages, and the images of drafts and of the input.\<close>

definition task_needs :: "TaskRecord \<Rightarrow> string \<Rightarrow> bool" where
  "task_needs t i \<longleftrightarrow>
     i \<in> set (t_inputImageIds t) \<or> t_maskImageId t = Some i \<or> i \<in> set (t_outputImages t) \<or>
     (\<exists>ids \<in> set_option (t_transparentOriginalImages t). i \<in> set ids) \<or>
     (\<exists>ids \<in> set_option (t_streamPartialImageIds t). i \<in> set ids)"

definition mask_of_round :: "AgentConversation list \<Rightarrow> string \<Rightarrow> bool" where
  "mask_of_round cs i \<longleftrightarrow>
     (\<exists>c \<in> set cs. (\<exists>r \<in> set (c_rounds c). r_maskImageId r = Some i) \<or>
        (\<exists>m \<in> set (c_messages c). m_maskImageId m = Some i))"

definition input_of_round :: "AgentConversation list \<Rightarrow> string \<Rightarrow> bool" where
  "input_of_round cs i \<longleftrightarrow> (\<exists>c \<in> set cs. \<exists>r \<in> set (c_rounds c). i \<in> set (r_inputImageIds r))"

definition shown_in :: "'a InputFields_scheme \<Rightarrow> string \<Rightarrow> bool" where
  "shown_in f i \<longleftrightarrow> (\<exists>img \<in> set (i_inputImages f). img_id img = i)"

definition needed ::
  "TaskRecord list \<Rightarrow> AppState \<Rightarrow> AgentInputDraft option \<Rightarrow> InputImage list \<Rightarrow> string \<Rightarrow> bool" where
  "needed ts s gallery images i \<longleftrightarrow>
     (\<exists>t \<in> set ts. task_needs t i) \<or>
     input_of_round (agentConversations s) i \<or> mask_of_round (agentConversations s) i \<or>
     (\<exists>p \<in> set (agentInputDrafts s). shown_in (snd p) i) \<or>
     (\<exists>d \<in> set_option gallery. shown_in d i) \<or> (\<exists>img \<in> set images. img_id img = i)"

abbreviation needed_now :: "AppState \<Rightarrow> string \<Rightarrow> bool" where
  "needed_now s \<equiv> needed (tasks s) s (galleryInputDraft s) (i_inputImages s)"

lemma set_opt_ids: "i \<noteq> [] \<Longrightarrow> i \<in> set (opt_ids x) \<longleftrightarrow> x = Some i"
  by (auto simp: opt_ids_def present_def split: option.splits list.splits)

definition task_ids :: "TaskRecord \<Rightarrow> string set" where
  "task_ids t = set (addTaskReferencedImageIds [] t)"

lemma set_add_task: "set (addTaskReferencedImageIds u t) = set u \<union> task_ids t"
  by (simp add: addTaskReferencedImageIds_def task_ids_def set_foldl_set_add Un_assoc)

lemma set_add_tasks: "set (foldl addTaskReferencedImageIds u ts) = set u \<union> (\<Union>t \<in> set ts. task_ids t)"
  by (induction ts arbitrary: u) (auto simp: set_add_task)

lemma task_ids_iff:
  "i \<noteq> [] \<Longrightarrow> i \<in> task_ids t \<longleftrightarrow>
     i \<in> set (t_inputImageIds t) \<or> t_maskImageId t = Some i \<or> i \<in> set (t_outputImages t) \<or>
     i \<in> set (list_ids (t_transparentOriginalImages t)) \<or> i \<in> set (list_ids (t_streamPartialImageIds t))"
  by (auto simp: task_ids_def addTaskReferencedImageIds_def set_foldl_set_add set_opt_ids)

lemma set_still_used:
  "set (still_used ts s gallery images) =
     (\<Union>t \<in> set ts. task_ids t) \<union> (\<Union>c \<in> set (agentConversations s). set (conversation_image_ids c)) \<union>
     (\<Union>d \<in> snd ` set (agentInputDrafts s). set (draft_image_ids d)) \<union>
     (case gallery of None \<Rightarrow> {} | Some d \<Rightarrow> set (draft_image_ids d)) \<union> img_id ` set images"
  by (auto simp: still_used_def Let_def set_foldl_set_add set_add_tasks addAgentReferencedImageIds_def
      addInputDraftReferencedImageIds_def split: option.split)

lemma task_ids_needs: "i \<noteq> [] \<Longrightarrow> i \<in> task_ids t \<longleftrightarrow> task_needs t i"
  by (auto simp: task_ids_iff task_needs_def list_ids_def split: option.splits)

lemma conversation_ids_iff:
  "i \<noteq> [] \<Longrightarrow> (\<exists>c \<in> set cs. i \<in> set (conversation_image_ids c)) \<longleftrightarrow> input_of_round cs i \<or> mask_of_round cs i"
  by (auto simp: conversation_image_ids_def input_of_round_def mask_of_round_def set_opt_ids)

lemma draft_ids_iff: "i \<in> set (draft_image_ids d) \<longleftrightarrow> shown_in d i"
  by (auto simp: draft_image_ids_def shown_in_def)

lemma still_used_iff: "i \<noteq> [] \<Longrightarrow> i \<in> set (still_used ts s gallery images) \<longleftrightarrow> needed ts s gallery images i"
proof -
  assume i: "i \<noteq> []"
  have "(\<exists>d \<in> snd ` set ds. i \<in> set (draft_image_ids d)) \<longleftrightarrow> (\<exists>p \<in> set ds. shown_in (snd p) i)"
    for ds :: "(string \<times> AgentInputDraft) list"
    by (force simp: draft_ids_iff)
  moreover have "i \<in> (case gallery of None \<Rightarrow> {} | Some d \<Rightarrow> set (draft_image_ids d)) \<longleftrightarrow>
      (\<exists>d \<in> set_option gallery. shown_in d i)"
    by (auto simp: draft_ids_iff split: option.split)
  moreover have "i \<in> img_id ` set images \<longleftrightarrow> (\<exists>img \<in> set images. img_id img = i)" by auto
  ultimately show ?thesis
    using conversation_ids_iff [OF i, of "agentConversations s"]
    unfolding set_still_used needed_def by (simp add: task_ids_needs [OF i])
qed

text \<open>The collectors count no more than \<open>isImageReferencedByState\<close>, which in addition knows the image under a mask
  and the images of a message.\<close>

lemma needed_referenced: "needed_now s i \<Longrightarrow> isImageReferencedByState s i"
  by (force simp: needed_def isImageReferencedByState_def task_needs_def input_of_round_def mask_of_round_def
      shown_in_def list_ids_def draft_image_ids_def)

subsection \<open>Removals keep what is used\<close>

lemma getImage_delete: "getImage i (deleteImage j m) = (if i = j then None else getImage i m)"
  by (simp add: getImage_def deleteImage_def delete_conv')

lemma getImage_foldl_delete:
  "getImage i (foldl delete_stored m ids) = (if i \<in> set ids then None else getImage i m)"
proof (induction ids arbitrary: m)
  case (Cons j ids)
  have "getImage i (delete_stored m j) = (if i = j then None else getImage i m)"
    using getImage_delete [of i j m] by (simp add: delete_stored_def getImage_def)
  then show ?case by (auto simp: Cons.IH)
qed simp

lemma delete_unused_world:
  "w_state (delete_unused used ids w) = w_state w"
  "getImage i (w_images (delete_unused used ids w)) =
     (if i \<in> set ids \<and> i \<notin> set used then None else getImage i (w_images w))"
  by (simp_all add: delete_unused_def getImage_foldl_delete)

lemma put_scrubbed_world:
  "w_state (foldl (put_if_scrubbed rest) w ts) = w_state w" "w_images (foldl (put_if_scrubbed rest) w ts) = w_images w"
  by (induction ts arbitrary: w) (auto simp: put_if_scrubbed_def putTask_def)

text \<open>What the first part of a removal leaves: the input and the drafts, and every image.\<close>

lemma scrub_world:
  assumes "scrubAgentOutputPayloadsForDeletedTasks deleted rest w = (ts, w1)"
  shows "galleryInputDraft (w_state w1) = galleryInputDraft (w_state w)"
    "i_inputImages (w_state w1) = i_inputImages (w_state w)" "w_images w1 = w_images w"
  using assms
  by (auto simp: scrubAgentOutputPayloadsForDeletedTasks_def Let_def put_scrubbed_world split: if_splits)

lemma removal_begins:
  assumes "removeTask_begin task w = (r, w1) \<or> removeMultipleTasks_begin taskIds w = (r, w1)"
  shows "rm_gallery r = galleryInputDraft (w_state w1)" "rm_inputs r = i_inputImages (w_state w1)" "w_images w1 = w_images w"
proof -
  obtain ts v where a: "scrubAgentOutputPayloadsForDeletedTasks [task]
      (filter (\<lambda>t. t_id t \<noteq> t_id task) (tasks (w_state w))) w = (ts, v)" by fastforce
  obtain us v' where b: "scrubAgentOutputPayloadsForDeletedTasks (filter (\<lambda>t. t_id t \<in> set taskIds) (tasks (w_state w)))
      (filter (\<lambda>t. t_id t \<notin> set taskIds) (tasks (w_state w))) w = (us, v')" by fastforce
  show "rm_gallery r = galleryInputDraft (w_state w1)" "rm_inputs r = i_inputImages (w_state w1)" "w_images w1 = w_images w"
    using assms scrub_world [OF a] scrub_world [OF b]
    by (auto simp: removeTask_begin_def removeMultipleTasks_begin_def a b Let_def)
qed

lemma removal_delete_exact:
  "i \<noteq> [] \<Longrightarrow> getImage i (w_images (removal_delete r s w)) =
     (if i \<in> set (rm_imageIds r) \<and> \<not> needed (rm_rest r) s (rm_gallery r) (rm_inputs r) i
      then None else getImage i (w_images w))"
  by (simp add: removal_delete_def delete_unused_world still_used_iff)

lemma removal_store_world:
  "w_state (removal_store r w) = (w_state w)\<lparr>tasks := rm_rest r\<rparr>" "w_images (removal_store r w) = w_images w"
proof -
  have "w_state (fold dbDeleteTask ks v) = w_state v \<and> w_images (fold dbDeleteTask ks v) = w_images v" for ks v
    by (induction ks arbitrary: v) (simp_all add: dbDeleteTask_def)
  then show "w_state (removal_store r w) = (w_state w)\<lparr>tasks := rm_rest r\<rparr>"
    "w_images (removal_store r w) = w_images w"
    by (simp_all add: removal_store_def setTasks_def)
qed

text \<open>A removal that finishes with the input and the gallery draft it began with keeps what is needed then;
  conversations and the drafts of the agent mode may have changed.\<close>

lemma removal_finish_keeps:
  assumes "rm_gallery r = galleryInputDraft (w_state w)" "rm_inputs r = i_inputImages (w_state w)" "i \<noteq> []"
    "needed_now (w_state (removal_finish r w)) i"
  shows "getImage i (w_images (removal_finish r w)) = getImage i (w_images w)"
proof -
  have sel: "w_images (removal_select r v) = w_images v"
    "needed_now (w_state (removal_select r v)) = needed_now (w_state v)" for v
    by (auto simp: removal_select_def needed_def fun_eq_iff split: option.split)
  have del: "w_state (removal_delete r s v) = w_state v" for s v
    by (simp add: removal_delete_def delete_unused_world)
  have "needed (rm_rest r) (w_state (removal_store r w)) (rm_gallery r) (rm_inputs r) i"
    using assms by (simp add: removal_finish_def Let_def sel del removal_store_world needed_def)
  then show ?thesis
    by (simp add: removal_finish_def Let_def sel removal_delete_exact [OF assms(3)] removal_store_world)
qed

text \<open>The contract of a function that cleans up: an image that is needed afterwards is untouched.\<close>

locale image_collector =
  fixes run :: "World \<Rightarrow> World"
  assumes complete: "i \<noteq> [] \<Longrightarrow> needed_now (w_state (run w)) i \<Longrightarrow>
    getImage i (w_images (run w)) = getImage i (w_images w)"
begin

lemma lost_unused:
  "i \<noteq> [] \<Longrightarrow> getImage i (w_images w) \<noteq> None \<Longrightarrow> getImage i (w_images (run w)) = None \<Longrightarrow>
   \<not> needed_now (w_state (run w)) i"
  using complete by metis

end

lemma getImage_forget [simp]: "getImage i (forget j m) = getImage i m"
  by (simp add: forget_def getImage_def)

lemma delete_if_unreferenced:
  "w_state (deleteImageIfUnreferenced failed j w) = w_state w"
  "getImage i (w_images (deleteImageIfUnreferenced failed j w)) =
     (if i = j \<and> \<not> failed \<and> \<not> isImageReferencedByState (w_state w) i then None else getImage i (w_images w))"
  by (auto simp: deleteImageIfUnreferenced_def Let_def getImage_delete)

interpretation remove_task: image_collector "removeTask task" for task
proof
  fix w :: World and i :: string
  assume i: "i \<noteq> []" and n: "needed_now (w_state (removeTask task w)) i"
  obtain r w1 where b: "removeTask_begin task w = (r, w1)" by fastforce
  note rb = removal_begins [OF disjI1 [OF b]]
  show "getImage i (w_images (removeTask task w)) = getImage i (w_images w)"
    using removal_finish_keeps [OF rb(1,2) i] n rb(3) by (simp add: removeTask_def b)
qed

interpretation remove_tasks: image_collector "removeMultipleTasks taskIds" for taskIds
proof
  fix w :: World and i :: string
  assume i: "i \<noteq> []" and n: "needed_now (w_state (removeMultipleTasks taskIds w)) i"
  obtain r w1 where b: "removeMultipleTasks_begin taskIds w = (r, w1)" by fastforce
  note rb = removal_begins [OF disjI2 [OF b]]
  show "getImage i (w_images (removeMultipleTasks taskIds w)) = getImage i (w_images w)"
    using removal_finish_keeps [OF rb(1,2) i] n rb(3) by (simp add: removeMultipleTasks_def b split: if_splits)
qed

interpretation delete_ids: image_collector "deleteUnreferencedImageIds ids" for ids
  by unfold_locales (auto simp: deleteUnreferencedImageIds_def Let_def delete_unused_world still_used_iff)

interpretation delete_image: image_collector "deleteImageIfUnreferenced failed j" for failed j
  by unfold_locales (auto simp: delete_if_unreferenced dest: needed_referenced)

interpretation replace_image: image_collector "replaceInputImage now failed idx img" for now failed idx img
  by unfold_locales
    (auto simp: replaceInputImage_def Let_def delete_if_unreferenced case_prod_beta
      dest: needed_referenced split: option.splits)

interpretation clear_images: image_collector "clearInputImages now" for now
  by unfold_locales (simp add: clearInputImages_def getImage_def)

inductive cleanup_step :: "World \<Rightarrow> World \<Rightarrow> bool" where
  cleanup_task: "cleanup_step w (removeTask task w)"
| cleanup_tasks: "cleanup_step w (removeMultipleTasks taskIds w)"
| cleanup_ids: "cleanup_step w (deleteUnreferencedImageIds ids w)"
| cleanup_image: "cleanup_step w (deleteImageIfUnreferenced failed j w)"
| cleanup_replaced: "cleanup_step w (replaceInputImage now failed idx img w)"
| cleanup_cleared: "cleanup_step w (clearInputImages now w)"


definition sample_task :: "string \<Rightarrow> string list \<Rightarrow> string option \<Rightarrow> TaskRecord" where
  "sample_task i ins msk =
     \<lparr>t_id = i, t_prompt = [], t_inputImageIds = ins, t_maskTargetImageId = None, t_maskImageId = msk,
      t_outputImages = [], t_transparentOriginalImages = None, t_streamPartialImageIds = None, t_outputErrors = None,
      t_rawResponsePayload = None, t_status = TaskDone, t_agentConversationId = None, t_agentRoundId = None,
      t_agentToolCallId = None\<rparr>"

text \<open>A conversation with one round, which has an input image and a mask on it.\<close>

definition masked_conversation :: AgentConversation where
  "masked_conversation =
     \<lparr>c_id = ''c'', c_title = [], c_activeRoundId = None, c_createdAt = Fin 0, c_updatedAt = Fin 0,
      c_rounds = [(sample_round ''r'' None)
         \<lparr>r_inputImageIds := [''x''], r_maskTargetImageId := Some ''x'', r_maskImageId := Some ''mask''\<rparr>],
      c_messages = []\<rparr>"

definition sample_world :: World where
  "sample_world =
     \<lparr>w_state = start\<lparr>tasks := [sample_task ''1'' [''x'', ''y'', ''z''] (Some ''mask''), sample_task ''2'' [''z''] None],
                      agentConversations := [masked_conversation]\<rparr>,
      w_images = no_images\<lparr>db_images := map small_image [''x'', ''y'', ''z'', ''mask'']\<rparr>, w_tasks = []\<rparr>"

abbreviation sample_removed :: World where
  "sample_removed \<equiv> removeTask (sample_task ''1'' [''x'', ''y'', ''z''] (Some ''mask'')) sample_world"

lemma sample_world_removed:
  "needed_now (w_state sample_removed) ''mask''" "getImage ''y'' (w_images sample_removed) = None"
  "getImage ''mask'' (w_images sample_world) \<noteq> None"
  by code_simp+


subsection \<open>The sweep at the start\<close>

lemma enqueue_images: "db_images (enqueue_backfill p m i) = db_images m"
  by (auto simp: enqueue_backfill_def getCachedThumbnail_def split: option.split)

lemma schedule_images: "getImage i (scheduleThumbnailBackfill ids p m) = getImage i m"
proof -
  have "db_images (foldl (enqueue_backfill p) m ids) = db_images m"
    by (induction ids arbitrary: m) (simp_all add: enqueue_images)
  then show ?thesis
    by (simp add: scheduleThumbnailBackfill_def scheduleThumbnailBackfillTick_def getImage_def)
qed

lemma getImage_sweep:
  "getImage i (foldl (\<lambda>m i. deleteImage i m) m ids) = (if i \<in> set ids then None else getImage i m)"
  by (induction ids arbitrary: m) (auto simp: getImage_delete)

lemma startup_sweep_images:
  "getImage i (w_images (startup_sweep w)) =
     (if i \<in> set (startup_references (w_state w)) then getImage i (w_images w) else None)"
proof -
  have "getImage i m = None" if "i \<notin> set (getAllImageIds m)" for m :: ImageModule
    using that by (simp add: getAllImageIds_def getImage_def map_of_eq_None_iff)
  then show ?thesis by (auto simp: startup_sweep_def Let_def schedule_images getImage_sweep)
qed

text \<open>The references the sweep knows: like \<open>needed_now\<close>, without the masks of rounds and messages.\<close>

definition needed_at_start :: "AppState \<Rightarrow> string \<Rightarrow> bool" where
  "needed_at_start s i \<longleftrightarrow>
     (\<exists>t \<in> set (tasks s). task_needs t i) \<or> input_of_round (agentConversations s) i \<or>
     (\<exists>p \<in> set (agentInputDrafts s). shown_in (snd p) i) \<or>
     (\<exists>d \<in> set_option (galleryInputDraft s). shown_in d i) \<or> shown_in s i"

lemma startup_references_iff: "i \<noteq> [] \<Longrightarrow> i \<in> set (startup_references s) \<longleftrightarrow> needed_at_start s i"
  by (cases "galleryInputDraft s")
    (auto simp: startup_references_def needed_at_start_def Let_def set_foldl_set_add set_add_tasks task_ids_needs
      draft_ids_iff input_of_round_def shown_in_def)

text \<open>C36: The sweep at the start of the page keeps exactly the images that are needed by the input, a draft or a
  task, or are an input of a round; so it deletes every image that is only the mask of a round or of a
  message, although the round or message refers to it and every other cleaning function keeps it.\<close>

theorem startup_sweep_loses_masks:
  assumes "i \<noteq> []"
  shows "getImage i (w_images (startup_sweep w)) =
      (if needed_at_start (w_state w) i then getImage i (w_images w) else None) \<and>
    w_state (startup_sweep w) = w_state w \<and>
    (mask_of_round (agentConversations (w_state w)) i \<and> \<not> needed_at_start (w_state w) i \<longrightarrow>
      isImageReferencedByState (w_state w) i \<and>
      getImage i (w_images (deleteUnreferencedImageIds ids w)) = getImage i (w_images w) \<and>
      getImage i (w_images (startup_sweep w)) = None)"
proof -
  have s: "getImage i (w_images (startup_sweep w)) =
      (if needed_at_start (w_state w) i then getImage i (w_images w) else None)"
    by (simp add: startup_sweep_images startup_references_iff [OF assms])
  moreover have "w_state (startup_sweep w) = w_state w" by (simp add: startup_sweep_def Let_def)
  moreover have "isImageReferencedByState (w_state w) i \<and>
      getImage i (w_images (deleteUnreferencedImageIds ids w)) = getImage i (w_images w)"
    if "mask_of_round (agentConversations (w_state w)) i"
  proof -
    have "needed_now (w_state w) i" using that by (simp add: needed_def)
    moreover have "w_state (deleteUnreferencedImageIds ids w) = w_state w"
      by (simp add: deleteUnreferencedImageIds_def Let_def delete_unused_world)
    ultimately show ?thesis using needed_referenced delete_ids.complete [OF assms, of ids w] by simp
  qed
  ultimately show ?thesis by simp
qed

text \<open>The round of the conversation has lost its task.\<close>

definition masked_world :: World where
  "masked_world =
     \<lparr>w_state = start\<lparr>tasks := [sample_task ''2'' [''z''] None], agentConversations := [masked_conversation]\<rparr>,
      w_images = no_images\<lparr>db_images := map small_image [''x'', ''y'', ''z'', ''mask'']\<rparr>, w_tasks = []\<rparr>"

theorem startup_sweep_loses_masks_witness:
  "getImage ''mask'' (w_images masked_world) \<noteq> None \<and>
   isImageReferencedByState (w_state masked_world) ''mask'' \<and>
   getImage ''mask'' (w_images (deleteUnreferencedImageIds [''mask''] masked_world)) \<noteq> None \<and>
   getImage ''mask'' (w_images (startup_sweep masked_world)) = None \<and>
   getImage ''z'' (w_images (startup_sweep masked_world)) \<noteq> None"
proof -
  have m: "mask_of_round (agentConversations (w_state masked_world)) ''mask''" by code_simp
  have n: "\<not> needed_at_start (w_state masked_world) ''mask''" by code_simp
  have z: "needed_at_start (w_state masked_world) ''z''" by code_simp
  have g: "getImage ''mask'' (w_images masked_world) \<noteq> None" "getImage ''z'' (w_images masked_world) \<noteq> None"
    by code_simp+
  show ?thesis
    using startup_sweep_loses_masks [of "''mask''" masked_world "[''mask'']"]
      startup_sweep_loses_masks [of "''z''" masked_world] m n z g by simp
qed

end
