(* ===== verification/Agent_Turn.thy ===== *)
theory Agent_Turn
  imports Image_Mentions Js_Json
begin

section \<open>Image workbench: a turn of the agent\<close>

text \<open>
  The loop of \<open>executeAgentRound\<close> in \<open>web/gpt-image-playground/src/store.ts\<close> and the functions on the items of
  a response: how the responses of one turn are put together, which function calls are answered, when
  the turn goes on and when it ends, and what is sent back in later turns.

  The answers of the service and the fates of the pictures of a batch are an arbitrary sequence of
  \<open>AgentResult\<close>, which also says where the user stops the turn or an exception ends it.  An item of a
  response is a value.  The loop may run for ever, so it is a partial function: \<open>None\<close> is a turn that does
  not end.  The tasks and messages that the turn writes on the way are not part of its state here.
\<close>

subsection \<open>Items of a response\<close>

abbreviation item_type :: "jsval \<Rightarrow> jsval" where
  "item_type it \<equiv> get_prop it ''type''"

definition text_part :: "jsval \<Rightarrow> jsval option" where
  "text_part part =
     (case get_prop part ''text'' of
        JStr text \<Rightarrow>
          if get_prop part ''type'' = JStr ''output_text'' \<or> get_prop part ''type'' = JStr ''text''
          then Some (JObj [(''type'', JStr ''output_text''), (''text'', JStr text)]) else None
      | _ \<Rightarrow> None)"

definition sanitizeResponseOutputItemForInput :: "jsval \<Rightarrow> jsval option" where
  "sanitizeResponseOutputItemForInput it =
     (if item_type it = JStr ''web_search_call'' \<or> item_type it = JStr ''image_generation_call'' then None
      else if item_type it = JStr ''message'' then
        (let content = List.map_filter text_part (case get_prop it ''content'' of JArr ps \<Rightarrow> ps | _ \<Rightarrow> [])
         in if content = [] then None else Some (JObj [(''role'', JStr ''assistant''), (''content'', JArr content)]))
      else Some it)"

text \<open>The id of a call, the empty string if there is none.\<close>

definition call_id :: "jsval \<Rightarrow> string" where
  "call_id it = (case get_prop it ''call_id'' of JStr s \<Rightarrow> s | _ \<Rightarrow> [])"

definition ids_of_type :: "string \<Rightarrow> jsval list \<Rightarrow> string list" where
  "ids_of_type ty items =
     map call_id (filter (\<lambda>it. is_obj it \<and> call_id it \<noteq> [] \<and> item_type it = JStr ty) items)"

definition sanitizeResponseOutputForInput :: "bool \<Rightarrow> jsval list \<Rightarrow> jsval list" where
  "sanitizeResponseOutputForInput allowPendingFunctionCalls output =
     (let items = List.map_filter sanitizeResponseOutputItemForInput output;
          functionCallIds = js_set (ids_of_type ''function_call'' items);
          functionOutputCallIds = js_set (ids_of_type ''function_call_output'' items)
      in if allowPendingFunctionCalls then items
         else filter (\<lambda>it.
                if \<not> is_obj it then True
                else if item_type it = JStr ''function_call'' then call_id it \<noteq> [] \<and> call_id it \<in> set functionOutputCallIds
                else if item_type it = JStr ''function_call_output'' then call_id it \<noteq> [] \<and> call_id it \<in> set functionCallIds
                else True) items)"

definition merge_item :: "jsval list \<Rightarrow> jsval \<Rightarrow> jsval list" where
  "merge_item merged it =
     (case get_prop it ''id'' of
        JStr (c # cs) \<Rightarrow>
          (case findIndex (\<lambda>existing. get_prop existing ''id'' = JStr (c # cs)) merged of
             Some k \<Rightarrow> merged[k := it]
           | None \<Rightarrow> merged @ [it])
      | _ \<Rightarrow> merged @ [it])"

definition mergeResponseOutputItems :: "jsval list \<Rightarrow> jsval list \<Rightarrow> jsval list" where
  "mergeResponseOutputItems previous nxt = foldl merge_item previous nxt"

definition countResponseToolCalls :: "jsval list \<Rightarrow> nat" where
  "countResponseToolCalls output = length (filter (\<lambda>it. item_type it = JStr ''image_generation_call'') output)"

definition function_calls :: "string \<Rightarrow> jsval list \<Rightarrow> jsval list" where
  "function_calls name items =
     filter (\<lambda>it. item_type it = JStr ''function_call'' \<and> get_prop it ''name'' = JStr name) items"

subsection \<open>A batch of pictures\<close>

fun batch_items :: "nat \<Rightarrow> jsval list \<Rightarrow> (string \<times> string) list" where
  "batch_items n [] = []"
| "batch_items n (raw # raws) =
     (let i = trim (case get_prop raw ''id'' of JStr s \<Rightarrow> s | _ \<Rightarrow> []);
          prompt = trim (case get_prop raw ''prompt'' of JStr s \<Rightarrow> s | _ \<Rightarrow> [])
      in if prompt = [] then batch_items n raws
         else (if i = [] then ''image_'' @ nat_str (Suc n) else i, prompt) # batch_items (Suc n) raws)"

definition parseBatchImageCallArguments :: "string \<Rightarrow> (string \<times> string) list option" where
  "parseBatchImageCallArguments args =
     (case json_parse args of
        Some parsed \<Rightarrow>
          (case get_prop parsed ''images'' of
             JArr raws \<Rightarrow> (let items = batch_items 0 raws in if items = [] then None else Some items)
           | _ \<Rightarrow> None)
      | None \<Rightarrow> None)"

text \<open>The fate of a picture: an image, none with the message of the error if there is one, or an exception.\<close>

datatype BatchResult = GotImage | NoImage "string option" | Rejected string

definition batch_report :: "string \<times> string \<Rightarrow> BatchResult \<Rightarrow> jsval" where
  "batch_report item r =
     JObj ((''id'', JStr (fst item)) #
       (case r of
          GotImage \<Rightarrow> [(''status'', JStr ''done'')]
        | NoImage (Some (c # cs)) \<Rightarrow> [(''status'', JStr ''error''), (''error'', JStr (c # cs))]
        | NoImage _ \<Rightarrow> [(''status'', JStr ''error'')]
        | Rejected e \<Rightarrow> [(''status'', JStr ''error''), (''error'', JStr e)]))"

text \<open>The output for the call, and by how much it raises \<open>toolCallsUsed\<close>.\<close>

definition executeBatchFunctionCall :: "(nat \<Rightarrow> BatchResult) \<Rightarrow> jsval \<Rightarrow> string \<times> nat" where
  "executeBatchFunctionCall fate it =
     (case parseBatchImageCallArguments (case get_prop it ''arguments'' of JStr s \<Rightarrow> s | _ \<Rightarrow> []) of
        None \<Rightarrow> (json_stringify (JObj [(''error'', JStr ''Invalid or empty batch arguments'')]), 0)
      | Some items \<Rightarrow>
          (let results = map fate [0..<length items]
           in (json_stringify (JObj [(''images'', JArr (map2 batch_report items results))]),
               length (filter (\<lambda>r. r = GotImage) results))))"

definition function_output :: "jsval \<Rightarrow> string \<Rightarrow> jsval" where
  "function_output fc output =
     JObj [(''type'', JStr ''function_call_output''), (''call_id'', get_prop fc ''call_id''), (''output'', JStr output)]"

subsection \<open>The turn\<close>

text \<open>The exits of the loop by an exception: the signal is aborted at its head, the request or something after it
  throws, or the signal is aborted when the answer arrives.  The variables of the turn are lost then.\<close>

datatype Interruption = AbortedBefore | Throws | AbortedAfter

record AgentResult =
  res_responseId :: "string option"
  res_deltas :: "utext list"
  res_streamedItems :: "jsval list"
  res_outputItems :: "jsval list option"
  res_text :: utext
  res_fates :: "nat \<Rightarrow> nat \<Rightarrow> BatchResult"
  res_roundExists :: bool
  res_interruption :: "Interruption option"

record Turn =
  accumulatedOutputItems :: "jsval list"
  accumulatedText :: utext
  textSegments :: "utext list"
  lastResponseId :: "string option"
  toolCallsUsed :: nat
  reachedToolLimit :: bool
  pendingToolTextSeparator :: bool
  interrupted :: "Interruption option"

definition first_turn :: Turn where
  "first_turn =
     \<lparr>accumulatedOutputItems = [], accumulatedText = [], textSegments = [], lastResponseId = None,
      toolCallsUsed = 0, reachedToolLimit = False, pendingToolTextSeparator = False, interrupted = None\<rparr>"

definition maxToolCalls :: "jsnum \<Rightarrow> nat" where
  "maxToolCalls agentMaxToolRounds =
     (case agentMaxToolRounds of
        Fin q \<Rightarrow> max 1 (nat (if 0 \<le> q then \<lfloor>q\<rfloor> else \<lceil>q\<rceil>))
      | _ \<Rightarrow> 15)"

abbreviation separator :: utext where
  "separator \<equiv> [10, 10]"

definition onTextDelta :: "Turn \<Rightarrow> utext \<Rightarrow> Turn" where
  "onTextDelta t delta =
     (let t1 = (if pendingToolTextSeparator t \<and> delta \<noteq> [] \<and> u_trim (accumulatedText t) \<noteq> []
                then t\<lparr>accumulatedText := accumulatedText t @ separator\<rparr> else t)
      in t1\<lparr>pendingToolTextSeparator := False, accumulatedText := accumulatedText t1 @ delta\<rparr>)"

text \<open>The text of a response: streamed, or appended when it is complete.\<close>

definition take_text :: "AgentResult \<Rightarrow> Turn \<Rightarrow> Turn" where
  "take_text res t =
     (let before = accumulatedText t;
          t1 = foldl onTextDelta t (res_deltas res);
          responseText = u_trim (res_text res);
          t2 = (if responseText \<noteq> [] \<and> accumulatedText t1 = before
                then t1\<lparr>accumulatedText := before @ (if before \<noteq> [] then separator else []) @ responseText\<rparr> else t1);
          newText = u_trim (drop (length before) (accumulatedText t2))
      in t2\<lparr>textSegments := textSegments t2 @ (if newText \<noteq> [] then [newText] else [])\<rparr>)"

definition response_items :: "AgentResult \<Rightarrow> jsval list" where
  "response_items res =
     (if res_streamedItems res \<noteq> [] then res_streamedItems res
      else case res_outputItems res of None \<Rightarrow> [] | Some items \<Rightarrow> items)"

text \<open>The outputs of the function calls of a response, and the tool calls it used.\<close>

definition batch_outputs :: "AgentResult \<Rightarrow> (string \<times> nat) list" where
  "batch_outputs res =
     (let calls = function_calls ''generate_image_batch'' (response_items res)
      in map2 (\<lambda>k fc. executeBatchFunctionCall (res_fates res k) fc) [0..<length calls] calls)"

definition functionCallOutputs :: "AgentResult \<Rightarrow> jsval list" where
  "functionCallOutputs res =
     map2 (\<lambda>fc out. function_output fc (fst out))
       (function_calls ''generate_image_batch'' (response_items res)) (batch_outputs res) @
     map (\<lambda>fc. function_output fc (json_stringify (JObj [(''status'', JStr ''continued'')])))
       (function_calls ''continue_generation'' (response_items res))"

definition tools_used :: "AgentResult \<Rightarrow> nat" where
  "tools_used res = countResponseToolCalls (response_items res) + sum_list (map snd (batch_outputs res))"

text \<open>One round of the loop: \<open>(True, t)\<close> if it goes on.\<close>

definition agent_step :: "nat \<Rightarrow> AgentResult \<Rightarrow> Turn \<Rightarrow> bool \<times> Turn" where
  "agent_step maxCalls res t =
     (let items = mergeResponseOutputItems (accumulatedOutputItems t) (response_items res);
          t1 = (take_text res t)
            \<lparr>lastResponseId := (case res_responseId res of None \<Rightarrow> lastResponseId t | Some r \<Rightarrow> Some r),
             accumulatedOutputItems := items, toolCallsUsed := toolCallsUsed t + tools_used res\<rparr>
      in if res_interruption res \<noteq> None then (False, t\<lparr>interrupted := res_interruption res\<rparr>)
         else if functionCallOutputs res = [] then (False, t1)
         else if maxCalls \<le> toolCallsUsed t1 then (False, t1\<lparr>reachedToolLimit := True\<rparr>)
         else if \<not> res_roundExists res then (False, t1)
         else (True, t1\<lparr>accumulatedOutputItems := mergeResponseOutputItems items (functionCallOutputs res),
                        pendingToolTextSeparator := True\<rparr>))"

text \<open>The loop, with the number of its rounds so far; \<open>respond n\<close> is the \<open>n\<close>-th one.\<close>

partial_function (option) agent_loop :: "nat \<Rightarrow> (nat \<Rightarrow> AgentResult) \<Rightarrow> nat \<Rightarrow> Turn \<Rightarrow> (nat \<times> Turn) option" where
  "agent_loop maxCalls respond n t =
     (let r = agent_step maxCalls (respond n) t
      in if fst r then agent_loop maxCalls respond (Suc n) (snd r) else Some (Suc n, snd r))"

text \<open>The text of the message of the assistant; the notices are in Chinese.\<close>

definition limit_notice :: "nat \<Rightarrow> utext" where
  "limit_notice maxCalls =
     [0x5DF2, 0x8FBE, 0x5230, 0x6700, 0x5927, 0x5DE5, 0x5177, 0x8C03, 0x7528, 0x6B21, 0x6570, 0xFF08] @ u_nat maxCalls @
     [0xFF09, 0xFF0C, 0x5DF2, 0x505C, 0x6B62, 0x81EA, 0x52A8, 0x7EED, 0x8DD1, 0x3002]"

definition images_notice :: utext where
  "images_notice = [0x56FE, 0x50CF, 0x5DF2, 0x751F, 0x6210, 0x3002]"

definition join_segments :: "utext list \<Rightarrow> utext" where
  "join_segments segments =
     concat (map2 (\<lambda>k s. (if k = 0 then [] else separator) @ s) [0..<length segments] segments)"

definition finalContent :: "nat \<Rightarrow> bool \<Rightarrow> Turn \<Rightarrow> utext" where
  "finalContent maxCalls anyTask t =
     (let joinedText = u_trim (join_segments (textSegments t));
          limitNotice = (if reachedToolLimit t then limit_notice maxCalls else []);
          content = (if joinedText \<noteq> [] \<and> limitNotice \<noteq> [] then joinedText @ separator @ limitNotice
                     else joinedText @ limitNotice)
      in if content \<noteq> [] then content else if anyTask then images_notice else [])"

subsection \<open>Calls and their outputs\<close>

lemma ids_of_filter:
  "set (ids_of_type ty (filter P items)) =
     {call_id it | it. it \<in> set items \<and> P it \<and> is_obj it \<and> call_id it \<noteq> [] \<and> item_type it = JStr ty}"
  by (auto simp: ids_of_type_def)

lemma set_ids_of_type:
  "set (ids_of_type ty items) =
     {call_id it | it. it \<in> set items \<and> is_obj it \<and> call_id it \<noteq> [] \<and> item_type it = JStr ty}"
  by (auto simp: ids_of_type_def)

text \<open>C17: What a later turn sends back is complete: every function call has an id and an output with the same
  id, and every output belongs to such a call, whatever the stored items are.\<close>

theorem calls_paired:
  "set (ids_of_type ''function_call'' (sanitizeResponseOutputForInput False output)) =
     set (ids_of_type ''function_call_output'' (sanitizeResponseOutputForInput False output)) \<and>
   filter (\<lambda>it. is_obj it \<and> call_id it = [] \<and>
       (item_type it = JStr ''function_call'' \<or> item_type it = JStr ''function_call_output''))
     (sanitizeResponseOutputForInput False output) = []"
proof -
  define items where "items = List.map_filter sanitizeResponseOutputItemForInput output"
  define calls where "calls = set (ids_of_type ''function_call'' items)"
  define outs where "outs = set (ids_of_type ''function_call_output'' items)"
  have s: "sanitizeResponseOutputForInput False output =
      filter (\<lambda>it. if \<not> is_obj it then True
        else if item_type it = JStr ''function_call'' then call_id it \<noteq> [] \<and> call_id it \<in> outs
        else if item_type it = JStr ''function_call_output'' then call_id it \<noteq> [] \<and> call_id it \<in> calls
        else True) items"
    by (simp add: sanitizeResponseOutputForInput_def items_def calls_def outs_def Let_def)
  have "set (ids_of_type ''function_call'' (sanitizeResponseOutputForInput False output)) = calls \<inter> outs"
    unfolding s ids_of_filter calls_def set_ids_of_type by auto
  moreover have "set (ids_of_type ''function_call_output'' (sanitizeResponseOutputForInput False output)) = calls \<inter> outs"
    unfolding s ids_of_filter outs_def set_ids_of_type by auto
  ultimately show ?thesis by (auto simp: s)
qed

subsection \<open>Turns that end and a turn that does not\<close>

lemma agent_step_used:
  "res_interruption res = None \<Longrightarrow> toolCallsUsed (snd (agent_step m res t)) = toolCallsUsed t + tools_used res"
  by (simp add: agent_step_def Let_def)

lemma agent_step_continues:
  "fst (agent_step m res t) \<longleftrightarrow>
     res_interruption res = None \<and> functionCallOutputs res \<noteq> [] \<and> toolCallsUsed t + tools_used res < m \<and>
     res_roundExists res"
  by (auto simp: agent_step_def Let_def)

lemma agent_loop_bound:
  assumes "\<And>n. functionCallOutputs (respond n) \<noteq> [] \<Longrightarrow> 0 < tools_used (respond n)"
  shows "\<exists>k t'. agent_loop m respond n t = Some (k, t') \<and> k \<le> n + max 1 (m - toolCallsUsed t)"
proof (induction "m - toolCallsUsed t" arbitrary: n t rule: less_induct)
  case less
  define r where "r = agent_step m (respond n) t"
  show ?case
  proof (cases "fst r")
    case True
    then have "0 < tools_used (respond n)" "toolCallsUsed t + tools_used (respond n) < m"
      "res_interruption (respond n) = None"
      using assms by (auto simp: r_def agent_step_continues)
    then have d: "m - toolCallsUsed (snd r) < m - toolCallsUsed t" "0 < m - toolCallsUsed (snd r)"
      by (simp_all add: r_def agent_step_used)
    from less [OF d(1)] obtain k t' where
      "agent_loop m respond (Suc n) (snd r) = Some (k, t')" "k \<le> Suc n + max 1 (m - toolCallsUsed (snd r))" by blast
    moreover from this(1) have "agent_loop m respond n t = Some (k, t')"
      using True by (simp add: agent_loop.simps [of m respond n t] r_def [symmetric] Let_def)
    ultimately show ?thesis using d by (intro exI [of _ k] exI [of _ t'] conjI) simp_all
  next
    case False
    then have "agent_loop m respond n t = Some (Suc n, snd r)"
      by (simp add: agent_loop.simps [of m respond n t] r_def [symmetric] Let_def)
    then show ?thesis by simp
  qed
qed

text \<open>C8: A turn ends within its budget: if every response that asks to go on has made at least one picture,
  the loop ends after at most maxToolCalls rounds, with whatever the service answers and wherever the
  user stops it or a request fails.\<close>

theorem turn_ends:
  assumes "\<And>n. functionCallOutputs (respond n) \<noteq> [] \<Longrightarrow> 0 < tools_used (respond n)"
  shows "\<exists>k t. agent_loop (maxToolCalls setting) respond 0 first_turn = Some (k, t) \<and> k \<le> maxToolCalls setting"
proof -
  have "1 \<le> maxToolCalls setting" by (simp add: maxToolCalls_def split: jsnum.split)
  with agent_loop_bound [of respond "maxToolCalls setting" 0 first_turn] assms show ?thesis
    by (simp add: first_turn_def)
qed

definition response_with :: "jsval list \<Rightarrow> AgentResult" where
  "response_with items =
     \<lparr>res_responseId = None, res_deltas = [], res_streamedItems = [], res_outputItems = Some items, res_text = [],
      res_fates = (\<lambda>_ _. GotImage), res_roundExists = True, res_interruption = None\<rparr>"

definition continue_call :: jsval where
  "continue_call =
     JObj [(''type'', JStr ''function_call''), (''call_id'', JStr ''c1''), (''name'', JStr ''continue_generation'')]"

definition image_call :: jsval where
  "image_call = JObj [(''type'', JStr ''image_generation_call'')]"

lemma sample_response:
  "functionCallOutputs (response_with [image_call, continue_call]) \<noteq> []"
  "tools_used (response_with [image_call, continue_call]) = 1"
  "functionCallOutputs (response_with [continue_call]) \<noteq> []"
  "tools_used (response_with [continue_call]) = 0"
  by (simp_all add: functionCallOutputs_def tools_used_def batch_outputs_def response_items_def response_with_def
      function_calls_def image_call_def continue_call_def countResponseToolCalls_def obj_get_def Let_def)

theorem turn_ends_witness:
  "\<exists>k t. agent_loop (maxToolCalls (Fin 3)) (\<lambda>_. response_with [image_call, continue_call]) 0 first_turn = Some (k, t) \<and>
     k \<le> maxToolCalls (Fin 3)"
  by (rule turn_ends) (simp add: sample_response)

lemma agent_loop_never:
  assumes "\<And>n. functionCallOutputs (respond n) \<noteq> []" "\<And>n. tools_used (respond n) = 0"
    "\<And>n. res_roundExists (respond n)" "\<And>n. res_interruption (respond n) = None" "toolCallsUsed t < m"
  shows "agent_loop m respond n t = None"
proof -
  define P where "P = (\<lambda>m' respond' (n :: nat) (t :: Turn) (y :: nat \<times> Turn).
    m' = m \<longrightarrow> respond' = respond \<longrightarrow> \<not> toolCallsUsed t < m)"
  have "P m' respond' n t y" if "agent_loop m' respond' n t = Some y" for m' respond' n t y
  proof (rule agent_loop.raw_induct [of P, OF _ that])
    fix loop m' respond' n t y
    assume ih: "\<And>m' respond' n t y. loop m' respond' n t = Some y \<Longrightarrow> P m' respond' n t y"
      and y: "(let r = agent_step m' (respond' n) t
        in if fst r then loop m' respond' (Suc n) (snd r) else Some (Suc n, snd r)) = Some y"
    have "\<not> toolCallsUsed t < m" if e: "m' = m" "respond' = respond"
    proof
      assume "toolCallsUsed t < m"
      then have "fst (agent_step m (respond n) t)" by (simp add: agent_step_continues assms)
      with y e have "loop m respond (Suc n) (snd (agent_step m (respond n) t)) = Some y" by (simp add: Let_def)
      from ih [OF this] \<open>toolCallsUsed t < m\<close> show False by (simp add: P_def agent_step_used assms)
    qed
    then show "P m' respond' n t y" by (simp add: P_def)
  qed
  with assms(5) show ?thesis unfolding P_def by (cases "agent_loop m respond n t") blast+
qed

text \<open>C37: The budget does not bound a turn.  It counts the image_generation_call items of a response and the
  pictures of its batches that succeed.  If every response asks to go on (by continue_generation or by
  batches) and uses none of the budget, the user does not stop the turn, no request fails and the round is
  not deleted, then the loop sends requests for ever.\<close>

theorem continuing_turn_never_ends:
  assumes "\<And>n. functionCallOutputs (respond n) \<noteq> []" "\<And>n. tools_used (respond n) = 0"
    "\<And>n. res_roundExists (respond n)" "\<And>n. res_interruption (respond n) = None"
  shows "agent_loop (maxToolCalls setting) respond 0 first_turn = None"
proof -
  have "1 \<le> maxToolCalls setting" by (simp add: maxToolCalls_def split: jsnum.split)
  then have "toolCallsUsed first_turn < maxToolCalls setting" by (simp add: first_turn_def)
  from agent_loop_never [OF assms this] show ?thesis .
qed

theorem continuing_turn_never_ends_witness:
  "agent_loop (maxToolCalls (Fin 3)) (\<lambda>_. response_with [continue_call]) 0 first_turn = None"
  by (rule continuing_turn_never_ends) (simp_all add: sample_response, simp_all add: response_with_def)

end
