(* ===== verification/Spec2Isabelle.thy ===== *)
theory Spec2Isabelle
  imports Status_Codes Billing_Rules Tier_Expr Channels Playground_Chat Log_Pages Usage_Logs Navigation
    Seeds Image_References Agent_Turn
begin

text \<open>
  \<^bold>\<open>StarNexus web client.\<close>  The repository holds a relay server for language models (Go) and its web
  clients.  This development models the decision-making parts of two of them: of the current client,
  \<open>web/default/src\<close>, the code that parses, prints, merges, caches and filters, and the state of a chat; and
  of the image workbench, \<open>web/gpt-image-playground/src\<close>, the prompts, the input with its drafts, the tree of
  a conversation, the turn of the agent and the stored images.  Rendering and the network are left out.
  Paths below are relative to \<open>web/default/src\<close>, those of the workbench to its own directory.

  \<^bold>\<open>Conventions.\<close>  A JavaScript string is a \<^typ>\<open>string\<close> of code units below 256.  A number is a
  \<^typ>\<open>jsnum\<close> (a rational, an infinity or not-a-number); rounding of doubles is not modelled, and where
  it could matter (\<open>Seeds\<close>) the exactness of the operations is proved.  A value of unknown type is a
  \<^typ>\<open>jsval\<close>; an object is an association list in the order \<open>Object.entries\<close> lists it.  An exception is
  \<^const>\<open>None\<close> or an error constructor.  Prompts of the workbench are full of Chinese and are lists of
  UTF-16 code units (\<^typ>\<open>utext\<close>).  Loops are recursive functions with termination proofs, or partial
  functions whose value \<^const>\<open>None\<close> is a call that does not return (\<^const>\<open>leaf_walk\<close>, \<^const>\<open>visit\<close>,
  \<^const>\<open>agent_loop\<close>), with theorems that say when they return; the JSON
  parser runs on fuel \<open>2 * length s + 2\<close>, which the round trip of printed values shows to be enough: each
  nested call consumes a character or descends from a value to its list of members.  Code outside the
  repository and effects of the browser (\<open>localeCompare\<close>, \<open>nanoid\<close>, the clock, text decoding, the event
  stream) are arguments, with hypotheses where a property needs them.  Tables indexed by a string are
  read at own properties only.

  \<^bold>\<open>Foundations.\<close>
  \<^item> \<open>Js_Prelude\<close>: strings (\<^const>\<open>trim\<close>, \<^const>\<open>splitc\<close>, \<^const>\<open>join\<close>, searching, slicing, decimal
    printing), sets in insertion order, stable sorting; the contracts \<open>canonical_form\<close>, \<open>normalizer\<close> and
    \<open>bounded_map\<close>.
  \<^item> \<open>Js_Value\<close>: numbers and their texts, values, truthiness, conversions, objects.
  \<^item> \<open>Js_Json\<close>: \<^const>\<open>json_parse\<close> and \<^const>\<open>json_stringify\<close>, their round trip, the contract \<open>codec\<close>.
  \<^item> \<open>Js_Regex\<close>: regular expressions with backtracking order, and laws to determine matches.

  \<^bold>\<open>Components.\<close>
  \<^item> \<open>Status_Codes\<close> (\<open>lib/http-status-code-rules.ts\<close> and the risk guard of status-code redirects under
    \<open>features/channels\<close>): parsing and merging of code ranges.  Merged ranges are the canonical form of
    the set of codes; the normalised text is a fixed point and decides equality of rules; the guard
    reports exactly the risky redirects.
  \<^item> \<open>Billing_Expr\<close>, \<open>Billing_Rules\<close> (\<open>features/pricing/lib/billing-expr.ts\<close>): tiers and request rules of
    billing expressions.  Printed rules are read back; splitting undoes combining for supported rules and a base that is not itself a rule; normalised conditions
    are the fixed points of normalisation; tiers read from any text are well formed.
  \<^item> \<open>Tier_Expr\<close> (\<open>features/pricing/lib/tier-expr.ts\<close>): the visual tier editor; normalisation is idempotent.
  \<^item> \<open>Channels\<close> (\<open>features/channels/lib/model-mapping-validation.ts\<close>, \<open>channel-utils.ts\<close>): model lists and
    mappings, keys, tag rows.  Tag rows partition the channels and aggregate them exactly; key
    deduplication and the missing-model check are exact; group lists are sorted.
  \<^item> \<open>Playground_Messages\<close>, \<open>Playground_Chat\<close> (\<open>features/playground\<close>: \<open>lib/message-utils.ts\<close>,
    \<open>lib/payload-builder.ts\<close>, \<open>hooks/use-stream-request.ts\<close>, \<open>hooks/use-chat-handler.ts\<close>, \<open>index.tsx\<close>): the
    record \<^typ>\<open>Chat\<close> is the state of the page, and \<^const>\<open>chat_step\<close> its steps: events of the stream in any
    order, replies, and the actions of the user; \<^const>\<open>chat_reach\<close> starts from an empty page or from the saved
    messages of an earlier chat.  Every message keeps its shape (locale
    \<open>message_property\<close>, interpreted twice); a stream touches only the last message and settles it; the
    visible content does not depend on the cutting of the answer into chunks, while the reasoning does.
  \<^item> \<open>Log_Pages\<close> (\<open>features/usage-logs/lib/cursor-pages.ts\<close>): the cache of page cursors, with windows at
    addresses of a store so that identity of objects is kept.  Sizes stay bounded (locale
    \<open>bounded_map\<close>, interpreted for windows and cursors), late responses are dropped, keys separate users and
    filters, and paging follows the cursors.
  \<^item> \<open>Usage_Logs\<close> (\<open>features/usage-logs/lib/utils.ts\<close>, \<open>filter.ts\<close>, \<open>format.ts\<close>): the endpoint
    follows the access scope, and in the user's own scope the common logs are not filtered by channel or
    user; the prices shown for an entry are those of the logged tier, read by
    \<open>Billing_Expr\<close>.
  \<^item> \<open>Navigation\<close> (\<open>features/system-settings/maintenance/config.ts\<close>, \<open>lib/nav-modules.ts\<close>,
    \<open>hooks/use-sidebar-config.ts\<close>, \<open>lib/roles.ts\<close>): preferences of a user only narrow the sidebar, roles
    gate its groups and items (of sub-items only those of the super administrator), and for configurations
    the settings page writes it agrees with the guards of the routes, preferences of the user apart.
  \<^item> \<open>Seeds\<close> (\<open>features/pricing/lib/seed.ts\<close>, \<open>lib/format.ts\<close>): hashes and a generator on 32-bit integers
    refine their recurrences on words; bounds of draws, seeds and colours.

  \<^bold>\<open>Image workbench.\<close>
  \<^item> \<open>Image_Mentions\<close> (\<open>lib/promptImageMentions.ts\<close>): mentions of images in a prompt.  They follow their images
    when these are reordered or replaced (locale \<open>rewriting\<close>, interpreted here and for rounds), and the
    displayed parts are the prompt.
  \<^item> \<open>Agent_Rounds\<close> (\<open>store.ts\<close>, \<open>getAgentRoundPath\<close> to \<open>deleteAgentRoundFromConversation\<close>): the rounds of a
    conversation as a tree.  Walks return; deleting a round takes exactly it out of every path, and mentions
    of other rounds keep what they refer to.
  \<^item> \<open>Image_Cache\<close> (\<open>lib/db.ts\<close>, \<open>store.ts\<close> up to \<open>startThumbnailBackfill\<close>): the record \<^typ>\<open>ImageModule\<close> is the
    object stores and the module state, \<^const>\<open>image_step\<close> their steps in any order, over page loads and
    imports.  Images are addressed by content unless an archive or the persisted input brought the id; the
    caches are bounded maps that keep what was used; the thumbnail queue does not stall unless the
    database rejects a read, but its limit can be exceeded.
  \<^item> \<open>Input_Drafts\<close> (\<open>store.ts\<close>, \<open>clearInputDraftState\<close> to \<open>deleteAgentConversation\<close>): the record \<^typ>\<open>AppState\<close>
    has the fields the input actions touch, \<^const>\<open>input_step\<close> is the actions in any order and with any
    arguments.  The input is always the one of its draft, and the other mode loses nothing.  Masks stay on
    the first image and ids different only under the restricted relation, which the callers do not ensure.
  \<^item> \<open>Image_References\<close> (\<open>store.ts\<close>, \<open>isImageReferencedByState\<close>, \<open>removeTask\<close> and others, \<open>initStore\<close>): the record
    \<^typ>\<open>World\<close> joins both.  \<^const>\<open>needed\<close> says which references count, independently of the code.  Every
    cleaning function that is not interrupted meets the contract \<open>image_collector\<close> (six interpretations): what
    is needed stays.  For a removal of tasks, cut at its awaits (\<^typ>\<open>Removal\<close>), what it deletes is determined
    whatever happens in between.  The sweep at the start forgets the masks of rounds and messages.
  \<^item> \<open>Agent_Turn\<close> (\<open>store.ts\<close>, \<open>sanitizeResponseOutputForInput\<close> and the loop of \<open>executeAgentRound\<close>): a turn ends
    within its budget if each continuing response uses some of it, and never ends if none does and nothing
    interrupts it; what later turns send back pairs calls and outputs.

  \<^bold>\<open>Interaction.\<close>  \<open>Usage_Logs\<close> prices entries with the tier parser of \<open>Billing_Expr\<close>; \<open>Billing_Rules\<close>
  and \<open>Tier_Expr\<close> print what \<open>Billing_Expr\<close> reads; the chat reads its events, the caches their keys and the
  sidebar its configuration through the JSON codec of \<open>Js_Json\<close>, whose round trip the properties of these
  components use.  In the workbench \<open>Input_Drafts\<close> moves mentions with \<open>Image_Mentions\<close> when images change,
  and \<open>Image_References\<close> deletes from the stores of \<open>Image_Cache\<close> what neither the input and drafts of
  \<open>Input_Drafts\<close> nor the conversations of \<open>Agent_Rounds\<close> refer to.

  \<^bold>\<open>Not modelled.\<close>  React components, rendering and translation; requests and the query client; the
  storage of the playground around \<^const>\<open>loadMessages\<close>; forms validated by a schema library;
  formatting by locale and currency; \<open>evalExprLocally\<close>, which compiles text to a function; of
  the workbench, the settings and profiles, requests and their recovery, favourites, archives except the images they bring, the canvas
  editors, the tasks and messages a turn of the agent writes, and, apart from the
  removal of tasks and the thumbnail queue, what happens during the awaits of one function; the classic interface and the desktop shell, which are separate applications; the
  server, which is not part of the clients.
\<close>

end
